(* ===== verification/Prelude.thy ===== *)
theory Prelude
  imports Main "HOL-Library.Word"
begin

text \<open>
  The prelude of the z-hyper development: the names of the machine types, the way a program
  stops without returning, the error numbers of \<^verbatim>\<open>src/include/utils/errno.h\<close>, and the generic
  lemmas on words and lists that the component theories share. The collection
  \<open>span_simps\<close> holds the facts that turn membership in a byte range into linear arithmetic;
  \<open>cell_simps\<close> holds the read-after-write laws of memory.
\<close>

unbundle bit_operations_syntax

named_theorems span_simps
named_theorems cell_simps
named_theorems machine_defs

section \<open>Machine types\<close>

type_synonym u8 = "8 word"
type_synonym u16 = "16 word"
type_synonym u32 = "32 word"
type_synonym u64 = "64 word"

text \<open>\<open>paddr_t\<close>, \<open>vaddr_t\<close> and every pointer are 64-bit (\<^verbatim>\<open>src/include/utils/types.h\<close>).\<close>

type_synonym addr = "64 word"

abbreviation NULL :: addr where "NULL \<equiv> 0"

section \<open>Stopping without returning\<close>

text \<open>
  A call of \<open>panic\<close> (\<^verbatim>\<open>src/platform/aarch64/main/el2_sync.c\<close>) prints its message and faults on
  purpose; the fault handler never returns. \<open>Fault\<close> is an access the processor refuses, of a
  null pointer here, which ends in the same handler. A program that may panic returns \<open>halt + 'a\<close>; one
  whose loops may also run forever returns an option of that, where \<open>None\<close> is a loop that does
  not end.
\<close>

datatype halt = Panic string | Fault

type_synonym 'a outcome = "halt + 'a"

abbreviation newline :: string where "newline \<equiv> [CHR 0x0A]"

text \<open>Sequencing, and a loop over a list of indices that stops where its body stops.\<close>

definition andthen :: "'a outcome option \<Rightarrow> ('a \<Rightarrow> 'b outcome option) \<Rightarrow> 'b outcome option" where
  "andthen x f = (case x of None \<Rightarrow> None | Some (Inl e) \<Rightarrow> Some (Inl e) | Some (Inr v) \<Rightarrow> f v)"

lemma andthen_simps [simp]:
  "andthen (Some (Inr v)) f = f v" "andthen (Some (Inl e)) f = Some (Inl e)" "andthen None f = None"
  by (simp_all add: andthen_def)

fun for_each :: "('i \<Rightarrow> 's \<Rightarrow> 's outcome option) \<Rightarrow> 'i list \<Rightarrow> 's \<Rightarrow> 's outcome option" where
  "for_each f [] s = Some (Inr s)"
| "for_each f (i # is) s = andthen (f i s) (for_each f is)"

text \<open>A body that returns normally and keeps an invariant makes the loop do the same.\<close>

lemma for_each_inv:
  assumes "I s" "\<And>i s. i \<in> set is \<Longrightarrow> I s \<Longrightarrow> \<exists>s'. f i s = Some (Inr s') \<and> I s'"
  shows "\<exists>s'. for_each f is s = Some (Inr s') \<and> I s'"
  using assms
proof (induction "is" arbitrary: s)
  case (Cons i "is")
  then obtain s' where "f i s = Some (Inr s')" "I s'" by (meson list.set_intros(1))
  with Cons show ?case by simp
qed simp

lemma for_each_append: "for_each f (xs @ ys) s = andthen (for_each f xs s) (for_each f ys)"
proof (induction xs arbitrary: s)
  case (Cons x xs)
  then show ?case by (simp add: andthen_def split: option.split sum.split)
qed simp

text \<open>The same with an invariant that counts the iterations.\<close>

lemma for_each_upt_inv:
  assumes "I 0 s" "\<And>i s. i < n \<Longrightarrow> I i s \<Longrightarrow> \<exists>s'. f i s = Some (Inr s') \<and> I (Suc i) s'"
  shows "\<exists>s'. for_each f [0..<n] s = Some (Inr s') \<and> I n s'"
  using assms
proof (induction n)
  case (Suc n)
  then obtain s1 where "for_each f [0..<n] s = Some (Inr s1)" "I n s1" by (metis less_Suc_eq)
  moreover from this Suc.prems(2) obtain s2 where "f n s1 = Some (Inr s2)" "I (Suc n) s2" by blast
  ultimately show ?case by (simp add: for_each_append)
qed simp

section \<open>Error numbers\<close>

text \<open>The table of \<^verbatim>\<open>include/utils/errno.h\<close>, and the numbers that the modelled code returns.\<close>

definition errno_h :: "(string \<times> int) list" where
  "errno_h =
    [(''EPERM'', 1), (''ENOENT'', 2), (''ESRCH'', 3), (''EINTR'', 4), (''EIO'', 5), (''ENXIO'', 6), (''E2BIG'', 7),
     (''ENOEXEC'', 8), (''EBADF'', 10), (''EAGAIN'', 11), (''ENOMEM'', 12), (''EACCES'', 13), (''EBUSY'', 16),
     (''EINVAL'', 22), (''ERANGE'', 34), (''EPROTO'', 71), (''EOVERFLOW'', 75), (''EFAULT'', 77), (''ENOTSUP'',
     95), (''ESTALE'', 116)]"

definition ENOENT :: int where "ENOENT = 2"
definition EINVAL :: int where "EINVAL = 22"
definition ENOTSUP :: int where "ENOTSUP = 95"

text \<open>\<open>ENODEV\<close> is not in the repository's \<^verbatim>\<open>errno.h\<close>; \<^verbatim>\<open>console.c\<close> takes it from the system header.\<close>

definition ENODEV :: int where "ENODEV = 19"

text \<open>An error number tells the error: no two names share one, all are positive, and the constants are those of the table.\<close>

lemma errno_h_distinct: "distinct (map fst errno_h) \<and> distinct (map snd errno_h) \<and> list_all (\<lambda>(_, n). 0 < n) errno_h"
  by (simp add: errno_h_def)

lemma errno_h_values: "map_of errno_h ''ENOENT'' = Some ENOENT" "map_of errno_h ''EINVAL'' = Some EINVAL"
  "map_of errno_h ''ENOTSUP'' = Some ENOTSUP" "map_of errno_h ''ENODEV'' = None"
  by (simp_all add: errno_h_def ENOENT_def EINVAL_def ENOTSUP_def)

lemmas errno_defs [machine_defs] = ENOENT_def EINVAL_def ENOTSUP_def ENODEV_def

section \<open>Words\<close>

lemma unat_less_2p64 [simp]: "unat (x :: u64) < 18446744073709551616"
  using unsigned_less [of x] by simp

lemma unat_less_2p32 [simp]: "unat (x :: u32) < 4294967296"
  using unsigned_less [of x] by simp

lemma unat_less_2p16 [simp]: "unat (x :: u16) < 65536"
  using unsigned_less [of x] by simp

lemma unat_of_nat64: "n < 18446744073709551616 \<Longrightarrow> unat (of_nat n :: u64) = n"
  by (simp add: unat_of_nat)

lemma unat_of_nat32: "n < 4294967296 \<Longrightarrow> unat (of_nat n :: u32) = n"
  by (simp add: unat_of_nat)

lemma unat_add64:
  "unat (a :: u64) + unat b < 18446744073709551616 \<Longrightarrow> unat (a + b) = unat a + unat b"
  using unat_add_lem [of a b] by simp

lemma unat_ucast_32_64 [simp]: "unat (ucast (x :: u32) :: u64) = unat x"
  proof -
  have "unat x < 18446744073709551616"
    using unat_less_2p32 [of x] by linarith
  then show ?thesis by (simp add: unsigned_ucast_eq take_bit_nat_eq_self_iff)
qed

text \<open>Cutting a 64-bit value to 32 bits commutes with wrapping arithmetic.\<close>

lemma low32_add: "(ucast (a + b :: u64) :: u32) = ucast a + ucast b"
proof -
  have "(word_of_int (take_bit 64 k) :: u32) = word_of_int k" for k
    by transfer simp
  then have "(word_of_int (uint (a + b)) :: u32) = word_of_int (uint a + uint b)"
    by (simp add: uint_word_ariths take_bit_eq_mod)
  then show ?thesis by simp
qed

lemma low32_diff: "(ucast (a - b :: u64) :: u32) = ucast a - ucast b"
  using low32_add [of "a - b" b] by (simp add: algebra_simps)

lemma low32_ucast [simp]: "(ucast (ucast (x :: u32) :: u64) :: u32) = x"
  by (rule bit_word_eqI) (auto simp: bit_simps)

lemma unat_eq_ofnat64: "unat (x :: u64) = n \<Longrightarrow> x = of_nat n"
  by auto

end
