(* ===== verification/Memory.thy ===== *)
theory Memory
  imports Prelude
begin

text \<open>
  Byte-addressed little-endian memory, as the AArch64 target of the C sources sees ordinary
  RAM: 8-, 32- and 64-bit loads and stores at a 64-bit address. \<open>span a n\<close> is the set of the
  \<open>n\<close> byte addresses from \<open>a\<close>, modulo \<open>2 ^ 64\<close>. The locale \<open>cell\<close> states what a typed
  access of some width promises (read-after-write, and that it touches only its own bytes); the
  three widths interpret it, and every frame argument of the other theories goes through it.
\<close>

type_synonym mem = "addr \<Rightarrow> u8"

section \<open>Byte ranges\<close>

definition span :: "addr \<Rightarrow> nat \<Rightarrow> addr set" where
  "span a n = {x. unat (x - a) < n}"

definition agree :: "addr set \<Rightarrow> mem \<Rightarrow> mem \<Rightarrow> bool" where
  "agree S m m' \<longleftrightarrow> (\<forall>x \<in> S. m x = m' x)"

lemma span_iff: "x \<in> span a n \<longleftrightarrow> unat (x - a) < n"
  by (simp add: span_def)

lemma span_0 [simp]: "span a 0 = {}"
  by (simp add: span_def)

lemma span_mono: "n \<le> k \<Longrightarrow> span a n \<subseteq> span a k"
  by (auto simp: span_iff)

lemma span_nowrap:
  assumes "unat a + n \<le> 18446744073709551616"
  shows "x \<in> span a n \<longleftrightarrow> unat a \<le> unat x \<and> unat x < unat a + n"
proof -
  have "unat x < 18446744073709551616" by simp
  then show ?thesis
    using assms by (auto simp: span_iff unat_sub_if' )
qed

lemma unat_diff_less_iff:
  assumes "i + n \<le> 18446744073709551616"
  shows "unat ((d :: addr) - of_nat i) < n \<longleftrightarrow> i \<le> unat d \<and> unat d < i + n"
proof (cases "i < 18446744073709551616")
  case True
  have "unat d < 18446744073709551616" by simp
  then show ?thesis
    using assms True by (auto simp: unat_sub_if' unat_of_nat64)
next
  case False
  with assms have "n = 0" by simp
  with False show ?thesis
    using unat_less_2p64 [of d] by simp
qed

lemma span_offset_iff:
  assumes "i + n \<le> 18446744073709551616"
  shows "x \<in> span (a + of_nat i) n \<longleftrightarrow> i \<le> unat (x - a) \<and> unat (x - a) < i + n"
  using unat_diff_less_iff [OF assms, of "x - a"] by (simp add: span_iff diff_diff_eq)

lemma span_offset_numeral [span_simps]:
  "numeral k + n \<le> (18446744073709551616 :: nat) \<Longrightarrow>
   x \<in> span (a + numeral k) n \<longleftrightarrow> numeral k \<le> unat (x - a) \<and> unat (x - a) < numeral k + n"
  using span_offset_iff [of "numeral k" n x a] by simp

lemma span_of_nat [span_simps]:
  assumes "a + n \<le> 18446744073709551616"
  shows "x \<in> span (of_nat a) n \<longleftrightarrow> a \<le> unat x \<and> unat x < a + n"
  using unat_diff_less_iff [OF assms, of x] by (simp add: span_iff)

lemma span_of_nat_numeral [span_simps]:
  assumes "a + numeral k + n \<le> 18446744073709551616"
  shows "x \<in> span (of_nat a + numeral k) n \<longleftrightarrow> a + numeral k \<le> unat x \<and> unat x < a + numeral k + n"
  using span_of_nat [of "a + numeral k" n x] assms by simp

text \<open>Two fields of one object occupy disjoint bytes, and each lies inside the object.\<close>

lemma span_fields_disjoint:
  assumes "i + n \<le> j" "j + k \<le> 18446744073709551616"
  shows "span (a + of_nat i) n \<inter> span (a + of_nat j) k = {}"
  using assms by (auto simp: span_offset_iff)

lemma span_offset:
  assumes "k + n \<le> l" and "l \<le> 18446744073709551616"
  shows "span (a + of_nat k) n \<subseteq> span a l"
  using assms by (auto simp: span_offset_iff span_iff [of _ a])

lemma agree_refl [simp]: "agree S m m"
  by (simp add: agree_def)

lemma agree_sym: "agree S m m' \<Longrightarrow> agree S m' m"
  by (simp add: agree_def)

lemma agree_trans [trans]: "agree S m m' \<Longrightarrow> agree S m' m'' \<Longrightarrow> agree S m m''"
  by (simp add: agree_def)

lemma agree_mono: "agree S m m' \<Longrightarrow> T \<subseteq> S \<Longrightarrow> agree T m m'"
  by (auto simp: agree_def)

lemma agree_un: "agree (S \<union> T) m m' \<longleftrightarrow> agree S m m' \<and> agree T m m'"
  by (auto simp: agree_def)

section \<open>Typed accesses\<close>

definition load8 :: "mem \<Rightarrow> addr \<Rightarrow> u8" where
  "load8 m a = m a"

definition store8 :: "mem \<Rightarrow> addr \<Rightarrow> u8 \<Rightarrow> mem" where
  "store8 m a v = m(a := v)"

definition load32 :: "mem \<Rightarrow> addr \<Rightarrow> u32" where
  "load32 m a =
     ucast (m a) OR push_bit 8 (ucast (m (a + 1))) OR
     push_bit 16 (ucast (m (a + 2))) OR push_bit 24 (ucast (m (a + 3)))"

definition store32 :: "mem \<Rightarrow> addr \<Rightarrow> u32 \<Rightarrow> mem" where
  "store32 m a v =
     m(a := ucast v, a + 1 := ucast (drop_bit 8 v),
       a + 2 := ucast (drop_bit 16 v), a + 3 := ucast (drop_bit 24 v))"

definition load64 :: "mem \<Rightarrow> addr \<Rightarrow> u64" where
  "load64 m a = ucast (load32 m a) OR push_bit 32 (ucast (load32 m (a + 4)))"

definition store64 :: "mem \<Rightarrow> addr \<Rightarrow> u64 \<Rightarrow> mem" where
  "store64 m a v = store32 (store32 m a (ucast v)) (a + 4) (ucast (drop_bit 32 v))"

lemma load32_store32_same: "load32 (store32 m a v) a = v"
proof (rule bit_word_eqI)
  fix n assume "n < LENGTH(32)"
  then consider "n < 8" | "8 \<le> n" "n < 16" | "16 \<le> n" "n < 24" | "24 \<le> n" "n < 32"
    by fastforce
  then show "bit (load32 (store32 m a v) a) n = bit v n"
    unfolding load32_def store32_def by cases (auto simp: bit_simps)
qed

lemma store32_outside: "x \<notin> span a 4 \<Longrightarrow> store32 m a v x = m x"
  unfolding span_iff store32_def by auto

lemma load32_local: "agree (span a 4) m m' \<Longrightarrow> load32 m a = load32 m' a"
proof -
  assume *: "agree (span a 4) m m'"
  have "m a = m' a" "m (a + 1) = m' (a + 1)" "m (a + 2) = m' (a + 2)" "m (a + 3) = m' (a + 3)"
    using * by (auto simp: agree_def span_iff)
  then show ?thesis by (simp add: load32_def)
qed

section \<open>The interface of a typed access\<close>

locale cell =
  fixes rd :: "mem \<Rightarrow> addr \<Rightarrow> 'v" and wr :: "mem \<Rightarrow> addr \<Rightarrow> 'v \<Rightarrow> mem" and width :: nat
  assumes rd_wr_same: "rd (wr m a v) a = v"
    and wr_outside: "x \<notin> span a width \<Longrightarrow> wr m a v x = m x"
    and rd_local: "agree (span a width) m m' \<Longrightarrow> rd m a = rd m' a"
begin

lemma wr_agree: "S \<inter> span a width = {} \<Longrightarrow> agree S (wr m a v) m"
  by (simp add: agree_def wr_outside disjoint_iff)

lemma rd_wr_other:
  assumes "span b width \<inter> span a width = {}"
  shows "rd (wr m a v) b = rd m b"
  by (rule rd_local, rule wr_agree, rule assms)

lemma rd_frame:
  assumes "agree S m m'" and "span a width \<subseteq> S"
  shows "rd m a = rd m' a"
  using assms by (blast intro: rd_local agree_mono)

end

interpretation c32: cell load32 store32 4
  by unfold_locales (fact load32_store32_same store32_outside load32_local)+

lemma span4_parts: "span a 4 \<subseteq> span a 8" "span (a + 4) 4 \<subseteq> span a 8"
  by (auto simp: span_simps span_iff [of _ a])

lemma span4_disjoint: "span a 4 \<inter> span (a + 4) 4 = {}"
  by (auto simp: span_simps span_iff [of _ a])

lemma load64_store64_same: "load64 (store64 m a v) a = v"
proof (rule bit_word_eqI)
  have lo: "load32 (store64 m a v) a = ucast v"
    unfolding store64_def by (simp add: c32.rd_wr_other c32.rd_wr_same span4_disjoint)
  have hi: "load32 (store64 m a v) (a + 4) = ucast (drop_bit 32 v)"
    unfolding store64_def by (simp add: c32.rd_wr_same)
  fix n assume "n < LENGTH(64)"
  then show "bit (load64 (store64 m a v) a) n = bit v n"
    unfolding load64_def lo hi by (cases "n < 32") (auto simp: bit_simps)
qed

lemma store64_outside:
  assumes "x \<notin> span a 8"
  shows "store64 m a v x = m x"
proof -
  have "x \<notin> span a 4" "x \<notin> span (a + 4) 4"
    using assms span4_parts by blast+
  then show ?thesis by (simp add: store64_def store32_outside)
qed

lemma load64_local:
  assumes "agree (span a 8) m m'"
  shows "load64 m a = load64 m' a"
  using c32.rd_frame [OF assms span4_parts(1)] c32.rd_frame [OF assms span4_parts(2)]
  by (simp add: load64_def)

interpretation c64: cell load64 store64 8
  by unfold_locales (fact load64_store64_same store64_outside load64_local)+

interpretation c8: cell load8 store8 1
  by unfold_locales (auto simp: load8_def store8_def agree_def span_iff)

end
