(* ===== verification/Miniheap.thy ===== *)
theory Miniheap
  imports Memory
begin

text \<open>
  The heap allocator of \<^verbatim>\<open>src/src/libc/miniheap.c\<close> over byte memory: an address-ordered free list
  threaded through the headers of the free blocks, first fit with splitting, and coalescing on
  release. \<open>struct miniheap\<close> is the record \<open>miniheap\<close>; the block headers stay in memory at
  the offsets of \<^verbatim>\<open>src/include/utils/miniheap.h\<close>, so every assignment of the code is a store. The
  two \<open>while\<close> loops follow a list that lives in memory and need not be finite: they are partial
  functions, and \<open>None\<close> is a loop that never ends.
\<close>

section \<open>Data\<close>

record miniheap =
  mh_base :: addr
  mh_size :: u64
  free_bytes :: u64
  align :: u32
  free_list :: addr

definition MINIHEAP_ALIGNMENT :: u32 where "MINIHEAP_ALIGNMENT = 16"
definition MINIHEAP_MAGIC_FREE :: u32 where "MINIHEAP_MAGIC_FREE = 0xDEADBEEF"
definition MINIHEAP_MAGIC_USED :: u32 where "MINIHEAP_MAGIC_USED = 0xBEEFDEAD"

text \<open>\<open>sizeof(miniheap_usedheader_t)\<close> is 8, rounded up to the alignment.\<close>

definition MINIHEAP_USEDHEADER_SIZE :: u32 where
  "MINIHEAP_USEDHEADER_SIZE = (8 + MINIHEAP_ALIGNMENT - 1) AND NOT (MINIHEAP_ALIGNMENT - 1)"

text \<open>
  The header fields: \<open>miniheap_freeblock_t\<close> has \<open>magic\<close> at 0, \<open>size\<close> at 4 and \<open>next\<close>
  at 8; \<open>miniheap_usedheader_t\<close> has the first two at the same offsets.
\<close>

definition blk_magic :: "mem \<Rightarrow> addr \<Rightarrow> u32" where "blk_magic m b = load32 m b"
definition blk_size :: "mem \<Rightarrow> addr \<Rightarrow> u32" where "blk_size m b = load32 m (b + 4)"
definition blk_next :: "mem \<Rightarrow> addr \<Rightarrow> addr" where "blk_next m b = load64 m (b + 8)"

definition set_blk_magic :: "mem \<Rightarrow> addr \<Rightarrow> u32 \<Rightarrow> mem" where "set_blk_magic m b v = store32 m b v"
definition set_blk_size :: "mem \<Rightarrow> addr \<Rightarrow> u32 \<Rightarrow> mem" where "set_blk_size m b v = store32 m (b + 4) v"
definition set_blk_next :: "mem \<Rightarrow> addr \<Rightarrow> addr \<Rightarrow> mem" where "set_blk_next m b v = store64 m (b + 8) v"

lemmas blk_defs = blk_magic_def blk_size_def blk_next_def
  set_blk_magic_def set_blk_size_def set_blk_next_def

section \<open>Initialisation\<close>

definition miniheap_init :: "miniheap \<Rightarrow> mem \<Rightarrow> addr \<Rightarrow> u64 \<Rightarrow> (int \<times> miniheap \<times> mem) outcome" where
  "miniheap_init heap m base sz =
     (if sz = 0 \<or> sz AND ucast (MINIHEAP_ALIGNMENT - 1) \<noteq> 0
      then Inl (Panic (''miniheap_init: invalid size'' @ newline))
      else
        let heap = heap\<lparr>mh_base := base, mh_size := sz, free_bytes := sz,
                        align := MINIHEAP_ALIGNMENT\<rparr>;
            m = set_blk_magic m base MINIHEAP_MAGIC_FREE;
            m = set_blk_size m base (ucast sz);
            m = set_blk_next m base 0
        in Inr (0, heap\<lparr>free_list := base\<rparr>, m))"

section \<open>Allocation\<close>

text \<open>\<open>if (prev) prev->next = b; else heap->free_list = b;\<close>\<close>

definition link_free :: "miniheap \<Rightarrow> mem \<Rightarrow> addr \<Rightarrow> addr \<Rightarrow> miniheap \<times> mem" where
  "link_free heap m prev b =
     (if prev \<noteq> NULL then (heap, set_blk_next m prev b) else (heap\<lparr>free_list := b\<rparr>, m))"

text \<open>The body of the search loop at a block that is large enough.\<close>

definition take_block :: "u32 \<Rightarrow> miniheap \<Rightarrow> mem \<Rightarrow> addr \<Rightarrow> addr \<Rightarrow> miniheap \<times> mem" where
  "take_block total_size heap m prev cur =
     (if blk_size m cur = total_size then link_free heap m prev (blk_next m cur)
      else
        let new_block = cur + ucast total_size;
            m = set_blk_magic m new_block MINIHEAP_MAGIC_FREE;
            m = set_blk_size m new_block (blk_size m cur - total_size);
            m = set_blk_next m new_block (blk_next m cur)
        in link_free heap m prev new_block)"

partial_function (option) alloc_loop ::
  "u32 \<Rightarrow> miniheap \<Rightarrow> mem \<Rightarrow> addr \<Rightarrow> addr \<Rightarrow> (miniheap \<times> mem \<times> addr) option" where
  "alloc_loop total_size heap m prev cur =
     (if cur = NULL then Some (heap, m, cur)
      else if total_size \<le> blk_size m cur
      then Some (let (heap, m) = take_block total_size heap m prev cur in (heap, m, cur))
      else alloc_loop total_size heap m cur (blk_next m cur))"

text \<open>
  \<open>uint32_t total_size = (size + heap->align - 1) & ~(heap->align - 1)\<close>: the sum is 64 bits
  wide, the mask is a 32-bit value extended with zeroes, and the result is cut to 32 bits.
\<close>

definition round_up_size :: "u32 \<Rightarrow> u64 \<Rightarrow> u32" where
  "round_up_size al sz = ucast ((sz + ucast al - 1) AND ucast (NOT (al - 1)))"

definition miniheap_alloc :: "miniheap \<Rightarrow> mem \<Rightarrow> u64 \<Rightarrow> (miniheap \<times> mem \<times> addr) option" where
  "miniheap_alloc heap m sz =
     (let total_size = round_up_size (align heap) sz
      in if total_size = 0 then Some (heap, m, NULL)
         else
           let total_size = total_size + MINIHEAP_USEDHEADER_SIZE
           in if ucast total_size > free_bytes heap then Some (heap, m, NULL)
              else
                case alloc_loop total_size heap m NULL (free_list heap) of
                  None \<Rightarrow> None
                | Some (heap, m, cur) \<Rightarrow>
                    if cur = NULL then Some (heap, m, NULL)
                    else
                      let heap = heap\<lparr>free_bytes := free_bytes heap - ucast total_size\<rparr>;
                          m = set_blk_magic m cur MINIHEAP_MAGIC_USED;
                          m = set_blk_size m cur total_size
                      in Some (heap, m, cur + ucast MINIHEAP_USEDHEADER_SIZE))"

section \<open>Release\<close>

partial_function (option) free_loop ::
  "mem \<Rightarrow> addr \<Rightarrow> addr \<Rightarrow> addr \<Rightarrow> addr \<Rightarrow> (addr \<times> addr) option" where
  "free_loop m block ptr_rear prev cur =
     (if cur \<noteq> NULL \<and> cur < block
      then if cur \<ge> ptr_rear then Some (prev, cur)
           else free_loop m block ptr_rear cur (blk_next m cur)
      else Some (prev, cur))"

text \<open>Everything of \<open>miniheap_free\<close> after its search loop.\<close>

definition release_block :: "miniheap \<Rightarrow> mem \<Rightarrow> addr \<Rightarrow> addr \<Rightarrow> addr \<Rightarrow> addr \<Rightarrow> miniheap \<times> mem" where
  "release_block heap m block ptr_rear prev cur =
     (let sz = blk_size m block;
          m = set_blk_magic m block MINIHEAP_MAGIC_FREE;
          (heap, m, new_block, ptr_rear) =
            (if prev \<noteq> NULL \<and> prev + ucast (blk_size m prev) = block
             then let m = set_blk_size m prev (blk_size m prev + sz)
                  in (heap, m, prev, prev + ucast (blk_size m prev))
             else let m = set_blk_size m block sz;
                      m = set_blk_next m block cur;
                      (heap, m) = link_free heap m prev block
                  in (heap, m, block, ptr_rear));
          m = (if cur \<noteq> NULL \<and> ptr_rear = cur
               then let m = set_blk_size m new_block (blk_size m new_block + blk_size m cur)
                    in set_blk_next m new_block (blk_next m cur)
               else m)
      in (heap\<lparr>free_bytes := free_bytes heap + ucast sz\<rparr>, m))"

definition miniheap_free :: "miniheap \<Rightarrow> mem \<Rightarrow> addr \<Rightarrow> (miniheap \<times> mem) outcome option" where
  "miniheap_free heap m ptr =
     (if ptr = NULL then Some (Inr (heap, m))
      else
        let block = ptr - ucast MINIHEAP_USEDHEADER_SIZE
        in if blk_magic m block \<noteq> MINIHEAP_MAGIC_USED
           then Some (Inl (Panic (''miniheap_free: invalid free'' @ newline)))
           else
             let ptr_rear = block + ucast (blk_size m block)
             in case free_loop m block ptr_rear NULL (free_list heap) of
                  None \<Rightarrow> None
                | Some (prev, cur) \<Rightarrow> Some (Inr (release_block heap m block ptr_rear prev cur)))"

text \<open>\<open>malloc\<close> and \<open>free\<close> are the two operations on the global \<open>g_miniheap\<close>.\<close>

definition malloc :: "miniheap \<Rightarrow> mem \<Rightarrow> u64 \<Rightarrow> (miniheap \<times> mem \<times> addr) option" where
  "malloc g_miniheap m sz = miniheap_alloc g_miniheap m sz"

definition mfree :: "miniheap \<Rightarrow> mem \<Rightarrow> addr \<Rightarrow> (miniheap \<times> mem) outcome option" where
  "mfree g_miniheap m ptr = miniheap_free g_miniheap m ptr"

lemma header_size_16 [simp]: "MINIHEAP_USEDHEADER_SIZE = 16"
  by (simp add: MINIHEAP_USEDHEADER_SIZE_def MINIHEAP_ALIGNMENT_def)

end
