(* ===== verification/Heap_Segments.thy ===== *)
theory Heap_Segments
  imports Prelude
begin

text \<open>
  The abstract heap: the managed region as a list of segments that tile it from its base, each
  free or used, with the sizes the allocator keeps (header included). First fit, splitting and
  coalescing are stated here with no memory and no pointers; \<^verbatim>\<open>Miniheap_Refine\<close> shows that
  \<^verbatim>\<open>miniheap.c\<close> implements them. The specification's invariant \<open>segs_ok\<close> says that sizes are
  positive multiples of 16, and \<open>coalesced\<close> that no two free segments touch.
\<close>

datatype seg = Free nat | Used nat

primrec seg_size :: "seg \<Rightarrow> nat" where
  "seg_size (Free n) = n"
| "seg_size (Used n) = n"

definition segs_size :: "seg list \<Rightarrow> nat" where
  "segs_size xs = sum_list (map seg_size xs)"

fun free_total :: "seg list \<Rightarrow> nat" where
  "free_total [] = 0"
| "free_total (Free n # r) = n + free_total r"
| "free_total (Used n # r) = free_total r"

fun has_free :: "seg list \<Rightarrow> bool" where
  "has_free [] = False"
| "has_free (Free n # r) = True"
| "has_free (Used n # r) = has_free r"

definition segs_ok :: "seg list \<Rightarrow> bool" where
  "segs_ok xs \<longleftrightarrow> (\<forall>x \<in> set xs. 16 dvd seg_size x \<and> 16 \<le> seg_size x)"

fun coalesced :: "seg list \<Rightarrow> bool" where
  "coalesced (Free n # Free k # r) = False"
| "coalesced (x # r) = coalesced r"
| "coalesced [] = True"

text \<open>The used segments with their positions, counted from \<open>a\<close>.\<close>

fun live :: "nat \<Rightarrow> seg list \<Rightarrow> (nat \<times> nat) list" where
  "live a [] = []"
| "live a (Free n # r) = live (a + n) r"
| "live a (Used n # r) = (a, n) # live (a + n) r"

section \<open>The two operations\<close>

definition carve :: "nat \<Rightarrow> nat \<Rightarrow> seg list" where
  "carve t n = (if n = t then [Used t] else [Used t, Free (n - t)])"

fun alloc_segs :: "nat \<Rightarrow> seg list \<Rightarrow> (seg list \<times> nat) option" where
  "alloc_segs t [] = None"
| "alloc_segs t (Used n # r) =
     map_option (\<lambda>(r', off). (Used n # r', n + off)) (alloc_segs t r)"
| "alloc_segs t (Free n # r) =
     (if t \<le> n then Some (carve t n @ r, 0)
      else map_option (\<lambda>(r', off). (Free n # r', n + off)) (alloc_segs t r))"

fun join_free :: "nat \<Rightarrow> seg list \<Rightarrow> seg list" where
  "join_free n (Free k # r) = Free (n + k) # r"
| "join_free n r = Free n # r"

fun release_segs :: "nat \<Rightarrow> seg list \<Rightarrow> seg list option" where
  "release_segs off [] = None"
| "release_segs off (Used n # r) =
     (if off = 0 then Some (join_free n r)
      else if off < n then None
      else map_option ((#) (Used n)) (release_segs (off - n) r))"
| "release_segs off (Free n # r) =
     (if off < n then None else map_option (join_free n) (release_segs (off - n) r))"

section \<open>Facts about tilings\<close>

lemma segs_size_simps [simp]:
  "segs_size [] = 0" "segs_size (x # xs) = seg_size x + segs_size xs"
  "segs_size (xs @ ys) = segs_size xs + segs_size ys"
  by (simp_all add: segs_size_def)

lemma segs_ok_simps [simp]:
  "segs_ok []"
  "segs_ok (x # xs) \<longleftrightarrow> 16 dvd seg_size x \<and> 16 \<le> seg_size x \<and> segs_ok xs"
  "segs_ok (xs @ ys) \<longleftrightarrow> segs_ok xs \<and> segs_ok ys"
  by (auto simp: segs_ok_def)

lemma free_total_append [simp]: "free_total (xs @ ys) = free_total xs + free_total ys"
  by (induction xs rule: free_total.induct) auto

lemma free_total_le: "free_total xs \<le> segs_size xs"
  by (induction xs rule: free_total.induct) auto

lemma free_total_live: "free_total xs + sum_list (map snd (live a xs)) = segs_size xs"
  by (induction xs arbitrary: a rule: free_total.induct) (auto simp: ac_simps)

lemma has_free_append [simp]: "has_free (xs @ ys) \<longleftrightarrow> has_free xs \<or> has_free ys"
  by (induction xs rule: has_free.induct) auto

lemma no_free_conv: "\<not> has_free xs \<longleftrightarrow> (\<forall>x \<in> set xs. \<exists>n. x = Used n)"
  by (induction xs rule: has_free.induct) auto

lemma live_append [simp]: "live a (xs @ ys) = live a xs @ live (a + segs_size xs) ys"
  by (induction xs arbitrary: a rule: free_total.induct) (auto simp: add.assoc)

lemma coalesced_ConsD: "coalesced (x # xs) \<Longrightarrow> coalesced xs"
  by (cases x; cases xs) (auto, metis coalesced.simps seg.exhaust)

lemma coalesced_Cons:
  "coalesced (x # xs) \<longleftrightarrow>
     coalesced xs \<and> (case (x, xs) of (Free n, Free k # r) \<Rightarrow> False | _ \<Rightarrow> True)"
  by (cases x; cases xs) (auto split: seg.splits)

lemma live_bounds:
  "(b, n) \<in> set (live a xs) \<Longrightarrow> a \<le> b \<and> b + n \<le> a + segs_size xs"
  by (induction xs arbitrary: a rule: free_total.induct) (auto, fastforce+)

text \<open>Two different used segments never overlap: the later one starts where the earlier ends or after.\<close>

lemma live_disjoint:
  assumes "segs_ok xs" "(b, n) \<in> set (live a xs)" "(c, k) \<in> set (live a xs)" "(b, n) \<noteq> (c, k)"
  shows "b + n \<le> c \<or> c + k \<le> b"
  using assms
proof (induction xs arbitrary: a rule: free_total.induct)
  case (3 s r)
  then show ?case using live_bounds [of _ _ "a + s" r] by fastforce
qed auto

lemma live_split:
  assumes "(b, n) \<in> set (live a xs)"
  obtains ys zs where "xs = ys @ Used n # zs" "b = a + segs_size ys"
  using assms
proof (induction xs arbitrary: a thesis rule: free_total.induct)
  case (2 s r)
  from 2(3) have "(b, n) \<in> set (live (a + s) r)" by simp
  then obtain ys zs where "r = ys @ Used n # zs" "b = a + s + segs_size ys"
    using 2(1) by blast
  then show ?case using 2(2) [of "Free s # ys" zs] by simp
next
  case (3 s r)
  show ?case
  proof (cases "b = a \<and> n = s")
    case True
    then show ?thesis using 3(2) [of "[]" r] by simp
  next
    case False
    with 3(3) have "(b, n) \<in> set (live (a + s) r)" by auto
    then obtain ys zs where "r = ys @ Used n # zs" "b = a + s + segs_size ys"
      using 3(1) by blast
    then show ?thesis using 3(2) [of "Used s # ys" zs] by simp
  qed
qed simp

lemma live_size: "segs_ok xs \<Longrightarrow> (b, n) \<in> set (live a xs) \<Longrightarrow> 16 \<le> n \<and> 16 dvd n"
  by (erule live_split) simp

lemma live_distinct: "segs_ok xs \<Longrightarrow> distinct (live a xs)"
proof (induction xs arbitrary: a rule: free_total.induct)
  case (3 n r)
  then have "(a, n) \<notin> set (live (a + n) r)" using live_bounds [of a n "a + n" r] by auto
  with 3 show ?case by simp
qed auto

section \<open>Allocation keeps the tiling\<close>

text \<open>First fit: the segment taken is the first free one that is large enough.\<close>

lemma alloc_segs_Some:
  assumes "alloc_segs t xs = Some (xs', off)"
  obtains ys n zs where "xs = ys @ Free n # zs" "t \<le> n" "\<forall>k. Free k \<in> set ys \<longrightarrow> k < t"
    "xs' = ys @ carve t n @ zs" "off = segs_size ys"
  using assms
proof (induction t xs arbitrary: xs' off thesis rule: alloc_segs.induct)
  case (2 t n r)
  from 2(3) obtain r' o' where r: "alloc_segs t r = Some (r', o')"
    and e: "xs' = Used n # r'" "off = n + o'" by auto
  show ?case
  proof (rule 2(1) [OF _ r])
    fix ys k zs
    assume "r = ys @ Free k # zs" "t \<le> k" "\<forall>k. Free k \<in> set ys \<longrightarrow> k < t"
      "r' = ys @ carve t k @ zs" "o' = segs_size ys"
    then show thesis using e by (intro 2(2) [of "Used n # ys" k zs]) auto
  qed
next
  case (3 t n r)
  show ?case
  proof (cases "t \<le> n")
    case True
    with 3(3) show ?thesis by (intro 3(2) [of "[]" n r]) auto
  next
    case False
    with 3(3) obtain r' o' where r: "alloc_segs t r = Some (r', o')"
      and e: "xs' = Free n # r'" "off = n + o'" by auto
    show ?thesis
    proof (rule 3(1) [OF False _ r])
      fix ys k zs
      assume "r = ys @ Free k # zs" "t \<le> k" "\<forall>k. Free k \<in> set ys \<longrightarrow> k < t"
        "r' = ys @ carve t k @ zs" "o' = segs_size ys"
      then show thesis using e False by (intro 3(2) [of "Free n # ys" k zs]) auto
    qed
  qed
qed simp

lemma alloc_segs_None:
  "alloc_segs t xs = None \<longleftrightarrow> (\<forall>n. Free n \<in> set xs \<longrightarrow> n < t)"
  by (induction t xs rule: alloc_segs.induct) auto

lemma alloc_segs_first_fit:
  "t \<le> n \<Longrightarrow> \<forall>k. Free k \<in> set ys \<longrightarrow> k < t \<Longrightarrow>
   alloc_segs t (ys @ Free n # zs) = Some (ys @ carve t n @ zs, segs_size ys)"
  by (induction ys rule: free_total.induct) (auto simp: not_le)

lemma carve_props:
  assumes "t \<le> n"
  shows "segs_size (carve t n) = n" "free_total (carve t n) = n - t"
    "live a (carve t n) = [(a, t)]"
  using assms by (auto simp: carve_def)

lemma carve_ok:
  assumes "16 dvd t" "16 \<le> t" "16 dvd n" "t \<le> n"
  shows "segs_ok (carve t n)"
  using assms by (auto simp: carve_def intro: dvd_imp_le dvd_diff_nat)

lemma alloc_segs_live:
  assumes "alloc_segs t xs = Some (xs', off)"
  shows "set (live a xs') = insert (a + off, t) (set (live a xs))"
proof -
  obtain ys n zs where "xs = ys @ Free n # zs" "t \<le> n" "xs' = ys @ carve t n @ zs" "off = segs_size ys"
    using assms by (metis alloc_segs_Some)
  then show ?thesis by (auto simp: carve_props)
qed

lemma alloc_segs_ok:
  assumes "alloc_segs t xs = Some (xs', off)" "segs_ok xs" "16 dvd t" "16 \<le> t"
  shows "segs_ok xs'"
proof -
  obtain ys n zs where "xs = ys @ Free n # zs" "t \<le> n" "xs' = ys @ carve t n @ zs"
    using assms(1) by (metis alloc_segs_Some)
  then show ?thesis using assms(2-4) by (simp add: carve_ok)
qed

lemma alloc_segs_fresh:
  assumes "alloc_segs t xs = Some (xs', off)" "segs_ok xs"
  shows "(a + off, k) \<notin> set (live a xs)"
proof
  assume l: "(a + off, k) \<in> set (live a xs)"
  obtain ys n zs where e: "xs = ys @ Free n # zs" "off = segs_size ys"
    using assms(1) by (metis alloc_segs_Some)
  have "16 \<le> k" using live_size [OF assms(2) l] by simp
  then show False
    using l assms(2) live_bounds [of "a + off" k a ys] live_bounds [of "a + off" k "a + segs_size ys + n" zs]
    by (auto simp: e)
qed

lemma coalesced_append_iff:
  "coalesced (xs @ y # ys) \<longleftrightarrow> coalesced (xs @ [y]) \<and> coalesced (y # ys)"
  by (induction xs rule: coalesced.induct) (auto simp: coalesced_Cons split: seg.splits list.splits)

lemma carve_coalesced:
  assumes "coalesced (ys @ Free n # zs)"
  shows "coalesced (ys @ carve t n @ zs)"
proof -
  from assms have l: "coalesced (ys @ [Free n])" and r: "coalesced (Free n # zs)"
    using coalesced_append_iff [of ys "Free n" zs] by blast+
  have "coalesced (ys @ [Used t])"
    using l by (induction ys rule: coalesced.induct) (auto simp: coalesced_Cons split: seg.splits list.splits)
  moreover have "coalesced (Used t # zs)" "coalesced (Used t # Free (n - t) # zs)"
    using r by (auto simp: coalesced_Cons split: seg.splits list.splits)
  ultimately show ?thesis
    using coalesced_append_iff [of ys "Used t" zs]
      coalesced_append_iff [of ys "Used t" "Free (n - t) # zs"]
    by (auto simp: carve_def)
qed

section \<open>Release keeps the tiling\<close>

lemma join_free_props [simp]:
  "segs_size (join_free n xs) = n + segs_size xs"
  "free_total (join_free n xs) = n + free_total xs"
  "live a (join_free n xs) = live (a + n) xs"
  by (induction n xs rule: join_free.induct) (auto simp: add.assoc)

lemma join_free_ok: "16 dvd n \<Longrightarrow> 16 \<le> n \<Longrightarrow> segs_ok xs \<Longrightarrow> segs_ok (join_free n xs)"
  by (induction n xs rule: join_free.induct) auto

lemma join_free_coalesced: "coalesced xs \<Longrightarrow> coalesced (join_free n xs)"
  by (induction n xs rule: join_free.induct) (auto simp: coalesced_Cons split: seg.splits list.splits)

lemma release_segs_shape:
  assumes "release_segs off xs = Some xs'"
  shows "segs_size xs' = segs_size xs"
    and "segs_ok xs \<Longrightarrow> segs_ok xs'"
    and "coalesced xs \<Longrightarrow> coalesced xs'"
proof -
  show "segs_size xs' = segs_size xs"
    using assms by (induction off xs arbitrary: xs' rule: release_segs.induct) (auto split: if_splits)
  show "segs_ok xs \<Longrightarrow> segs_ok xs'"
    using assms
    by (induction off xs arbitrary: xs' rule: release_segs.induct) (auto simp: join_free_ok split: if_splits)
  show "coalesced xs \<Longrightarrow> coalesced xs'"
    using assms
  proof (induction off xs arbitrary: xs' rule: release_segs.induct)
    case (2 off n r)
    then show ?case
      by (auto simp: join_free_coalesced coalesced_Cons [of "Used n"] split: if_splits)
  next
    case (3 off n r)
    then show ?case
      by (auto simp: join_free_coalesced dest: coalesced_ConsD split: if_splits)
  qed simp
qed

text \<open>Releasing a used segment: it leaves the live list and nothing else does.\<close>

lemma release_segs_used:
  assumes "segs_ok (ys @ Used n # zs)"
  shows "\<exists>xs'. release_segs (segs_size ys) (ys @ Used n # zs) = Some xs' \<and>
     live a xs' = live a ys @ live (a + segs_size ys + n) zs \<and>
     free_total xs' = free_total ys + n + free_total zs"
  using assms
proof (induction ys arbitrary: a rule: free_total.induct)
  case (2 s r)
  from 2(2) have "segs_ok (r @ Used n # zs)" by simp
  from 2(1) [OF this, of "a + s"] show ?case by (auto simp: add.assoc)
next
  case (3 s r)
  from 3(2) have "segs_ok (r @ Used n # zs)" "0 < s" by simp_all
  with 3(1) [OF this(1), of "a + s"] show ?case by (auto simp: add.assoc)
qed simp

text \<open>Releasing what was just allocated gives the tiling back.\<close>

lemma alloc_release_roundtrip:
  assumes "coalesced xs" "segs_ok xs" "0 < t" "alloc_segs t xs = Some (xs', off)"
  shows "release_segs off xs' = Some xs"
  using assms
proof (induction t xs arbitrary: xs' off rule: alloc_segs.induct)
  case (2 t n r)
  then show ?case by (auto simp: coalesced_Cons)
next
  case (3 t n r)
  show ?case
  proof (cases "t \<le> n")
    case True
    with 3 show ?thesis
      by (cases r rule: free_total.cases) (auto simp: carve_def coalesced_Cons)
  next
    case False
    with 3 obtain r' o' where "alloc_segs t r = Some (r', o')" "release_segs o' r' = Some r"
      "xs' = Free n # r'" "off = n + o'"
      by (auto dest: coalesced_ConsD)
    with 3 show ?thesis
      by (cases r rule: free_total.cases) (auto simp: coalesced_Cons)
  qed
qed simp

text \<open>With nothing in use, a coalesced tiling is one free segment.\<close>

lemma all_free_single:
  assumes "coalesced xs" "live a xs = []" "xs \<noteq> []"
  shows "xs = [Free (segs_size xs)]"
proof (cases xs rule: free_total.cases)
  case (2 n r)
  with assms have "live (a + n) r = []" "coalesced (Free n # r)" by auto
  then have "r = []"
    by (cases r rule: free_total.cases) auto
  with 2 show ?thesis by simp
qed (use assms in auto)

text \<open>What a release does to the list, by the last segment before the released one.\<close>

lemma release_segs_append_used:
  assumes "segs_ok ys" "\<forall>zs f. ys \<noteq> zs @ [Free f]" "coalesced (ys @ Used n # xs)"
  shows "release_segs (segs_size ys) (ys @ Used n # xs) = Some (ys @ join_free n xs)"
  using assms
proof (induction ys rule: free_total.induct)
  case (2 s r)
  from 2(3) have l: "\<forall>zs f. r \<noteq> zs @ [Free f]" and ne: "r \<noteq> []"
    by (metis append_Cons, fastforce)
  with 2 have "release_segs (segs_size r) (r @ Used n # xs) = Some (r @ join_free n xs)"
    by (auto dest: coalesced_ConsD)
  moreover have "join_free s (r @ join_free n xs) = Free s # r @ join_free n xs"
    using 2(4) ne by (cases r rule: free_total.cases) auto
  ultimately show ?case by simp
next
  case (3 s r)
  from 3(3) have "\<forall>zs f. r \<noteq> zs @ [Free f]" by (metis append_Cons)
  with 3 show ?case by (auto dest: coalesced_ConsD)
qed simp

lemma release_segs_append_free:
  assumes "segs_ok ys" "coalesced (ys @ Free f # Used n # xs)"
  shows "release_segs (segs_size ys + f) (ys @ Free f # Used n # xs) = Some (ys @ join_free (f + n) xs)"
  using assms
proof (induction ys rule: free_total.induct)
  case 1
  then show ?case by (induction n xs rule: join_free.induct) auto
next
  case (2 s r)
  then have "r \<noteq> []" by auto
  with 2(3) have "join_free s (r @ join_free (f + n) xs) = Free s # r @ join_free (f + n) xs"
    by (cases r rule: free_total.cases) auto
  with 2 show ?case by (auto simp: add.assoc dest: coalesced_ConsD)
next
  case (3 s r)
  then show ?case by (auto simp: add.assoc dest: coalesced_ConsD)
qed

end
