(* ===== verification/Miniheap_Refine.thy ===== *)
theory Miniheap_Refine
  imports Miniheap Heap_Segments
begin

text \<open>
  The allocator of \<^verbatim>\<open>miniheap.c\<close> implements the segment list of \<^verbatim>\<open>Heap_Segments\<close>. \<open>heap_path\<close>
  reads the tiling off memory: every segment starts with a header that holds its magic number and
  its size, and the free ones are chained by their \<open>next\<close> fields in address order.
\<close>

section \<open>The tiling in memory\<close>

fun heap_path :: "mem \<Rightarrow> nat \<Rightarrow> addr \<Rightarrow> seg list \<Rightarrow> addr \<Rightarrow> bool" where
  "heap_path m a p [] q \<longleftrightarrow> p = q"
| "heap_path m a p (Used n # r) q \<longleftrightarrow>
     blk_magic m (of_nat a) = MINIHEAP_MAGIC_USED \<and> blk_size m (of_nat a) = of_nat n \<and>
     heap_path m (a + n) p r q"
| "heap_path m a p (Free n # r) q \<longleftrightarrow>
     p = of_nat a \<and>
     blk_magic m (of_nat a) = MINIHEAP_MAGIC_FREE \<and> blk_size m (of_nat a) = of_nat n \<and>
     heap_path m (a + n) (blk_next m (of_nat a)) r q"

definition heap_rep :: "miniheap \<Rightarrow> mem \<Rightarrow> seg list \<Rightarrow> bool" where
  "heap_rep h m xs \<longleftrightarrow>
     0 < unat (mh_base h) \<and> align h = MINIHEAP_ALIGNMENT \<and> segs_ok xs \<and> coalesced xs \<and>
     unat (mh_size h) = segs_size xs \<and> segs_size xs < 4294967296 \<and>
     unat (mh_base h) + segs_size xs < 18446744073709551616 \<and>
     unat (free_bytes h) = free_total xs \<and>
     heap_path m (unat (mh_base h)) (free_list h) xs NULL"

text \<open>The header bytes of a tiling, and the bytes of its used segments.\<close>

fun hdrs :: "nat \<Rightarrow> seg list \<Rightarrow> addr set" where
  "hdrs a [] = {}"
| "hdrs a (x # r) = span (of_nat a) 16 \<union> hdrs (a + seg_size x) r"

definition busy :: "nat \<Rightarrow> seg list \<Rightarrow> addr set" where
  "busy a xs = (\<Union>(b, n) \<in> set (live a xs). span (of_nat b) n)"

text \<open>The last free block before the end of a tiling, \<open>prev\<close> if there is none.\<close>

fun last_free :: "addr \<Rightarrow> nat \<Rightarrow> seg list \<Rightarrow> addr" where
  "last_free prev a [] = prev"
| "last_free prev a (Used n # r) = last_free prev (a + n) r"
| "last_free prev a (Free n # r) = last_free (of_nat a) (a + n) r"

lemma of_nat_neq_NULL: "0 < a \<Longrightarrow> a < 18446744073709551616 \<Longrightarrow> (of_nat a :: addr) \<noteq> NULL"
  by (metis less_irrefl unat_0 unat_of_nat64)

lemma unat_of_nat_size: "n < 4294967296 \<Longrightarrow> unat (of_nat n :: u32) = n"
  by (rule unat_of_nat32)

lemma path_append:
  "heap_path m a p (xs @ ys) q \<longleftrightarrow>
     (\<exists>r. heap_path m a p xs r \<and> heap_path m (a + segs_size xs) r ys q)"
  by (induction xs arbitrary: a p rule: free_total.induct) (auto simp: add.assoc)

lemma hdrs_append: "hdrs a (xs @ ys) = hdrs a xs \<union> hdrs (a + segs_size xs) ys"
  by (induction xs arbitrary: a) (auto simp: add.assoc)

lemma hdrs_region:
  assumes "segs_ok xs" "a + segs_size xs \<le> 18446744073709551616" "x \<in> hdrs a xs"
  shows "a \<le> unat x \<and> unat x < a + segs_size xs"
  using assms
proof (induction xs arbitrary: a)
  case (Cons y r)
  then have h: "16 \<le> seg_size y" "a + seg_size y + segs_size r \<le> 18446744073709551616" by simp_all
  show ?case
  proof (cases "x \<in> span (of_nat a) 16")
    case True
    with h show ?thesis by (simp add: span_simps)
  next
    case False
    with Cons.prems have "x \<in> hdrs (a + seg_size y) r" by simp
    with Cons.IH [of "a + seg_size y"] Cons.prems h show ?thesis by simp
  qed
qed simp

lemma busy_region:
  assumes "a + segs_size xs \<le> 18446744073709551616" "x \<in> busy a xs"
  shows "a \<le> unat x \<and> unat x < a + segs_size xs"
proof -
  from assms(2) obtain b n where "(b, n) \<in> set (live a xs)" "x \<in> span (of_nat b) n"
    by (auto simp: busy_def)
  moreover from this(1) have "a \<le> b \<and> b + n \<le> a + segs_size xs"
    by (rule live_bounds)
  ultimately show ?thesis using assms(1) by (auto simp: span_simps)
qed

lemma busy_simps [simp]:
  "busy a [] = {}"
  "busy a (Free n # r) = busy (a + n) r"
  "busy a (Used n # r) = span (of_nat a) n \<union> busy (a + n) r"
  "busy a (xs @ ys) = busy a xs \<union> busy (a + segs_size xs) ys"
  by (auto simp: busy_def)

lemma span_subset_nat:
  assumes "a \<le> c" "c + k \<le> a + l" "a + l \<le> 18446744073709551616"
  shows "span (of_nat c) k \<subseteq> span (of_nat a) l"
  using assms by (auto simp: span_simps)

lemma span_above_disjoint:
  assumes "\<And>x. x \<in> S \<Longrightarrow> unat x < c" "c + k \<le> 18446744073709551616"
  shows "S \<inter> span (of_nat c) k = {}"
  using assms by (fastforce simp: span_simps)

lemma span_below_disjoint:
  assumes "\<And>x. x \<in> S \<Longrightarrow> c + k \<le> unat x" "c + k \<le> 18446744073709551616"
  shows "S \<inter> span (of_nat c) k = {}"
  using assms by (fastforce simp: span_simps)

lemma blk_frame:
  assumes "agree S m m'" "span b 16 \<subseteq> S"
  shows "blk_magic m b = blk_magic m' b" "blk_size m b = blk_size m' b" "blk_next m b = blk_next m' b"
proof -
  have "span b 4 \<subseteq> S" "span (b + 4) 4 \<subseteq> S" "span (b + 8) 8 \<subseteq> S"
    using assms(2) by (auto simp: span_simps span_iff [of _ b])
  then show "blk_magic m b = blk_magic m' b" "blk_size m b = blk_size m' b"
    "blk_next m b = blk_next m' b"
    unfolding blk_defs using assms(1) c32.rd_frame c64.rd_frame by metis+
qed

lemma path_frame:
  assumes "agree (hdrs a xs) m m'" "heap_path m a p xs q"
  shows "heap_path m' a p xs q"
  using assms
proof (induction xs arbitrary: a p)
  case (Cons x r)
  then have "agree (span (of_nat a) 16) m m'" "agree (hdrs (a + seg_size x) r) m m'"
    by (simp_all add: agree_un)
  with Cons blk_frame [OF this(1) subset_refl] show ?case
    by (cases x) simp_all
qed simp

lemma path_no_free: "\<not> has_free xs \<Longrightarrow> heap_path m a p xs q \<Longrightarrow> p = q \<and> heap_path m a r xs r"
  by (induction xs arbitrary: a rule: has_free.induct) auto

lemma last_free_no_free: "\<not> has_free xs \<Longrightarrow> last_free prev a xs = prev"
  by (induction xs arbitrary: a rule: has_free.induct) auto

lemma last_free_has_free: "has_free xs \<Longrightarrow> last_free prev a xs = last_free prev' a xs"
  by (induction xs arbitrary: a prev prev' rule: has_free.induct) (auto split: seg.splits)

section \<open>Header fields\<close>

lemma hdr_fields_disjoint:
  "span b 4 \<inter> span (b + 4) 4 = {}" "span (b + 4) 4 \<inter> span b 4 = {}"
  "span b 4 \<inter> span (b + 8) 8 = {}" "span (b + 4) 4 \<inter> span (b + 8) 8 = {}"
  "span (b + 8) 8 \<inter> span b 4 = {}" "span (b + 8) 8 \<inter> span (b + 4) 4 = {}"
  by (auto simp: span_simps span_iff [of _ b])

lemma hdr_fields_in: "span b 4 \<subseteq> span b 16" "span (b + 4) 4 \<subseteq> span b 16" "span (b + 8) 8 \<subseteq> span b 16"
  by (auto simp: span_simps span_iff [of _ b])

lemma blk_same [simp]:
  "blk_magic (set_blk_magic m b v) b = v" "blk_size (set_blk_size m b v) b = v"
  "blk_next (set_blk_next m b w) b = w"
  "blk_magic (set_blk_size m b v) b = blk_magic m b" "blk_magic (set_blk_next m b w) b = blk_magic m b"
  "blk_size (set_blk_magic m b v) b = blk_size m b" "blk_size (set_blk_next m b w) b = blk_size m b"
  "blk_next (set_blk_magic m b v) b = blk_next m b" "blk_next (set_blk_size m b v) b = blk_next m b"
  unfolding blk_defs
  by (simp_all add: c32.rd_wr_same c64.rd_wr_same c32.rd_wr_other hdr_fields_disjoint
      c32.rd_frame [OF c64.wr_agree subset_refl] c64.rd_frame [OF c32.wr_agree subset_refl])

lemma set_blk_agree:
  assumes "S \<inter> span b 16 = {}"
  shows "agree S (set_blk_magic m b v) m" "agree S (set_blk_size m b v) m"
    "agree S (set_blk_next m b w) m"
proof -
  have "S \<inter> span b 4 = {}" "S \<inter> span (b + 4) 4 = {}" "S \<inter> span (b + 8) 8 = {}"
    using assms hdr_fields_in by blast+
  then show "agree S (set_blk_magic m b v) m" "agree S (set_blk_size m b v) m"
    "agree S (set_blk_next m b w) m"
    unfolding blk_defs by (simp_all add: c32.wr_agree c64.wr_agree)
qed

text \<open>The fields of a block are untouched by a header write to a block that does not overlap it.\<close>

lemma blk_other:
  assumes "span c 16 \<inter> span b 16 = {}"
  shows "blk_magic (set_blk_magic m b v) c = blk_magic m c" "blk_magic (set_blk_size m b v) c = blk_magic m c"
    "blk_magic (set_blk_next m b w) c = blk_magic m c"
    "blk_size (set_blk_magic m b v) c = blk_size m c" "blk_size (set_blk_size m b v) c = blk_size m c"
    "blk_size (set_blk_next m b w) c = blk_size m c"
    "blk_next (set_blk_magic m b v) c = blk_next m c" "blk_next (set_blk_size m b v) c = blk_next m c"
    "blk_next (set_blk_next m b w) c = blk_next m c"
  using blk_frame [OF set_blk_agree(1) [OF assms] subset_refl]
    blk_frame [OF set_blk_agree(2) [OF assms] subset_refl]
    blk_frame [OF set_blk_agree(3) [OF assms] subset_refl] by simp_all

section \<open>Relinking the free list\<close>

lemma last_free_split:
  assumes "has_free xs"
  obtains ys n zs where "xs = ys @ Free n # zs" "\<not> has_free zs"
    "last_free prev a xs = of_nat (a + segs_size ys)"
  using assms
proof (induction xs arbitrary: a prev thesis rule: free_total.induct)
  case (2 n r)
  show ?case
  proof (cases "has_free r")
    case True
    obtain ys k zs where "r = ys @ Free k # zs" "\<not> has_free zs"
      "last_free (of_nat a) (a + n) r = of_nat (a + n + segs_size ys)"
      using 2(1) [OF _ True] by blast
    then show ?thesis by (intro 2(2) [of "Free n # ys" k zs]) (auto simp: add.assoc)
  next
    case False
    then show ?thesis using 2(2) [of "[]" n r] by (simp add: last_free_no_free)
  qed
next
  case (3 n r)
  then obtain ys k zs where "r = ys @ Free k # zs" "\<not> has_free zs"
    "last_free prev (a + n) r = of_nat (a + n + segs_size ys)" by (metis has_free.simps(3))
  then show ?case by (intro 3(2) [of "Used n # ys" k zs]) (auto simp: add.assoc)
qed simp

text \<open>
  \<open>if (prev) prev->next = b; else heap->free_list = b\<close> at the last free block of a tiling makes
  its chain end in \<open>b\<close>, and changes no byte outside the region or of a used segment.
\<close>

lemma link_free_path:
  assumes p: "heap_path m a (free_list h) xs q" and ok: "segs_ok xs"
    and bd: "0 < a" "a + segs_size xs \<le> 18446744073709551616"
    and l: "link_free h m (last_free NULL a xs) b = (h', m')"
  shows "heap_path m' a (free_list h') xs b"
    and "agree (busy a xs) m' m"
    and "S \<inter> span (of_nat a) (segs_size xs) = {} \<Longrightarrow> agree S m' m"
    and "h' = h\<lparr>free_list := free_list h'\<rparr>"
proof -
  have "heap_path m' a (free_list h') xs b \<and> agree (busy a xs) m' m \<and>
    (\<forall>S. S \<inter> span (of_nat a) (segs_size xs) = {} \<longrightarrow> agree S m' m) \<and> h' = h\<lparr>free_list := free_list h'\<rparr>"
  proof (cases "has_free xs")
    case False
    with l p show ?thesis
      by (auto simp: link_free_def last_free_no_free path_no_free)
  next
    case True
    then obtain ys n zs where xs: "xs = ys @ Free n # zs" "\<not> has_free zs"
      and lf: "last_free NULL a xs = of_nat (a + segs_size ys)" by (rule last_free_split)
    define c where "c = a + segs_size ys"
    have n: "16 \<le> n" and cb: "c + n + segs_size zs \<le> 18446744073709551616" "0 < c"
      using ok bd xs by (auto simp: c_def)
    have "(of_nat c :: addr) \<noteq> NULL"
      using n cb by (intro of_nat_neq_NULL) auto
    then have m': "m' = set_blk_next m (of_nat c) b" "h' = h"
      using l lf by (auto simp: link_free_def c_def)
    have hd: "S \<inter> span (of_nat c) 16 = {} \<Longrightarrow> agree S m' m" for S
      unfolding m' by (rule set_blk_agree)
    have dy: "hdrs a ys \<inter> span (of_nat c) 16 = {}" "busy a ys \<inter> span (of_nat c) 16 = {}"
      using hdrs_region [of ys a] busy_region [of a ys] ok xs n cb
      by (intro span_above_disjoint; simp add: c_def)+
    have dz: "hdrs (c + n) zs \<inter> span (of_nat c) 16 = {}" "busy (c + n) zs \<inter> span (of_nat c) 16 = {}"
      using hdrs_region [of zs "c + n"] busy_region [of "c + n" zs] ok xs n cb
      by (intro span_below_disjoint; fastforce)+
    from p xs have py: "heap_path m a (free_list h) ys (of_nat c)"
      and hc: "blk_magic m (of_nat c) = MINIHEAP_MAGIC_FREE" "blk_size m (of_nat c) = of_nat n"
      and pz: "heap_path m (c + n) (blk_next m (of_nat c)) zs q"
      by (auto simp: path_append c_def)
    have "heap_path m' a (free_list h) ys (of_nat c)"
      using agree_sym [OF hd [OF dy(1)]] py by (rule path_frame)
    moreover have "heap_path m' (c + n) b zs b"
      using agree_sym [OF hd [OF dz(1)]] path_no_free [OF xs(2) pz] path_frame by blast
    ultimately have "heap_path m' a (free_list h') xs b"
      using hc by (auto simp: xs path_append c_def m')
    moreover have "agree (busy a xs) m' m"
      using hd [OF dy(2)] hd [OF dz(2)] by (simp add: xs agree_un c_def add.assoc)
    moreover have "agree S m' m" if "S \<inter> span (of_nat a) (segs_size xs) = {}" for S
    proof -
      have "span (of_nat c) 16 \<subseteq> span (of_nat a) (segs_size xs)"
        using n cb bd xs by (intro span_subset_nat) (simp_all add: c_def)
      with that show ?thesis by (intro hd) blast
    qed
    ultimately show ?thesis using m' by simp
  qed
  then show "heap_path m' a (free_list h') xs b" "agree (busy a xs) m' m"
    "S \<inter> span (of_nat a) (segs_size xs) = {} \<Longrightarrow> agree S m' m" "h' = h\<lparr>free_list := free_list h'\<rparr>"
    by blast+
qed

section \<open>Allocation refines first fit\<close>

lemma alloc_loop_skip:
  assumes "heap_path m a p ys q" "segs_ok ys" "0 < a" "a + segs_size ys \<le> 18446744073709551616"
    "segs_size ys < 4294967296" "\<forall>k. Free k \<in> set ys \<longrightarrow> k < unat t"
  shows "alloc_loop t h m prev p = alloc_loop t h m (last_free prev a ys) q"
  using assms
proof (induction ys arbitrary: a p prev rule: free_total.induct)
  case (2 n r)
  then have n: "16 \<le> n" "n < 4294967296" "a < 18446744073709551616" and p: "p = of_nat a"
    and fits: "n < unat t" and sz: "blk_size m (of_nat a) = of_nat n" by auto
  have "\<not> t \<le> blk_size m p"
    using fits n by (simp add: p sz word_le_nat_alt unat_of_nat32)
  moreover have "p \<noteq> NULL" unfolding p using 2 n by (intro of_nat_neq_NULL) auto
  ultimately have "alloc_loop t h m prev p = alloc_loop t h m p (blk_next m p)"
    by (subst alloc_loop.simps) simp
  also have "\<dots> = alloc_loop t h m (last_free p (a + n) r) q"
    using 2 by (intro "2.IH") (auto simp: p)
  finally show ?case by (simp add: p)
qed auto

text \<open>The used header \<open>miniheap_alloc\<close> writes into the block it took.\<close>

abbreviation mark_used :: "mem \<Rightarrow> addr \<Rightarrow> u32 \<Rightarrow> mem" where
  "mark_used m b t \<equiv> set_blk_size (set_blk_magic m b MINIHEAP_MAGIC_USED) b t"

lemma mark_used_agree: "S \<inter> span b 16 = {} \<Longrightarrow> agree S (mark_used m b t) m"
  using set_blk_agree [of S b] agree_trans by metis

lemma alloc_commit:
  assumes path: "heap_path mN a (free_list h) ys q" and ok: "segs_ok ys" "segs_ok rest"
    and c: "c = a + segs_size ys" and t: "16 \<le> t"
    and bd: "0 < a" "c + t + segs_size rest \<le> 18446744073709551616"
    and link: "link_free h mN (last_free NULL a ys) b = (h', m1)"
    and rest: "heap_path mN (c + t) b rest NULL"
  defines "m' \<equiv> mark_used m1 (of_nat c) (of_nat t)"
  shows "heap_path m' a (free_list h') (ys @ Used t # rest) NULL"
    and "agree (busy a ys \<union> busy (c + t) rest) m' mN"
    and "h' = h\<lparr>free_list := free_list h'\<rparr>"
    and "S \<inter> span (of_nat a) (segs_size ys + t) = {} \<Longrightarrow> agree S m' mN"
proof -
  have yb: "a + segs_size ys \<le> 18446744073709551616" using bd c by simp
  note lk = link_free_path [OF path ok(1) bd(1) yb link]
  have above: "x \<in> hdrs (c + t) rest \<or> x \<in> busy (c + t) rest \<Longrightarrow> c + t \<le> unat x" for x
    using hdrs_region [OF ok(2) bd(2)] busy_region [OF bd(2)] by blast
  have below: "x \<in> hdrs a ys \<or> x \<in> busy a ys \<Longrightarrow> unat x < c" for x
    using hdrs_region [OF ok(1) yb] busy_region [OF yb] c by blast
  have mky: "agree (hdrs a ys) m' m1" "agree (busy a ys) m' m1"
    unfolding m'_def using below t bd by (auto intro!: mark_used_agree span_above_disjoint)
  have mkr: "agree (hdrs (c + t) rest) m' m1" "agree (busy (c + t) rest) m' m1"
    unfolding m'_def using above t bd by (fastforce intro!: mark_used_agree span_below_disjoint)+
  have ln: "agree (hdrs (c + t) rest) m1 mN" "agree (busy (c + t) rest) m1 mN"
    using above c yb by (fastforce intro!: lk(3) span_below_disjoint)+
  have "heap_path m' a (free_list h') ys b"
    by (rule path_frame [OF agree_sym [OF mky(1)] lk(1)])
  moreover have "heap_path m' (c + t) b rest NULL"
    by (rule path_frame [OF agree_sym [OF agree_trans [OF mkr(1) ln(1)]] rest])
  ultimately show "heap_path m' a (free_list h') (ys @ Used t # rest) NULL"
    unfolding path_append by (auto simp: m'_def c)
  show "agree (busy a ys \<union> busy (c + t) rest) m' mN"
    using agree_trans [OF mky(2) lk(2)] agree_trans [OF mkr(2) ln(2)] by (simp add: agree_un)
  show "h' = h\<lparr>free_list := free_list h'\<rparr>" by (rule lk(4))
  assume S: "S \<inter> span (of_nat a) (segs_size ys + t) = {}"
  have "span (of_nat c) 16 \<subseteq> span (of_nat a) (segs_size ys + t)"
    "span (of_nat a) (segs_size ys) \<subseteq> span (of_nat a) (segs_size ys + t)"
    using t bd by (intro span_subset_nat; simp add: c)+
  with S have "agree S m' m1" "agree S m1 mN"
    unfolding m'_def by (blast intro: mark_used_agree lk(3))+
  then show "agree S m' mN" by (rule agree_trans)
qed

lemma take_block_path:
  assumes path: "heap_path m a (free_list h) (ys @ Free n # zs) NULL"
    and ok: "segs_ok (ys @ Free n # zs)" and small: "n < 4294967296"
    and c: "c = a + segs_size ys" and t: "16 dvd unat t" "16 \<le> unat t" "unat t \<le> n"
    and bd: "0 < a" "c + n + segs_size zs \<le> 18446744073709551616"
    and tk: "take_block t h m (last_free NULL a ys) (of_nat c) = (h', m1)"
  defines "m' \<equiv> mark_used m1 (of_nat c) t"
  shows "heap_path m' a (free_list h') (ys @ carve (unat t) n @ zs) NULL \<and>
     agree (busy a (ys @ Free n # zs)) m' m \<and> h' = h\<lparr>free_list := free_list h'\<rparr> \<and>
     (\<forall>S. S \<inter> span (of_nat a) (segs_size ys + n) = {} \<longrightarrow> agree S m' m)"
proof -
  let ?t = "unat t" and ?nx = "blk_next m (of_nat c)"
  from path have py: "heap_path m a (free_list h) ys (of_nat c)"
    and sz: "blk_size m (of_nat c) = of_nat n" and pz: "heap_path m (c + n) ?nx zs NULL"
    by (auto simp: path_append c)
  have tt: "t = of_nat ?t" by simp
  show ?thesis
  proof (cases "n = ?t")
    case True
    then have "link_free h m (last_free NULL a ys) ?nx = (h', m1)"
      using tk sz by (simp add: take_block_def)
    from alloc_commit [OF py _ _ c t(2) bd(1) _ this, of zs] ok bd True pz
    show ?thesis by (auto simp: carve_def m'_def add.assoc c)
  next
    case False
    let ?b = "c + ?t" and ?k = "n - ?t"
    have k: "16 \<le> ?k" "16 dvd ?k"
      using False t ok by (auto intro: dvd_imp_le dvd_diff_nat)
    define mN where "mN = set_blk_next (set_blk_size (set_blk_magic m (of_nat ?b)
      MINIHEAP_MAGIC_FREE) (of_nat ?b) (of_nat ?k)) (of_nat ?b) ?nx"
    have ag: "S \<inter> span (of_nat ?b) 16 = {} \<Longrightarrow> agree S mN m" for S
      unfolding mN_def by (meson agree_trans set_blk_agree)
    have cb: "span (of_nat c) 16 \<inter> span (of_nat ?b) 16 = {}"
      using t k bd by (intro span_above_disjoint) (auto simp: span_simps)
    have "(of_nat c :: addr) + ucast t = of_nat ?b"
      by simp
    moreover have "of_nat n - t = of_nat ?k"
      using t by (simp add: of_nat_diff)
    moreover have "of_nat n \<noteq> t"
      using False small t by (metis unat_of_nat32)
    ultimately have link: "link_free h mN (last_free NULL a ys) (of_nat ?b) = (h', m1)"
      using tk sz unfolding take_block_def Let_def mN_def by (simp add: blk_other [OF cb, simplified])
    have below: "x \<in> hdrs a ys \<or> x \<in> busy a ys \<Longrightarrow> unat x < ?b" for x
      using hdrs_region [of ys a x] busy_region [of a ys x] ok bd t c by force
    have above: "x \<in> hdrs (c + n) zs \<or> x \<in> busy (c + n) zs \<Longrightarrow> ?b + 16 \<le> unat x" for x
      using hdrs_region [of zs "c + n" x] busy_region [of "c + n" zs x] ok bd k t by force
    have fy: "agree (hdrs a ys) mN m" "agree (busy a ys) mN m"
      using below bd k t by (auto intro!: ag span_above_disjoint simp del: of_nat_add)
    have fz: "agree (hdrs (c + n) zs) mN m" "agree (busy (c + n) zs) mN m"
      using above bd k t by (auto intro!: ag span_below_disjoint simp del: of_nat_add)
    have pyN: "heap_path mN a (free_list h) ys (of_nat c)"
      by (rule path_frame [OF agree_sym [OF fy(1)] py])
    have "heap_path mN (c + n) ?nx zs NULL"
      by (rule path_frame [OF agree_sym [OF fz(1)] pz])
    then have restN: "heap_path mN ?b (of_nat ?b) (Free ?k # zs) NULL"
      using t by (simp add: mN_def)
    have cm: "heap_path m' a (free_list h') (ys @ Used ?t # Free ?k # zs) NULL"
      "agree (busy a ys \<union> busy ?b (Free ?k # zs)) m' mN" "h' = h\<lparr>free_list := free_list h'\<rparr>"
      "\<And>S. S \<inter> span (of_nat a) (segs_size ys + ?t) = {} \<Longrightarrow> agree S m' mN"
      using alloc_commit [OF pyN _ _ c t(2) bd(1) _ link restN] ok k bd t
      unfolding m'_def by auto
    have "agree (busy a (ys @ Free n # zs)) m' m"
      using cm(2) fy(2) fz(2) t agree_trans by (simp add: agree_un c add.assoc) blast
    moreover have "agree S m' m" if "S \<inter> span (of_nat a) (segs_size ys + n) = {}" for S
    proof -
      have "span (of_nat ?b) 16 \<subseteq> span (of_nat a) (segs_size ys + n)"
        "span (of_nat a) (segs_size ys + ?t) \<subseteq> span (of_nat a) (segs_size ys + n)"
        using t k bd by (intro span_subset_nat; simp add: c)+
      with that have "agree S mN m" "agree S m' mN" by (blast intro: ag cm(4))+
      then show ?thesis using agree_trans by blast
    qed
    ultimately show ?thesis
      using cm(1,3) False by (simp add: carve_def)
  qed
qed

text \<open>The block size of a request: the rounded-up payload and a header.\<close>

definition block_size :: "nat \<Rightarrow> nat" where
  "block_size n = 16 * ((n + 15) div 16) + 16"

lemma block_size_props: "16 dvd block_size n" "16 \<le> block_size n" "n + 16 \<le> block_size n" "block_size n < n + 32"
  by (auto simp: block_size_def)

lemma and_not_15: "unat (w AND 0xFFFFFFF0 :: u32) = 16 * (unat w div 16)"
proof -
  have "w AND 0xFFFFFFF0 = push_bit 4 (drop_bit 4 w)"
  proof (rule bit_word_eqI)
    fix n assume n: "n < LENGTH(32)"
    have e: "(0xFFFFFFF0 :: u32) = NOT (mask 4)" by (simp add: mask_numeral)
    show "bit (w AND 0xFFFFFFF0) n = bit (push_bit 4 (drop_bit 4 w)) n"
      using n unfolding e by (auto simp: bit_simps)
  qed
  moreover have "unat w div 16 * 16 < 4294967296"
    using unat_less_2p32 [of w] by linarith
  ultimately show ?thesis
    by (simp add: push_bit_eq_mult drop_bit_eq_div unat_word_ariths unat_div)
qed

lemma ucast_and_ucast: "ucast ((y :: u64) AND ucast z) = (ucast y AND z :: u32)"
  by (rule bit_word_eqI) (auto simp: bit_simps)

lemma round_up_size_16:
  assumes "unat sz \<le> 4294967264"
  shows "unat (round_up_size MINIHEAP_ALIGNMENT sz) = 16 * ((unat sz + 15) div 16)"
proof -
  let ?y = "sz + 15"
  have y: "unat ?y = unat sz + 15" using assms by (subst unat_add64) auto
  have "sz + ucast MINIHEAP_ALIGNMENT - 1 = ?y"
    and "NOT (MINIHEAP_ALIGNMENT - 1) = (0xFFFFFFF0 :: u32)"
    by (simp_all add: MINIHEAP_ALIGNMENT_def)
  then have "round_up_size MINIHEAP_ALIGNMENT sz = ucast ?y AND 0xFFFFFFF0"
    by (simp only: round_up_size_def ucast_and_ucast)
  moreover have "unat (ucast ?y :: u32) = unat sz + 15"
    using assms y by (simp add: unsigned_ucast_eq take_bit_nat_eq_self_iff)
  ultimately show ?thesis by (simp add: and_not_15)
qed


lemma free_seg_le: "Free n \<in> set xs \<Longrightarrow> n \<le> free_total xs"
  by (induction xs rule: free_total.induct) auto

lemma alloc_loop_None_free:
  assumes "heap_rep h m xs" "\<forall>k. Free k \<in> set xs \<longrightarrow> k < unat t"
  shows "alloc_loop t h m NULL (free_list h) = Some (h, m, NULL)"
proof -
  have "alloc_loop t h m NULL (free_list h) =
      alloc_loop t h m (last_free NULL (unat (mh_base h)) xs) NULL"
    using assms unfolding heap_rep_def by (intro alloc_loop_skip) auto
  then show ?thesis by (simp add: alloc_loop.simps)
qed

lemma alloc_loop_first_fit:
  assumes "heap_rep h m (ys @ Free n # zs)" "\<forall>k. Free k \<in> set ys \<longrightarrow> k < unat t" "unat t \<le> n"
  defines "a \<equiv> unat (mh_base h)"
  defines "c \<equiv> a + segs_size ys"
  shows "(of_nat c :: addr) \<noteq> NULL"
    and "alloc_loop t h m NULL (free_list h) =
      Some (let (h', m') = take_block t h m (last_free NULL a ys) (of_nat c) in (h', m', of_nat c))"
proof -
  from assms have r: "segs_ok (ys @ Free n # zs)" "0 < a" "n < 4294967296"
    "a + segs_size (ys @ Free n # zs) < 18446744073709551616" "segs_size ys < 4294967296"
    "heap_path m a (free_list h) (ys @ Free n # zs) NULL"
    unfolding heap_rep_def by auto
  from r(6) have py: "heap_path m a (free_list h) ys (of_nat c)"
    and sz: "blk_size m (of_nat c) = of_nat n" by (auto simp: path_append c_def)
  show cn: "(of_nat c :: addr) \<noteq> NULL"
    using r by (intro of_nat_neq_NULL) (simp_all add: c_def)
  have "alloc_loop t h m NULL (free_list h) = alloc_loop t h m (last_free NULL a ys) (of_nat c)"
    using r assms(2) by (intro alloc_loop_skip [OF py]) auto
  also have "\<dots> = Some (let (h', m') = take_block t h m (last_free NULL a ys) (of_nat c) in (h', m', of_nat c))"
    using cn sz r(3) assms(3) by (subst alloc_loop.simps) (simp add: word_le_nat_alt unat_of_nat32)
  finally show "alloc_loop t h m NULL (free_list h) = \<dots>" .
qed

text \<open>
  The refinement lemma for \<open>miniheap_alloc\<close>: the call returns; it fails, changing nothing, exactly
  when no free segment is large enough, and otherwise carves the first one that is, writing no byte
  of a segment in use.
\<close>

lemma miniheap_alloc_refine:
  assumes rep: "heap_rep h m xs" and sz: "0 < unat sz" "unat sz \<le> 4294967264"
  defines "t \<equiv> block_size (unat sz)"
  shows "case alloc_segs t xs of
      None \<Rightarrow> miniheap_alloc h m sz = Some (h, m, NULL)
    | Some (xs', off) \<Rightarrow>
        \<exists>h' m'. miniheap_alloc h m sz = Some (h', m', mh_base h + of_nat off + 16) \<and>
          heap_rep h' m' xs' \<and> mh_base h' = mh_base h \<and> agree (busy (unat (mh_base h)) xs) m' m \<and>
          agree (- span (mh_base h) (segs_size xs)) m' m"
proof -
  define tw :: u32 where "tw = round_up_size (align h) sz + MINIHEAP_USEDHEADER_SIZE"
  have al: "align h = MINIHEAP_ALIGNMENT" using rep by (simp add: heap_rep_def)
  have r16: "unat (round_up_size (align h) sz) = 16 * ((unat sz + 15) div 16)"
    unfolding al using sz by (intro round_up_size_16) simp
  have nz: "round_up_size (align h) sz \<noteq> 0"
  proof
    assume "round_up_size (align h) sz = 0"
    with r16 sz(1) show False by simp
  qed
  have tw: "unat tw = t"
    unfolding tw_def t_def block_size_def using r16 sz(2) by (subst unat_add_lem [THEN iffD1]) auto
  have t: "16 dvd t" "16 \<le> t" using block_size_props by (simp_all add: t_def)
  have fb: "unat (free_bytes h) = free_total xs" using rep by (simp add: heap_rep_def)
  have gt: "ucast tw > free_bytes h \<longleftrightarrow> free_total xs < t"
    by (simp add: word_less_nat_alt fb tw)
  show ?thesis
  proof (cases "alloc_segs t xs")
    case None
    then have "\<forall>k. Free k \<in> set xs \<longrightarrow> k < unat tw" by (simp add: alloc_segs_None tw)
    from alloc_loop_None_free [OF rep this] None nz show ?thesis
      unfolding miniheap_alloc_def Let_def tw_def [symmetric] by (simp add: gt)
  next
    case (Some r)
    obtain xs' off where r: "r = (xs', off)" by force
    with Some obtain ys n zs where xs: "xs = ys @ Free n # zs" "t \<le> n" "\<forall>k. Free k \<in> set ys \<longrightarrow> k < t"
      "xs' = ys @ carve t n @ zs" "off = segs_size ys" by (metis alloc_segs_Some)
    define a c where "a = unat (mh_base h)" and "c = a + segs_size ys"
    obtain h1 m1 where tk: "take_block tw h m (last_free NULL a ys) (of_nat c) = (h1, m1)" by force
    have lp: "alloc_loop tw h m NULL (free_list h) = Some (h1, m1, of_nat c)" "(of_nat c :: addr) \<noteq> NULL"
      using alloc_loop_first_fit [of h m ys n zs tw] rep xs tk by (auto simp: tw a_def c_def)
    have hr: "segs_ok xs" "0 < a" "coalesced xs" "n < 4294967296" "c + n + segs_size zs < 18446744073709551616"
      "heap_path m a (free_list h) xs NULL"
      using rep xs(1) unfolding heap_rep_def a_def c_def by auto
    define m' where "m' = mark_used m1 (of_nat c) tw"
    define h' where "h' = h1\<lparr>free_bytes := free_bytes h1 - ucast tw\<rparr>"
    have tb: "heap_path m' a (free_list h1) xs' NULL" "agree (busy a xs) m' m"
      "h1 = h\<lparr>free_list := free_list h1\<rparr>"
      and fr: "\<And>S. S \<inter> span (of_nat a) (segs_size ys + n) = {} \<Longrightarrow> agree S m' m"
      using take_block_path [of m a h ys n zs c tw h1 m1] hr xs tk t tw
      unfolding m'_def c_def by auto
    have "span (of_nat a) (segs_size ys + n) \<subseteq> span (mh_base h) (segs_size xs)"
      using xs(1) by (auto simp: a_def intro!: span_mono)
    then have "agree (- span (mh_base h) (segs_size xs)) m' m" by (intro fr) blast
    have "t \<le> free_total xs" using xs(2) free_seg_le [of n xs] xs(1) by simp
    then have fb': "unat (free_bytes h') = free_total xs - t"
      using tb(3) fb tw by (metis h'_def miniheap.select_convs(3) miniheap.surjective miniheap.update_convs(3)
        miniheap.update_convs(5) unat_sub unat_ucast_32_64 word_le_nat_alt)
    have alloc: "miniheap_alloc h m sz = Some (h', m', of_nat c + 16)"
      using nz lp gt \<open>t \<le> free_total xs\<close>
      unfolding miniheap_alloc_def Let_def tw_def [symmetric] h'_def m'_def by simp
    have same: "mh_base h' = mh_base h" "mh_size h' = mh_size h" "align h' = align h"
      "free_list h' = free_list h1"
      using tb(3) unfolding h'_def by (metis miniheap.select_convs miniheap.surjective miniheap.update_convs)+
    have "heap_rep h' m' xs'"
      using rep tb(1) fb' same xs t carve_props [OF xs(2)] carve_ok [OF t _ xs(2)] carve_coalesced [of ys n zs t]
      unfolding heap_rep_def a_def by (auto simp: add.assoc)
    moreover have "mh_base h + of_nat off + 16 = of_nat c + 16"
      by (simp add: c_def a_def xs(5))
    ultimately show ?thesis
      using Some r alloc same(1) tb(2) a_def \<open>agree (- span _ _) m' m\<close> by auto
  qed
qed

end
