(* ===== verification/Miniheap_Release.thy ===== *)
theory Miniheap_Release
  imports Miniheap_Refine
begin

text \<open>
  \<open>miniheap_free\<close> implements the release of a used segment: the search loop stops at the free
  neighbours of the block, the first half of \<open>release_block\<close> turns the block into a free one (on
  its own or as an extension of the free block before it), the second half absorbs the free block
  after it.
\<close>

section \<open>The search loop\<close>

lemma free_loop_skip:
  assumes "heap_path m a p ys q" "segs_ok ys" "0 < a" "a + segs_size ys \<le> unat block"
    "block \<le> rear"
  shows "free_loop m block rear prev p = free_loop m block rear (last_free prev a ys) q"
  using assms
proof (induction ys arbitrary: a p prev rule: free_total.induct)
  case (2 n r)
  have a: "a < unat block" "a < 18446744073709551616"
    using 2(3-5) unat_less_2p64 [of block] by (simp_all, linarith)
  have p: "p = of_nat a" using 2 by simp
  have "p \<noteq> NULL" "p < block"
    using a 2(4) by (auto simp: p of_nat_neq_NULL word_less_nat_alt unat_of_nat64)
  moreover from this(2) have "\<not> rear \<le> p" using 2(6) by simp
  ultimately have "free_loop m block rear prev p = free_loop m block rear p (blk_next m p)"
    by (subst free_loop.simps) simp
  also have "\<dots> = free_loop m block rear (last_free p (a + n) r) q"
    using 2 by (intro "2.IH") (auto simp: p)
  finally show ?case by (simp add: p)
qed auto

lemma path_head:
  assumes "heap_path m a p xs NULL" "a + segs_size xs < 18446744073709551616" "0 < a" "segs_ok xs"
  shows "p = NULL \<or> a \<le> unat p"
  using assms
proof (induction xs arbitrary: a rule: free_total.induct)
  case (2 n r)
  then show ?case by (simp add: unat_of_nat64)
next
  case (3 n r)
  then have "p = NULL \<or> a + n \<le> unat p" by (intro "3.IH") auto
  then show ?case by auto
qed simp

lemma free_loop_stops:
  assumes "q = NULL \<or> block \<le> q"
  shows "free_loop m block rear prev q = Some (prev, q)"
  using assms by (subst free_loop.simps) auto

section \<open>Turning the block into a free one\<close>

lemma release_alone:
  assumes path: "heap_path m a (free_list h) ys q" and rest: "heap_path m (c + n) q zs NULL"
    and ok: "segs_ok ys" "segs_ok zs" "16 \<le> n" and c: "c = a + segs_size ys"
    and bd: "0 < a" "c + n + segs_size zs < 18446744073709551616"
    and m1: "m1 = set_blk_next (set_blk_size (set_blk_magic m (of_nat c) MINIHEAP_MAGIC_FREE)
               (of_nat c) (of_nat n)) (of_nat c) q"
    and link: "link_free h m1 (last_free NULL a ys) (of_nat c) = (h', m')"
  shows "heap_path m' a (free_list h') (ys @ Free n # zs) NULL"
    and "agree (busy a ys \<union> busy (c + n) zs) m' m"
    and "h' = h\<lparr>free_list := free_list h'\<rparr>"
    and "blk_next m' (of_nat c) = q"
proof -
  have yb: "a + segs_size ys \<le> 18446744073709551616" and zb: "c + n + segs_size zs \<le> 18446744073709551616"
    using bd c by simp_all
  have ag: "S \<inter> span (of_nat c) 16 = {} \<Longrightarrow> agree S m1 m" for S
    unfolding m1 by (meson agree_trans set_blk_agree)
  have above: "x \<in> hdrs (c + n) zs \<or> x \<in> busy (c + n) zs \<Longrightarrow> c + n \<le> unat x" for x
    using hdrs_region [OF ok(2) zb] busy_region [OF zb] by blast
  have below: "x \<in> hdrs a ys \<or> x \<in> busy a ys \<Longrightarrow> unat x < c" for x
    using hdrs_region [OF ok(1) yb] busy_region [OF yb] c by blast
  have fy: "agree (hdrs a ys) m1 m" "agree (busy a ys) m1 m"
    using below ok(3) bd by (auto intro!: ag span_above_disjoint)
  have fz: "agree (hdrs (c + n) zs) m1 m" "agree (busy (c + n) zs) m1 m"
    using above ok(3) bd by (fastforce intro!: ag span_below_disjoint)+
  note lk = link_free_path [OF path_frame [OF agree_sym [OF fy(1)] path] ok(1) bd(1) yb link]
  have lz: "agree (hdrs (c + n) zs) m' m1" "agree (busy (c + n) zs) m' m1"
    using above c yb by (fastforce intro!: lk(3) span_below_disjoint)+
  have "span (of_nat c) 16 \<inter> span (of_nat a) (segs_size ys) = {}"
    using bd ok(3) c by (intro span_below_disjoint) (auto simp: span_simps simp del: of_nat_add)
  then have "agree (span (of_nat c) 16) m' m1" by (rule lk(3))
  from blk_frame [OF this subset_refl]
  have hd: "blk_magic m' (of_nat c) = MINIHEAP_MAGIC_FREE" "blk_size m' (of_nat c) = of_nat n"
    "blk_next m' (of_nat c) = q" by (simp_all add: m1)
  then show "blk_next m' (of_nat c) = q" by simp
  have "heap_path m' (c + n) q zs NULL"
    by (rule path_frame [OF agree_sym [OF agree_trans [OF lz(1) fz(1)]] rest])
  with hd show "heap_path m' a (free_list h') (ys @ Free n # zs) NULL"
    using lk(1) by (auto simp: path_append c)
  show "agree (busy a ys \<union> busy (c + n) zs) m' m"
    using agree_trans [OF lk(2) fy(2)] agree_trans [OF lz(2) fz(2)] by (simp add: agree_un)
  show "h' = h\<lparr>free_list := free_list h'\<rparr>" by (rule lk(4))
qed

lemma release_into_prev:
  assumes path: "heap_path m a p (ys @ [Free f]) q" and rest: "heap_path m (c + n) q zs NULL"
    and ok: "segs_ok (ys @ [Free f])" "segs_ok zs" "16 \<le> n" and c: "c = a + segs_size ys + f"
    and bd: "0 < a" "c + n + segs_size zs < 18446744073709551616"
    and m': "m' = set_blk_size (set_blk_magic m (of_nat c) MINIHEAP_MAGIC_FREE)
               (of_nat (a + segs_size ys)) (of_nat (f + n))"
  shows "heap_path m' a p (ys @ Free (f + n) # zs) NULL"
    and "agree (busy a (ys @ [Free f]) \<union> busy (c + n) zs) m' m"
proof -
  define d where "d = a + segs_size ys"
  have f: "16 \<le> f" using ok by simp
  have yb: "a + segs_size ys \<le> 18446744073709551616" and zb: "c + n + segs_size zs \<le> 18446744073709551616"
    using bd c by simp_all
  have ag: "S \<inter> span (of_nat d) 16 = {} \<Longrightarrow> S \<inter> span (of_nat c) 16 = {} \<Longrightarrow> agree S m' m" for S
    unfolding m' d_def by (meson agree_trans set_blk_agree)
  have above: "x \<in> hdrs (c + n) zs \<or> x \<in> busy (c + n) zs \<Longrightarrow> c + n \<le> unat x" for x
    using hdrs_region [OF ok(2) zb] busy_region [OF zb] by blast
  have below: "x \<in> hdrs a ys \<or> x \<in> busy a ys \<Longrightarrow> unat x < d" for x
    using hdrs_region [of ys a] busy_region [OF yb] ok(1) yb d_def by simp blast
  have cd: "d + f = c" by (simp add: c d_def)
  have fy: "agree (hdrs a ys) m' m" "agree (busy a ys) m' m"
    using below ok(3) bd f cd by (fastforce intro!: ag span_above_disjoint)+
  have fz: "agree (hdrs (c + n) zs) m' m" "agree (busy (c + n) zs) m' m"
    using above ok(3) bd f cd by (fastforce intro!: ag span_below_disjoint)+
  have dis: "span (of_nat d) 16 \<inter> span (of_nat c) 16 = {}"
    using bd ok(3) f cd by (intro span_above_disjoint) (auto simp: span_simps simp del: of_nat_add)
  from path have py: "heap_path m a p ys (of_nat d)" and hd: "blk_magic m (of_nat d) = MINIHEAP_MAGIC_FREE"
    "blk_next m (of_nat d) = q" by (auto simp: path_append d_def)
  have "blk_magic m' (of_nat d) = MINIHEAP_MAGIC_FREE" "blk_size m' (of_nat d) = of_nat (f + n)"
    "blk_next m' (of_nat d) = q"
    using hd unfolding m' d_def [symmetric] by (simp_all add: blk_other [OF dis])
  moreover have "heap_path m' (c + n) q zs NULL"
    by (rule path_frame [OF agree_sym [OF fz(1)] rest])
  moreover have "heap_path m' a p ys (of_nat d)"
    by (rule path_frame [OF agree_sym [OF fy(1)] py])
  ultimately show "heap_path m' a p (ys @ Free (f + n) # zs) NULL"
    unfolding path_append by (auto simp: d_def c add.assoc)
  show "agree (busy a (ys @ [Free f]) \<union> busy (c + n) zs) m' m"
    using fy(2) fz(2) by (simp add: agree_un)
qed

section \<open>Absorbing the next free block\<close>

lemma absorb_next:
  assumes path: "heap_path m a p (ys @ Free n # Free k # zs) NULL"
    and ok: "segs_ok (ys @ Free n # Free k # zs)" and c: "c = a + segs_size ys"
    and bd: "0 < a" "c + n + k + segs_size zs < 18446744073709551616"
    and m': "m' = set_blk_next (set_blk_size m (of_nat c) (of_nat (n + k)))
               (of_nat c) (blk_next m (of_nat (c + n)))"
  shows "heap_path m' a p (ys @ Free (n + k) # zs) NULL"
    and "agree (busy a (ys @ Free n # Free k # zs)) m' m"
proof -
  have n: "16 \<le> n" "16 \<le> k" using ok by simp_all
  have yb: "a + segs_size ys \<le> 18446744073709551616"
    and zb: "c + n + k + segs_size zs \<le> 18446744073709551616" using bd c by simp_all
  have ag: "S \<inter> span (of_nat c) 16 = {} \<Longrightarrow> agree S m' m" for S
    unfolding m' by (meson agree_trans set_blk_agree)
  have above: "x \<in> hdrs (c + n + k) zs \<or> x \<in> busy (c + n + k) zs \<Longrightarrow> c + n + k \<le> unat x" for x
    using hdrs_region [of zs "c + n + k"] busy_region [OF zb] ok zb by simp blast
  have below: "x \<in> hdrs a ys \<or> x \<in> busy a ys \<Longrightarrow> unat x < c" for x
    using hdrs_region [of ys a] busy_region [OF yb] ok yb c by simp blast
  have fy: "agree (hdrs a ys) m' m" "agree (busy a ys) m' m"
    using below n bd by (auto intro!: ag span_above_disjoint)
  have fz: "agree (hdrs (c + n + k) zs) m' m" "agree (busy (c + n + k) zs) m' m"
    using above n bd by (fastforce intro!: ag span_below_disjoint)+
  from path have py: "heap_path m a p ys (of_nat c)" and hc: "blk_magic m (of_nat c) = MINIHEAP_MAGIC_FREE"
    and pz: "heap_path m (c + n + k) (blk_next m (of_nat (c + n))) zs NULL"
    by (auto simp: path_append c)
  have "heap_path m' a p ys (of_nat c)"
    by (rule path_frame [OF agree_sym [OF fy(1)] py])
  moreover have "heap_path m' (c + n + k) (blk_next m (of_nat (c + n))) zs NULL"
    by (rule path_frame [OF agree_sym [OF fz(1)] pz])
  ultimately show "heap_path m' a p (ys @ Free (n + k) # zs) NULL"
    unfolding path_append using hc by (auto simp: m' c add.assoc)
  show "agree (busy a (ys @ Free n # Free k # zs)) m' m"
    using fy(2) fz(2) by (simp add: agree_un c add.assoc)
qed

text \<open>The last \<open>if\<close> of \<open>miniheap_free\<close>, whether or not a free block follows.\<close>

lemma absorb_step:
  assumes path: "heap_path m a p (ys @ Free n # zs) NULL"
    and ok: "segs_ok (ys @ Free n # zs)" and c: "c = a + segs_size ys"
    and bd: "0 < a" "c + n + segs_size zs < 18446744073709551616" "n + segs_size zs < 4294967296"
    and q: "q = blk_next m (of_nat c)"
    and m': "m' = (if q \<noteq> NULL \<and> of_nat (c + n) = q
        then let m = set_blk_size m (of_nat c) (blk_size m (of_nat c) + blk_size m q)
             in set_blk_next m (of_nat c) (blk_next m q) else m)"
  shows "heap_path m' a p (ys @ join_free n zs) NULL \<and> agree (busy a (ys @ Free n # zs)) m' m"
proof (cases "\<exists>k r. zs = Free k # r")
  case True
  then obtain k r where zs: "zs = Free k # r" by blast
  have nk: "16 \<le> n" "16 \<le> k" using ok zs by simp_all
  from path zs have qc: "q = of_nat (c + n)" and sz: "blk_size m q = of_nat k" "blk_size m (of_nat c) = of_nat n"
    by (auto simp: path_append c q)
  have "q \<noteq> NULL" unfolding qc using bd nk c by (intro of_nat_neq_NULL) simp_all
  have "span (of_nat (c + n)) 16 \<inter> span (of_nat c) 16 = {}"
    using bd nk zs by (intro span_below_disjoint) (auto simp: span_simps simp del: of_nat_add)
  then have "m' = set_blk_next (set_blk_size m (of_nat c) (of_nat (n + k))) (of_nat c) (blk_next m q)"
    using \<open>q \<noteq> NULL\<close> unfolding m' qc Let_def by (simp add: blk_other sz(1) [unfolded qc, simplified] sz(2))
  with absorb_next [OF path [unfolded zs] ok [unfolded zs] c bd(1)] bd zs qc show ?thesis
    by (simp add: add.assoc)
next
  case False
  have "\<not> (q \<noteq> NULL \<and> of_nat (c + n) = q)"
  proof (cases zs)
    case Nil
    with path show ?thesis by (auto simp: path_append c q)
  next
    case (Cons x r)
    with False obtain k where zs: "zs = Used k # r" by (cases x) auto
    have "heap_path m (c + n + k) q r NULL" "16 \<le> k" "segs_ok r"
      using path ok zs by (auto simp: path_append c q)
    with path_head [OF this(1)] bd zs c have "q = NULL \<or> c + n + k \<le> unat q" by simp
    moreover have "unat (of_nat (c + n) :: addr) = c + n"
      using bd by (intro unat_of_nat64) simp
    ultimately show ?thesis using \<open>16 \<le> k\<close> by (metis add_le_same_cancel1 not_numeral_le_zero order_trans)
  qed
  then have "m' = m" using m' by auto
  moreover have "join_free n zs = Free n # zs"
    using False by (cases zs rule: free_total.cases) auto
  ultimately show ?thesis using path by simp
qed

section \<open>The whole operation\<close>

lemma ucast_of_nat_32_64: "k < 4294967296 \<Longrightarrow> (ucast (of_nat k :: u32) :: addr) = of_nat k"
  by (metis of_nat_unat unat_of_nat32)

text \<open>The test \<open>prev && prev + prev->size == block\<close> holds exactly when a free segment touches the block.\<close>

lemma prev_adjacent:
  assumes path: "heap_path m a p (ys @ [Free f]) q" and ok: "segs_ok (ys @ [Free f])"
    and bd: "0 < a" "a + segs_size ys + f < 18446744073709551616" "f < 4294967296"
  defines "prev \<equiv> last_free NULL a (ys @ [Free f])"
  shows "prev = of_nat (a + segs_size ys)" "prev \<noteq> NULL" "blk_size m prev = of_nat f"
    "prev + ucast (blk_size m prev) = of_nat (a + segs_size ys + f)"
proof -
  have lf: "last_free x b (ys @ [Free f]) = of_nat (b + segs_size ys)" for x b
    by (induction ys arbitrary: x b rule: free_total.induct) (auto simp: add.assoc)
  then show p: "prev = of_nat (a + segs_size ys)" by (simp add: prev_def)
  show "prev \<noteq> NULL" unfolding p using ok bd by (intro of_nat_neq_NULL) auto
  show sz: "blk_size m prev = of_nat f" using path by (auto simp: path_append p)
  show "prev + ucast (blk_size m prev) = of_nat (a + segs_size ys + f)"
    unfolding sz using bd(3) by (simp add: p ucast_of_nat_32_64)
qed

lemma prev_not_adjacent:
  assumes path: "heap_path m a p ys q" and ok: "segs_ok ys" and last: "\<forall>zs f. ys \<noteq> zs @ [Free f]"
    and bd: "0 < a" "a + segs_size ys + 16 \<le> 18446744073709551616" "segs_size ys < 4294967296"
  defines "prev \<equiv> last_free NULL a ys"
  shows "prev = NULL \<or> prev + ucast (blk_size m prev) \<noteq> of_nat (a + segs_size ys) \<and>
     span prev 16 \<inter> span (of_nat (a + segs_size ys)) 16 = {}"
proof (cases "has_free ys")
  case False
  then show ?thesis by (simp add: prev_def last_free_no_free)
next
  case True
  then obtain us f zs where ys: "ys = us @ Free f # zs" "\<not> has_free zs" "prev = of_nat (a + segs_size us)"
    unfolding prev_def by (rule last_free_split)
  with last have "zs \<noteq> []" by auto
  with ok ys(1) have z: "16 \<le> segs_size zs" "16 \<le> f" by (cases zs; simp)+
  have "blk_size m prev = of_nat f" using path ys by (auto simp: path_append)
  then have e: "prev + ucast (blk_size m prev) = of_nat (a + segs_size us + f)"
    using bd(3) ys by (simp add: ucast_of_nat_32_64)
  have "unat (of_nat (a + segs_size us + f) :: addr) = a + segs_size us + f"
    "unat (of_nat (a + segs_size ys) :: addr) = a + segs_size ys"
    using bd ys by (intro unat_of_nat64; simp)+
  moreover have "a + segs_size us + f < a + segs_size ys" using z ys by simp
  ultimately have "prev + ucast (blk_size m prev) \<noteq> of_nat (a + segs_size ys)"
    unfolding e by (metis less_irrefl)
  moreover have "span prev 16 \<inter> span (of_nat (a + segs_size ys)) 16 = {}"
    unfolding ys(3) using z bd ys(1)
    by (intro span_above_disjoint) (auto simp: span_simps simp del: of_nat_add)
  ultimately show ?thesis by blast
qed

lemma release_block_joins_prev:
  assumes path: "heap_path m a (free_list h) (ys @ Used n # zs) NULL"
    and ok: "segs_ok (ys @ Used n # zs)" and co: "coalesced (ys @ Used n # zs)" and c: "c = a + segs_size ys"
    and bd: "0 < a" "c + n + segs_size zs < 18446744073709551616"
      "segs_size ys + n + segs_size zs < 4294967296"
    and q: "heap_path m a (free_list h) ys q" "heap_path m (c + n) q zs NULL"
    and rl: "release_block h m (of_nat c) (of_nat (c + n)) (last_free NULL a ys) q = (h', m')"
    and ys: "ys = us @ [Free f]"
  shows "\<exists>xs'. release_segs (segs_size ys) (ys @ Used n # zs) = Some xs' \<and>
     heap_path m' a (free_list h') xs' NULL \<and> agree (busy a ys \<union> busy (c + n) zs) m' m \<and>
     h' = h\<lparr>free_list := free_list h', free_bytes := free_bytes h + of_nat n\<rparr>"
proof -
  let ?b = "of_nat c :: addr"
  define m0 where "m0 = set_blk_magic m ?b MINIHEAP_MAGIC_FREE"
  have szn: "blk_size m ?b = of_nat n" using path by (auto simp: path_append c)
  have n: "16 \<le> n" "n < 4294967296" "segs_ok ys" "segs_ok zs" using ok bd by auto
  define d where "d = a + segs_size us"
  have cd: "c = a + segs_size us + f" "c = d + f" using c ys by (simp_all add: d_def)
  have f: "16 \<le> f" "f < 4294967296" "segs_size us + f + n + segs_size zs < 4294967296" using ok ys bd by auto
  note pv = prev_adjacent [OF q(1) [unfolded ys] _ bd(1) _ f(2), folded ys]
  have prev: "last_free NULL a ys = of_nat d" "(of_nat d :: addr) \<noteq> NULL" "blk_size m (of_nat d) = of_nat f"
    "of_nat d + ucast (blk_size m (of_nat d)) = ?b"
    using pv ok bd ys cd by (simp_all add: d_def)
  have "span (of_nat d) 16 \<inter> span ?b 16 = {}"
    using bd n f cd by (intro span_above_disjoint) (auto simp: span_simps simp del: of_nat_add)
  then have s0: "blk_size m0 (of_nat d) = of_nat f" using prev(3) by (simp add: m0_def blk_other)
  define m1 where "m1 = set_blk_size m0 (of_nat d) (of_nat (f + n))"
  have rear: "of_nat d + ucast (blk_size m1 (of_nat d)) = (of_nat (d + (f + n)) :: addr)"
    using f by (simp add: m1_def ucast_of_nat_32_64 del: of_nat_add) simp
  have p1: "heap_path m1 a (free_list h) (us @ Free (f + n) # zs) NULL"
    "agree (busy a ys \<union> busy (c + n) zs) m1 m"
    using release_into_prev [OF q(1) [unfolded ys] q(2) _ n(4) n(1) cd(1) bd(1,2), of m1] ok ys
    by (simp_all add: m1_def m0_def d_def)
  then have nx: "blk_next m1 (of_nat d) = q"
    using q(1) ys \<open>span (of_nat d) 16 \<inter> span ?b 16 = {}\<close>
    by (auto simp: m1_def m0_def path_append d_def blk_other)
  have step: "(h', m') = (h\<lparr>free_bytes := free_bytes h + ucast (of_nat n :: u32)\<rparr>,
     (if q \<noteq> NULL \<and> of_nat (d + (f + n)) = q
      then let m = set_blk_size m1 (of_nat d) (blk_size m1 (of_nat d) + blk_size m1 q)
           in set_blk_next m (of_nat d) (blk_next m q) else m1))"
    using rl rear prev s0 unfolding release_block_def Let_def szn m0_def [symmetric]
    by (auto simp: m1_def)
  have "heap_path m' a (free_list h) (us @ join_free (f + n) zs) NULL \<and>
      agree (busy a (us @ Free (f + n) # zs)) m' m1"
    using step ok ys bd f cd n by (intro absorb_step [OF p1(1) _ d_def bd(1) _ _ nx [symmetric]]) auto
  moreover have "busy a (us @ Free (f + n) # zs) = busy a ys \<union> busy (c + n) zs"
    by (simp add: ys cd add.assoc)
  moreover have "release_segs (segs_size ys) (ys @ Used n # zs) = Some (us @ join_free (f + n) zs)"
    using release_segs_append_free [of us f n zs] ok co ys by simp
  moreover have "h' = h\<lparr>free_bytes := free_bytes h + of_nat n\<rparr>"
    using step n(2) by (simp add: ucast_of_nat_32_64)
  moreover have "agree (busy a ys \<union> busy (c + n) zs) m' m" if "agree (busy a ys \<union> busy (c + n) zs) m' m1"
    using that p1(2) by (rule agree_trans)
  ultimately show ?thesis by simp
qed

lemma release_block_stands_alone:
  assumes path: "heap_path m a (free_list h) (ys @ Used n # zs) NULL"
    and ok: "segs_ok (ys @ Used n # zs)" and co: "coalesced (ys @ Used n # zs)" and c: "c = a + segs_size ys"
    and bd: "0 < a" "c + n + segs_size zs < 18446744073709551616"
      "segs_size ys + n + segs_size zs < 4294967296"
    and q: "heap_path m a (free_list h) ys q" "heap_path m (c + n) q zs NULL"
    and rl: "release_block h m (of_nat c) (of_nat (c + n)) (last_free NULL a ys) q = (h', m')"
    and last: "\<forall>us f. ys \<noteq> us @ [Free f]"
  shows "\<exists>xs'. release_segs (segs_size ys) (ys @ Used n # zs) = Some xs' \<and>
     heap_path m' a (free_list h') xs' NULL \<and> agree (busy a ys \<union> busy (c + n) zs) m' m \<and>
     h' = h\<lparr>free_list := free_list h', free_bytes := free_bytes h + of_nat n\<rparr>"
proof -
  let ?b = "of_nat c :: addr"
  define m0 where "m0 = set_blk_magic m ?b MINIHEAP_MAGIC_FREE"
  have szn: "blk_size m ?b = of_nat n" using path by (auto simp: path_append c)
  have n: "16 \<le> n" "n < 4294967296" "segs_ok ys" "segs_ok zs" using ok bd by auto
  have nadj: "\<not> (last_free NULL a ys \<noteq> NULL \<and> last_free NULL a ys + ucast (blk_size m0 (last_free NULL a ys)) = ?b)"
    using prev_not_adjacent [OF q(1) n(3) last bd(1)] n(1) bd c by (auto simp: m0_def blk_other)
  define m1 where "m1 = set_blk_next (set_blk_size m0 ?b (of_nat n)) ?b q"
  obtain h2 m2 where lk: "link_free h m1 (last_free NULL a ys) ?b = (h2, m2)" by force
  note ra = release_alone [OF q n(3,4,1) c bd(1,2) m1_def [unfolded m0_def] lk]
  have step: "(h', m') = (h2\<lparr>free_bytes := free_bytes h2 + ucast (of_nat n :: u32)\<rparr>,
     (if q \<noteq> NULL \<and> of_nat (c + n) = q
      then let m = set_blk_size m2 ?b (blk_size m2 ?b + blk_size m2 q)
           in set_blk_next m ?b (blk_next m q) else m2))"
    using rl nadj lk unfolding release_block_def Let_def szn m0_def [symmetric]
    by (auto simp: m1_def)
  have "heap_path m' a (free_list h2) (ys @ join_free n zs) NULL \<and> agree (busy a (ys @ Free n # zs)) m' m2"
    using step ok bd n c by (intro absorb_step [OF ra(1) _ c bd(1) _ _ ra(4) [symmetric]]) auto
  moreover have "busy a (ys @ Free n # zs) = busy a ys \<union> busy (c + n) zs"
    by (simp add: c)
  moreover have "release_segs (segs_size ys) (ys @ Used n # zs) = Some (ys @ join_free n zs)"
    using n(3) last co by (rule release_segs_append_used)
  moreover define fl where "fl = free_list h2"
  then have h2: "h2 = h\<lparr>free_list := fl\<rparr>" using ra(3) by blast
  have "h' = h\<lparr>free_list := free_list h', free_bytes := free_bytes h + of_nat n\<rparr>" "free_list h' = fl"
    using step n(2) by (simp_all add: h2 ucast_of_nat_32_64)
  ultimately show ?thesis
    using ra(2) agree_trans fl_def by auto
qed

lemma release_block_refine:
  assumes path: "heap_path m a (free_list h) (ys @ Used n # zs) NULL"
    and ok: "segs_ok (ys @ Used n # zs)" and co: "coalesced (ys @ Used n # zs)" and c: "c = a + segs_size ys"
    and bd: "0 < a" "c + n + segs_size zs < 18446744073709551616"
      "segs_size ys + n + segs_size zs < 4294967296"
    and q: "heap_path m a (free_list h) ys q" "heap_path m (c + n) q zs NULL"
    and rl: "release_block h m (of_nat c) (of_nat (c + n)) (last_free NULL a ys) q = (h', m')"
  shows "\<exists>xs'. release_segs (segs_size ys) (ys @ Used n # zs) = Some xs' \<and>
     heap_path m' a (free_list h') xs' NULL \<and> agree (busy a ys \<union> busy (c + n) zs) m' m \<and>
     h' = h\<lparr>free_list := free_list h', free_bytes := free_bytes h + of_nat n\<rparr>"
proof (cases "\<exists>us f. ys = us @ [Free f]")
  case True
  then obtain us f where ys: "ys = us @ [Free f]" by blast
  show ?thesis by (rule release_block_joins_prev [OF assms ys])
next
  case False
  then show ?thesis using release_block_stands_alone [OF assms] by blast
qed

text \<open>On a well-formed heap the search loop of \<open>miniheap_free\<close> ends at the free neighbours of the block.\<close>

lemma miniheap_free_call:
  assumes rep: "heap_rep h m (ys @ Used n # zs)" and c: "c = unat (mh_base h) + segs_size ys"
  shows "\<exists>q. heap_path m (unat (mh_base h)) (free_list h) ys q \<and> heap_path m (c + n) q zs NULL \<and>
     miniheap_free h m (mh_base h + of_nat (segs_size ys) + 16) =
       Some (Inr (release_block h m (of_nat c) (of_nat (c + n)) (last_free NULL (unat (mh_base h)) ys) q))"
proof -
  let ?a = "unat (mh_base h)" and ?rear = "of_nat (c + n) :: addr"
  have r: "segs_ok (ys @ Used n # zs)" "0 < ?a" "c + n + segs_size zs < 18446744073709551616"
    "n < 4294967296" "heap_path m ?a (free_list h) (ys @ Used n # zs) NULL" "16 \<le> n"
    using rep c unfolding heap_rep_def by auto
  from r(5) obtain q where q: "heap_path m ?a (free_list h) ys q" "heap_path m (c + n) q zs NULL"
    and hd: "blk_magic m (of_nat c) = MINIHEAP_MAGIC_USED" "blk_size m (of_nat c) = of_nat n"
    by (auto simp: path_append c)
  have uc: "unat (of_nat c :: addr) = c" "unat ?rear = c + n" "unat (of_nat (c + 16) :: addr) = c + 16"
    using r(3,6) by (intro unat_of_nat64; simp)+
  have "free_loop m (of_nat c) ?rear NULL (free_list h) =
      free_loop m (of_nat c) ?rear (last_free NULL ?a ys) q"
    using r uc by (intro free_loop_skip [OF q(1)]) (auto simp: c word_le_nat_alt)
  also have "\<dots> = Some (last_free NULL ?a ys, q)"
    using path_head [OF q(2)] r uc by (intro free_loop_stops) (auto simp: c word_le_nat_alt)
  finally have loop: "free_loop m (of_nat c) ?rear NULL (free_list h) = Some (last_free NULL ?a ys, q)" .
  have rear: "of_nat c + ucast (of_nat n :: u32) = ?rear"
    using r(4) by (simp add: ucast_of_nat_32_64)
  have "mh_base h + of_nat (segs_size ys) + 16 = of_nat c + 16" by (simp add: c)
  moreover have "(of_nat c + 16 :: addr) \<noteq> NULL"
  proof
    assume "(of_nat c + 16 :: addr) = NULL"
    with uc(3) show False by simp
  qed
  ultimately show ?thesis
    using hd loop rear q by (auto simp: miniheap_free_def Let_def)
qed

text \<open>
  The refinement lemma for \<open>miniheap_free\<close>: given the payload pointer of a segment in use it
  returns, without panicking, in a state that represents the tiling with that segment released
  and its free neighbours joined to it; no byte of another used segment changes.
\<close>

lemma miniheap_free_refine:
  assumes rep: "heap_rep h m xs" and xs: "xs = ys @ Used n # zs"
  defines "a \<equiv> unat (mh_base h)"
  shows "\<exists>h' m' xs'. miniheap_free h m (mh_base h + of_nat (segs_size ys) + 16) = Some (Inr (h', m')) \<and>
     release_segs (segs_size ys) xs = Some xs' \<and> heap_rep h' m' xs' \<and> mh_base h' = mh_base h \<and>
     agree (busy a ys \<union> busy (a + segs_size ys + n) zs) m' m"
proof -
  define c where "c = a + segs_size ys"
  have r: "segs_ok xs" "coalesced xs" "0 < a" "a + segs_size xs < 18446744073709551616"
    "segs_size xs < 4294967296" "heap_path m a (free_list h) xs NULL" "unat (free_bytes h) = free_total xs"
    using rep unfolding heap_rep_def a_def by auto
  obtain q h' m' where q: "heap_path m a (free_list h) ys q" "heap_path m (c + n) q zs NULL"
    and call: "miniheap_free h m (mh_base h + of_nat (segs_size ys) + 16) = Some (Inr (h', m'))"
    and rl: "release_block h m (of_nat c) (of_nat (c + n)) (last_free NULL a ys) q = (h', m')"
    using miniheap_free_call [OF rep [unfolded xs] c_def [unfolded a_def]] unfolding a_def by fastforce
  obtain xs' where fin: "release_segs (segs_size ys) xs = Some xs'" "heap_path m' a (free_list h') xs' NULL"
    "agree (busy a ys \<union> busy (c + n) zs) m' m"
    "h' = h\<lparr>free_list := free_list h', free_bytes := free_bytes h + of_nat n\<rparr>"
    using release_block_refine [OF r(6) [unfolded xs] r(1,2) [unfolded xs] c_def r(3) _ _ q rl] r xs c_def
    by auto
  have ft: "free_total xs' = free_total xs + n"
    using release_segs_used [of ys n zs] r(1) fin(1) xs by fastforce
  have same: "mh_base h' = mh_base h" "mh_size h' = mh_size h" "align h' = align h"
    "free_bytes h' = free_bytes h + of_nat n"
    by (subst fin(4), simp)+
  have "free_total xs' \<le> segs_size xs" using free_total_le [of xs'] release_segs_shape(1) [OF fin(1)] by simp
  then have "unat (free_bytes h') = free_total xs'"
    using r ft xs unfolding same by (subst unat_add64) (simp_all add: unat_of_nat64)
  then have "heap_rep h' m' xs'"
    using rep fin(2) same release_segs_shape [OF fin(1)] unfolding heap_rep_def a_def by auto
  with call fin(1,3) same(1) show ?thesis by (auto simp: c_def)
qed

section \<open>A released block is marked\<close>

text \<open>
  Whatever neighbours it is joined to, the header of a released block keeps \<open>MINIHEAP_MAGIC_FREE\<close>:
  this is what makes a second release of the same pointer panic.
\<close>

lemma release_block_magic:
  assumes "prev = NULL \<or> span block 16 \<inter> span prev 16 = {}"
  shows "blk_magic (snd (release_block h m block rear prev cur)) block = MINIHEAP_MAGIC_FREE"
  using assms by (auto simp: release_block_def Let_def link_free_def blk_other split: prod.splits if_splits)

lemma last_free_apart:
  assumes "segs_ok ys" "a + segs_size ys + 16 \<le> 18446744073709551616" "0 < a"
  shows "last_free NULL a ys = NULL \<or> span (of_nat (a + segs_size ys)) 16 \<inter> span (last_free NULL a ys) 16 = {}"
proof (cases "has_free ys")
  case True
  then obtain us f vs where "ys = us @ Free f # vs" "last_free NULL a ys = of_nat (a + segs_size us)"
    by (metis last_free_split)
  then show ?thesis using assms by (auto simp: span_simps simp del: of_nat_add)
qed (simp add: last_free_no_free)

lemma miniheap_free_magic:
  assumes rep: "heap_rep h m (ys @ Used n # zs)"
    and call: "miniheap_free h m (mh_base h + of_nat (segs_size ys) + 16) = Some (Inr (h', m'))"
  shows "blk_magic m' (mh_base h + of_nat (segs_size ys)) = MINIHEAP_MAGIC_FREE"
proof -
  let ?a = "unat (mh_base h)"
  obtain q where "(h', m') = release_block h m (of_nat (?a + segs_size ys)) (of_nat (?a + segs_size ys + n)) (last_free NULL ?a ys) q"
    using miniheap_free_call [OF rep refl] call by (auto simp del: of_nat_add)
  moreover have "last_free NULL ?a ys = NULL \<or>
      span (of_nat (?a + segs_size ys)) 16 \<inter> span (last_free NULL ?a ys) 16 = {}"
    using rep by (intro last_free_apart) (auto simp: heap_rep_def)
  ultimately have "blk_magic m' (of_nat (?a + segs_size ys)) = MINIHEAP_MAGIC_FREE"
    using release_block_magic by (metis snd_conv)
  then show ?thesis by simp
qed

end
