(* ===== verification/Allocator.thy ===== *)
theory Allocator
  imports Miniheap_Release
begin

text \<open>
  What the clients of \<open>malloc\<close> and \<open>free\<close> rely on, as the interface \<open>allocator\<close>: which blocks
  a client owns (payload pointer and capacity), that owned blocks never overlap, that a request
  within the supported range returns and either fails without effect or adds a block of at least
  the size asked for, that releasing an owned block succeeds, and that neither touches a byte of
  another owned block. \<^verbatim>\<open>miniheap.c\<close> is its implementation.
\<close>

locale allocator =
  fixes alloc :: "'h \<Rightarrow> mem \<Rightarrow> u64 \<Rightarrow> ('h \<times> mem \<times> addr) option"
    and dealloc :: "'h \<Rightarrow> mem \<Rightarrow> addr \<Rightarrow> ('h \<times> mem) outcome option"
    and owns :: "'h \<Rightarrow> mem \<Rightarrow> (addr \<times> nat) set \<Rightarrow> bool"
    and max_request :: nat
  assumes alloc_returns: "owns h m L \<Longrightarrow> unat n \<le> max_request \<Longrightarrow> \<exists>h' m' p. alloc h m n = Some (h', m', p)"
    and alloc_fails: "owns h m L \<Longrightarrow> unat n \<le> max_request \<Longrightarrow> alloc h m n = Some (h', m', NULL) \<Longrightarrow> h' = h \<and> m' = m"
    and alloc_block: "owns h m L \<Longrightarrow> unat n \<le> max_request \<Longrightarrow> alloc h m n = Some (h', m', p) \<Longrightarrow> p \<noteq> NULL \<Longrightarrow>
      \<exists>c \<ge> unat n. owns h' m' (insert (p, c) L) \<and> (p, c) \<notin> L \<and> (\<forall>(b, k) \<in> L. agree (span b k) m' m)"
    and dealloc_block: "owns h m L \<Longrightarrow> (p, c) \<in> L \<Longrightarrow>
      \<exists>h' m'. dealloc h m p = Some (Inr (h', m')) \<and> owns h' m' (L - {(p, c)}) \<and>
        (\<forall>(b, k) \<in> L - {(p, c)}. agree (span b k) m' m)"
    and separate: "owns h m L \<Longrightarrow> (p, c) \<in> L \<Longrightarrow> (b, k) \<in> L \<Longrightarrow> (p, c) \<noteq> (b, k) \<Longrightarrow> span p c \<inter> span b k = {}"
    and client_write: "owns h m L \<Longrightarrow> (p, c) \<in> L \<Longrightarrow> agree (- span p c) m m' \<Longrightarrow> owns h m' L"
    and not_null: "owns h m L \<Longrightarrow> (p, c) \<in> L \<Longrightarrow> p \<noteq> NULL"
begin

text \<open>A client that fills a block it owns keeps the contents of every other block it owns.\<close>

lemma write_keeps_others:
  assumes "owns h m L" "(p, c) \<in> L" "agree (- span p c) m m'" "(b, k) \<in> L" "(b, k) \<noteq> (p, c)"
  shows "owns h m' L" "agree (span b k) m' m"
proof -
  show "owns h m' L" using assms(1-3) by (rule client_write)
  have "span b k \<subseteq> - span p c" using separate [OF assms(1,4,2,5)] by blast
  then show "agree (span b k) m' m" using assms(3) by (blast intro: agree_sym agree_mono)
qed

text \<open>Pointers identify blocks: two owned blocks of positive capacity have different pointers.\<close>

lemma same_pointer_same_block:
  assumes "owns h m L" "(p, c) \<in> L" "(p, k) \<in> L" "0 < c" "0 < k"
  shows "c = k"
proof (rule ccontr)
  assume "c \<noteq> k"
  then have "span p c \<inter> span p k = {}" using separate assms by blast
  moreover have "p \<in> span p c \<inter> span p k" using assms by (simp add: span_iff)
  ultimately show False by blast
qed

end

section \<open>The blocks a heap's client owns\<close>

definition payload :: "nat \<times> nat \<Rightarrow> addr \<times> nat" where
  "payload = (\<lambda>(b, n). (of_nat b + 16, n - 16))"

definition heap_owns :: "miniheap \<Rightarrow> mem \<Rightarrow> (addr \<times> nat) set \<Rightarrow> bool" where
  "heap_owns h m L \<longleftrightarrow>
     (\<exists>xs. heap_rep h m xs \<and> L = payload ` set (live (unat (mh_base h)) xs))"

lemma heap_ownsI: "heap_rep h m xs \<Longrightarrow> heap_owns h m (payload ` set (live (unat (mh_base h)) xs))"
  by (auto simp: heap_owns_def)

lemma payload_in_block:
  assumes "b + n \<le> 18446744073709551616" "16 \<le> n"
  shows "span (fst (payload (b, n))) (snd (payload (b, n))) \<subseteq> span (of_nat b) n"
  using assms span_subset_nat [of b "b + 16" "n - 16" n] by (simp add: payload_def)

lemma heap_rep_live:
  assumes "heap_rep h m xs" "(b, n) \<in> set (live (unat (mh_base h)) xs)"
  shows "unat (mh_base h) \<le> b" "b + n < 18446744073709551616" "16 \<le> n" "n < 4294967296"
proof -
  have r: "unat (mh_base h) + segs_size xs < 18446744073709551616" "segs_ok xs" "segs_size xs < 4294967296"
    using assms(1) by (simp_all add: heap_rep_def)
  have "unat (mh_base h) \<le> b \<and> b + n \<le> unat (mh_base h) + segs_size xs"
    using assms(2) by (rule live_bounds)
  with r show "unat (mh_base h) \<le> b" "b + n < 18446744073709551616" "n < 4294967296" by linarith+
  show "16 \<le> n" using live_size [OF r(2) assms(2)] by simp
qed

lemma payload_inj:
  assumes "heap_rep h m xs"
  shows "inj_on payload (set (live (unat (mh_base h)) xs))"
proof (rule inj_onI)
  fix x y assume "x \<in> set (live (unat (mh_base h)) xs)" "y \<in> set (live (unat (mh_base h)) xs)" "payload x = payload y"
  moreover obtain b n c k where "x = (b, n)" "y = (c, k)" by force
  ultimately have "of_nat b = (of_nat c :: addr)" "n - 16 = k - 16"
    and l: "(b, n) \<in> set (live (unat (mh_base h)) xs)" "(c, k) \<in> set (live (unat (mh_base h)) xs)"
    by (auto simp: payload_def)
  note lb = heap_rep_live [OF assms l(1)] and lc = heap_rep_live [OF assms l(2)]
  have "b < 18446744073709551616" "c < 18446744073709551616" using lb(2) lc(2) by linarith+
  with \<open>of_nat b = (of_nat c :: addr)\<close> have "b = c" by (metis unat_of_nat64)
  moreover have "n = k" using \<open>n - 16 = k - 16\<close> lb(3) lc(3) by linarith
  ultimately show "x = y" using \<open>x = (b, n)\<close> \<open>y = (c, k)\<close> by simp
qed

lemma payload_separate:
  assumes "heap_rep h m xs" "x \<in> set (live (unat (mh_base h)) xs)" "y \<in> set (live (unat (mh_base h)) xs)" "x \<noteq> y"
  shows "span (fst (payload x)) (snd (payload x)) \<inter> span (fst (payload y)) (snd (payload y)) = {}"
proof -
  obtain b n c k where xy: "x = (b, n)" "y = (c, k)" by force
  note lx = heap_rep_live [OF assms(1) assms(2) [unfolded xy]] and ly = heap_rep_live [OF assms(1) assms(3) [unfolded xy]]
  have "b + n \<le> c \<or> c + k \<le> b"
    using live_disjoint [of xs b n "unat (mh_base h)" c k] assms xy by (auto simp: heap_rep_def)
  then have "span (of_nat b) n \<inter> span (of_nat c) k = {}"
    using lx(2) ly(2) by (auto simp: span_simps)
  moreover have "span (fst (payload x)) (snd (payload x)) \<subseteq> span (of_nat b) n"
    "span (fst (payload y)) (snd (payload y)) \<subseteq> span (of_nat c) k"
    unfolding xy using lx ly by (intro payload_in_block; simp)+
  ultimately show ?thesis by blast
qed

text \<open>A live block's payload holds no header byte, so clients cannot break the heap from inside a block.\<close>

lemma hdrs_payload_disjoint:
  assumes "segs_ok xs" "a + segs_size xs < 18446744073709551616" "(b, n) \<in> set (live a xs)"
  shows "hdrs a xs \<inter> span (of_nat b + 16) (n - 16) = {}"
  using assms
proof (induction xs arbitrary: a)
  case (Cons x r)
  have r: "segs_ok r" "a + seg_size x + segs_size r < 18446744073709551616" "16 \<le> seg_size x"
    using Cons.prems by simp_all
  have below: "y \<in> hdrs (a + seg_size x) r \<Longrightarrow> a + seg_size x \<le> unat y" for y
    using hdrs_region [OF r(1), of "a + seg_size x" y] r(2) by simp
  show ?case
  proof (cases "x = Used n \<and> b = a")
    case True
    then have "span (of_nat a) 16 \<inter> span (of_nat a + 16) (n - 16) = {}"
      using r span_fields_disjoint [of 0 16 16 "n - 16" "of_nat a"] by auto
    moreover have "hdrs (a + n) r \<inter> span (of_nat (a + 16)) (n - 16) = {}"
      using True below r by (intro span_below_disjoint) auto
    ultimately show ?thesis using True by auto
  next
    case False
    with Cons.prems have l: "(b, n) \<in> set (live (a + seg_size x) r)" by (cases x) auto
    then have "a + seg_size x \<le> b" "b + n \<le> a + seg_size x + segs_size r" using live_bounds by blast+
    moreover have "16 \<le> n" using live_size [OF r(1) l] by simp
    ultimately have "span (of_nat a) 16 \<inter> span (of_nat (b + 16)) (n - 16) = {}"
      using r by (auto simp: span_simps simp del: of_nat_add)
    with Cons.IH [OF r(1,2) l] show ?thesis by auto
  qed
qed simp

section \<open>The allocator keeps its promises\<close>

lemma busy_payload:
  assumes "heap_rep h m xs" "agree (busy (unat (mh_base h)) ys) m' m'' " "set (live (unat (mh_base h)) ys) \<subseteq> set (live (unat (mh_base h)) xs)"
    "(p, c) \<in> payload ` set (live (unat (mh_base h)) ys)"
  shows "agree (span p c) m' m''"
proof -
  from assms(4) obtain b n where l: "(b, n) \<in> set (live (unat (mh_base h)) ys)" and pc: "payload (b, n) = (p, c)" by force
  note hl = heap_rep_live [OF assms(1) subsetD [OF assms(3) l]]
  have "span p c \<subseteq> span (of_nat b) n"
    using payload_in_block [of b n] hl(2,3) pc by simp
  also have "\<dots> \<subseteq> busy (unat (mh_base h)) ys" using l by (auto simp: busy_def)
  finally show ?thesis using assms(2) by (rule agree_mono [rotated])
qed

lemma miniheap_alloc_zero: "align h = MINIHEAP_ALIGNMENT \<Longrightarrow> miniheap_alloc h m 0 = Some (h, m, NULL)"
  by (simp add: miniheap_alloc_def round_up_size_def MINIHEAP_ALIGNMENT_def)

lemma owns_alloc_cases:
  assumes "heap_owns h m L" "unat n \<le> 4294967264"
  shows "miniheap_alloc h m n = Some (h, m, NULL) \<or>
    (\<exists>h' m' p c. miniheap_alloc h m n = Some (h', m', p) \<and> p \<noteq> NULL \<and> unat n \<le> c \<and>
       heap_owns h' m' (insert (p, c) L) \<and> (p, c) \<notin> L \<and> (\<forall>(b, k) \<in> L. agree (span b k) m' m))"
proof -
  let ?a = "unat (mh_base h)" and ?t = "block_size (unat n)"
  obtain xs where rep: "heap_rep h m xs" and L: "L = payload ` set (live ?a xs)"
    using assms(1) by (auto simp: heap_owns_def)
  show ?thesis
  proof (cases "unat n = 0 \<or> alloc_segs ?t xs = None")
    case True
    have "n = 0 \<or> miniheap_alloc h m n = Some (h, m, NULL)"
      using True miniheap_alloc_refine [OF rep _ assms(2)] by (cases "unat n = 0") (auto simp: unat_eq_zero)
    then show ?thesis using rep miniheap_alloc_zero by (auto simp: heap_rep_def)
  next
    case False
    then obtain xs' off where al: "alloc_segs ?t xs = Some (xs', off)" by auto
    with False obtain h' m' where call: "miniheap_alloc h m n = Some (h', m', mh_base h + of_nat off + 16)"
      and rep': "heap_rep h' m' xs'" and base: "mh_base h' = mh_base h" and ag: "agree (busy ?a xs) m' m"
      using miniheap_alloc_refine [OF rep _ assms(2)] by auto
    let ?p = "mh_base h + of_nat off + 16" and ?c = "?t - 16"
    have pl: "payload (?a + off, ?t) = (?p, ?c)" by (simp add: payload_def)
    have lv: "set (live ?a xs') = insert (?a + off, ?t) (set (live ?a xs))"
      by (rule alloc_segs_live [OF al])
    have "(?a + off, ?t) \<notin> set (live ?a xs)"
      using alloc_segs_fresh [OF al] rep by (simp add: heap_rep_def)
    then have fresh: "(?p, ?c) \<notin> L"
      using payload_inj [OF rep'] unfolding L base lv pl [symmetric] by (auto simp: inj_on_def)
    have "heap_owns h' m' (insert (?p, ?c) L)"
      using heap_ownsI [OF rep'] by (simp add: base lv L pl)
    moreover have "?p \<noteq> NULL"
    proof -
      have "(?a + off, ?t) \<in> set (live (unat (mh_base h')) xs')" by (simp add: base lv)
      from heap_rep_live [OF rep' this] have "unat (of_nat (?a + off + 16) :: addr) = ?a + off + 16"
        by (intro unat_of_nat64) simp
      then show ?thesis by auto
    qed
    moreover have "unat n \<le> ?c" using block_size_props(3) [of "unat n"] by simp
    moreover have "\<forall>(b, k) \<in> L. agree (span b k) m' m"
      using busy_payload [OF rep ag subset_refl] unfolding L by blast
    ultimately show ?thesis using call fresh by blast
  qed
qed

lemma owns_dealloc:
  assumes "heap_owns h m L" "(p, c) \<in> L"
  shows "\<exists>h' m'. miniheap_free h m p = Some (Inr (h', m')) \<and> heap_owns h' m' (L - {(p, c)}) \<and>
    (\<forall>(b, k) \<in> L - {(p, c)}. agree (span b k) m' m)"
proof -
  let ?a = "unat (mh_base h)"
  obtain xs where rep: "heap_rep h m xs" and L: "L = payload ` set (live ?a xs)"
    using assms(1) by (auto simp: heap_owns_def)
  then obtain b n where l: "(b, n) \<in> set (live ?a xs)" and pc: "payload (b, n) = (p, c)"
    using assms(2) by force
  then obtain ys zs where xs: "xs = ys @ Used n # zs" and b: "b = ?a + segs_size ys" by (metis live_split)
  have p: "p = mh_base h + of_nat (segs_size ys) + 16" using pc b by (auto simp: payload_def)
  obtain h' m' xs' where call: "miniheap_free h m p = Some (Inr (h', m'))"
    and rel: "release_segs (segs_size ys) xs = Some xs'" and rep': "heap_rep h' m' xs'"
    and base: "mh_base h' = mh_base h" and ag: "agree (busy ?a ys \<union> busy (?a + segs_size ys + n) zs) m' m"
    using miniheap_free_refine [OF rep xs] p by blast
  have ok: "segs_ok xs" using rep by (simp add: heap_rep_def)
  have lv: "live ?a xs' = live ?a ys @ live (?a + segs_size ys + n) zs"
    using release_segs_used [of ys n zs ?a] ok rel xs by auto
  then have "set (live ?a xs') = set (live ?a xs) - {(b, n)}"
    using live_distinct [OF ok, of ?a] by (auto simp: xs b)
  then have L': "payload ` set (live ?a xs') = L - {(p, c)}"
    using inj_on_image_set_diff [OF payload_inj [OF rep], of "set (live ?a xs)" "{(b, n)}"] l pc L by auto
  have "busy ?a xs' = busy ?a ys \<union> busy (?a + segs_size ys + n) zs"
    unfolding busy_def lv by auto
  with ag have ag': "agree (busy ?a xs') m' m" by simp
  have "agree (span r k) m' m" if "(r, k) \<in> L - {(p, c)}" for r k
    by (rule busy_payload [OF rep ag'])
      (use that L' \<open>set (live ?a xs') = set (live ?a xs) - {(b, n)}\<close> in auto)
  then have "\<forall>(b, k) \<in> L - {(p, c)}. agree (span b k) m' m" by blast
  moreover have "heap_owns h' m' (L - {(p, c)})"
    using heap_ownsI [OF rep'] base L' by simp
  ultimately show ?thesis using call by blast
qed

lemma owns_client_write:
  assumes "heap_owns h m L" "(p, c) \<in> L" "agree (- span p c) m m'"
  shows "heap_owns h m' L"
proof -
  let ?a = "unat (mh_base h)"
  obtain xs b n where rep: "heap_rep h m xs" and L: "L = payload ` set (live ?a xs)"
    and l: "(b, n) \<in> set (live ?a xs)" and pc: "payload (b, n) = (p, c)"
    using assms(1,2) by (force simp: heap_owns_def)
  have "hdrs ?a xs \<subseteq> - span p c"
    using hdrs_payload_disjoint [OF _ _ l] rep pc by (auto simp: heap_rep_def payload_def)
  then have "agree (hdrs ?a xs) m m'" using assms(3) by (rule agree_mono [rotated])
  then have "heap_rep h m' xs" using rep path_frame by (auto simp: heap_rep_def)
  then show ?thesis using L by (auto simp: heap_owns_def)
qed

lemma owns_not_null:
  assumes "heap_owns h m L" "(p, c) \<in> L"
  shows "p \<noteq> NULL"
proof
  assume "p = NULL"
  obtain xs b n where rep: "heap_rep h m xs" and l: "(b, n) \<in> set (live (unat (mh_base h)) xs)"
    and pc: "payload (b, n) = (p, c)"
    using assms by (force simp: heap_owns_def)
  have "unat (of_nat (b + 16) :: addr) = b + 16"
    using heap_rep_live [OF rep l] by (intro unat_of_nat64) simp
  with pc \<open>p = NULL\<close> show False by (simp add: payload_def)
qed

interpretation heap: allocator miniheap_alloc miniheap_free heap_owns 4294967264
proof
  fix h m L and n :: u64 assume "heap_owns h m L" "unat n \<le> 4294967264"
  then show "\<exists>h' m' p. miniheap_alloc h m n = Some (h', m', p)"
    using owns_alloc_cases by blast
next
  fix h m L h' m' and n :: u64
  assume "heap_owns h m L" "unat n \<le> 4294967264" "miniheap_alloc h m n = Some (h', m', NULL)"
  then show "h' = h \<and> m' = m" using owns_alloc_cases [of h m L n] by auto
next
  fix h m L h' m' p and n :: u64
  assume "heap_owns h m L" "unat n \<le> 4294967264" "miniheap_alloc h m n = Some (h', m', p)" "p \<noteq> NULL"
  then show "\<exists>c\<ge>unat n. heap_owns h' m' (insert (p, c) L) \<and> (p, c) \<notin> L \<and> (\<forall>(b, k)\<in>L. agree (span b k) m' m)"
    using owns_alloc_cases [of h m L n] by auto
next
  fix h m L p c b k
  assume *: "heap_owns h m L" "(p, c) \<in> L" "(b, k) \<in> L" "(p, c) \<noteq> (b, k)"
  then obtain xs x y where "heap_rep h m xs" "x \<in> set (live (unat (mh_base h)) xs)" "payload x = (p, c)"
    "y \<in> set (live (unat (mh_base h)) xs)" "payload y = (b, k)"
    unfolding heap_owns_def by (metis (no_types, lifting) imageE)
  moreover from this *(4) have "x \<noteq> y" by auto
  ultimately show "span p c \<inter> span b k = {}" using payload_separate [of h m xs x y] by simp
qed (fact owns_dealloc owns_client_write owns_not_null)+

end
