(* ===== verification/Miniheap_Props.thy ===== *)
theory Miniheap_Props
  imports Allocator
begin

text \<open>
  The properties of \<^verbatim>\<open>src/src/libc/miniheap.c\<close>, read off the refinement lemmas and the allocator
  interface, on the sizes its arithmetic handles; and what happens on the sizes it does not.
\<close>

section \<open>A heap for the witnesses\<close>

definition no_heap :: miniheap where
  "no_heap = \<lparr>mh_base = 0, mh_size = 0, free_bytes = 0, align = 0, free_list = 0\<rparr>"

definition demo_heap :: miniheap where
  "demo_heap = \<lparr>mh_base = 0x1000, mh_size = 128, free_bytes = 128, align = 16, free_list = 0x1000\<rparr>"

definition demo_mem :: mem where
  "demo_mem = set_blk_next (set_blk_size (set_blk_magic (\<lambda>_. 0) 0x1000 MINIHEAP_MAGIC_FREE) 0x1000 128) 0x1000 0"

lemma and_15_zero: "(sz :: u64) AND 15 = 0 \<longleftrightarrow> 16 dvd unat sz"
proof -
  have "sz AND 15 = take_bit 4 sz" using take_bit_eq_mask [of 4 sz] by (simp add: mask_numeral)
  then have "unat (sz AND 15) = unat sz mod 16" by (simp add: take_bit_eq_mod unat_mod)
  then show ?thesis using unat_eq_zero [of "sz AND 15"] by (simp add: dvd_eq_mod_eq_0)
qed

lemma miniheap_init_eq:
  assumes "0 < unat sz" "16 dvd unat sz"
  shows "miniheap_init h m base sz =
    Inr (0, h\<lparr>mh_base := base, mh_size := sz, free_bytes := sz, align := MINIHEAP_ALIGNMENT, free_list := base\<rparr>,
      set_blk_next (set_blk_size (set_blk_magic m base MINIHEAP_MAGIC_FREE) base (ucast sz)) base 0)"
proof -
  have "sz \<noteq> 0" using assms(1) by auto
  moreover have "sz AND ucast (MINIHEAP_ALIGNMENT - 1) = 0"
    using assms(2) and_15_zero [of sz] by (simp add: MINIHEAP_ALIGNMENT_def)
  ultimately show ?thesis by (simp add: miniheap_init_def)
qed

lemma init_rep:
  assumes "0 < unat sz" "16 dvd unat sz" "unat sz < 4294967296" "base \<noteq> NULL"
    "unat base + unat sz < 18446744073709551616"
  shows "\<exists>h' m'. miniheap_init h m base sz = Inr (0, h', m') \<and> mh_base h' = base \<and> mh_size h' = sz \<and>
    heap_rep h' m' [Free (unat sz)]"
proof -
  have "(ucast sz :: u32) = of_nat (unat sz)" by simp
  moreover have "16 \<le> unat sz" using assms(1,2) by (rule dvd_imp_le [rotated])
  moreover have "0 < unat base" using assms(4) by (simp add: unat_gt_0)
  ultimately show ?thesis
    using assms unfolding miniheap_init_eq [OF assms(1,2)] by (simp add: heap_rep_def)
qed

lemma demo_init: "miniheap_init no_heap (\<lambda>_. 0) 0x1000 128 = Inr (0, demo_heap, demo_mem)"
  by (subst miniheap_init_eq) (simp_all add: no_heap_def demo_heap_def demo_mem_def MINIHEAP_ALIGNMENT_def)

lemma demo_rep: "heap_rep demo_heap demo_mem [Free 128]"
  using init_rep [of 128 "0x1000" no_heap "\<lambda>_. 0"] by (simp add: demo_init)

lemma demo_owns: "heap_owns demo_heap demo_mem {}"
  using heap_ownsI [OF demo_rep] by simp

section \<open>Requests the size computation cannot represent\<close>

text \<open>\<open>total_size\<close> is a 32-bit variable: only the low half of the requested size reaches it.\<close>

lemma round_up_size_low:
  assumes "(ucast sz :: u32) = ucast sz'"
  shows "round_up_size al sz = round_up_size al sz'"
proof -
  have "(ucast (sz + ucast al - 1) :: u32) = ucast sz + al - 1" for sz :: u64
    by (simp add: low32_add low32_diff)
  then show ?thesis by (simp only: round_up_size_def ucast_and_ucast assms)
qed

text \<open>In the sixteen sizes below \<open>2 ^ 32 - 15\<close> the header makes the 32-bit total wrap to zero.\<close>

lemma round_up_size_wraps:
  assumes "4294967265 \<le> unat sz" "unat sz \<le> 4294967280"
  shows "round_up_size MINIHEAP_ALIGNMENT sz + MINIHEAP_USEDHEADER_SIZE = 0"
    "round_up_size MINIHEAP_ALIGNMENT sz \<noteq> 0"
proof -
  have y: "unat (sz + 15) = unat sz + 15" using assms by (subst unat_add64) auto
  have "sz + ucast MINIHEAP_ALIGNMENT - 1 = sz + 15" "NOT (MINIHEAP_ALIGNMENT - 1) = (0xFFFFFFF0 :: u32)"
    by (simp_all add: MINIHEAP_ALIGNMENT_def)
  then have "round_up_size MINIHEAP_ALIGNMENT sz = ucast (sz + 15) AND 0xFFFFFFF0"
    by (simp only: round_up_size_def ucast_and_ucast)
  moreover have "unat (ucast (sz + 15) :: u32) = unat sz + 15"
    using assms y by (simp add: unsigned_ucast_eq take_bit_nat_eq_self_iff)
  ultimately have "unat (round_up_size MINIHEAP_ALIGNMENT sz) = 16 * ((unat sz + 15) div 16)"
    by (simp add: and_not_15)
  also have "(unat sz + 15) div 16 = 268435455" using assms by (intro div_nat_eqI) auto
  finally have "round_up_size MINIHEAP_ALIGNMENT sz = 4294967280"
    by (simp add: word_unat_eq_iff)
  then show "round_up_size MINIHEAP_ALIGNMENT sz + MINIHEAP_USEDHEADER_SIZE = 0"
    "round_up_size MINIHEAP_ALIGNMENT sz \<noteq> 0" by simp_all
qed

lemma path_first_free: "heap_path m a p xs NULL \<Longrightarrow> p \<noteq> NULL \<Longrightarrow> blk_magic m p = MINIHEAP_MAGIC_FREE"
  by (induction xs arbitrary: a rule: free_total.induct) auto

lemma path_first_size:
  "heap_path m a p xs NULL \<Longrightarrow> p \<noteq> NULL \<Longrightarrow> segs_ok xs \<Longrightarrow> segs_size xs < 4294967296 \<Longrightarrow> blk_size m p \<noteq> 0"
proof (induction xs arbitrary: a rule: free_total.induct)
  case (2 n r)
  then have "unat (of_nat n :: u32) = n" "n \<noteq> 0" by (auto intro: unat_of_nat32)
  with 2 show ?case by (metis heap_path.simps(3) unat_0)
qed auto

lemma path_has_free:
  "heap_path m a p xs NULL \<Longrightarrow> has_free xs \<Longrightarrow> 0 < a \<Longrightarrow> a + segs_size xs < 18446744073709551616 \<Longrightarrow> p \<noteq> NULL"
proof (induction xs arbitrary: a rule: has_free.induct)
  case (3 n r)
  then show ?case using "3.IH" [of "a + n"] by simp
qed (auto simp: of_nat_neq_NULL)

lemma alloc_wrapped:
  assumes "free_list h \<noteq> NULL" "blk_size m (free_list h) \<noteq> 0" "align h = MINIHEAP_ALIGNMENT"
    "4294967265 \<le> unat sz" "unat sz \<le> 4294967280"
  shows "\<exists>h' m'. miniheap_alloc h m sz = Some (h', m', free_list h + 16) \<and> free_list h' = free_list h \<and>
     blk_magic m' (free_list h) = MINIHEAP_MAGIC_USED \<and> blk_size m' (free_list h) = 0"
proof -
  let ?p = "free_list h"
  obtain h1 m1 where tk: "take_block 0 h m NULL ?p = (h1, m1)" "free_list h1 = ?p"
    using assms(2) by (auto simp: take_block_def link_free_def Let_def)
  show ?thesis
    using assms round_up_size_wraps [OF assms(4,5)] tk
    by (auto simp: miniheap_alloc_def alloc_loop.simps [of 0])
qed

lemma demo_used: "\<exists>h m. heap_rep h m ([] @ Used 48 # [Free 80]) \<and> mh_base h = 0x1000"
  using miniheap_alloc_refine [OF demo_rep, of 20]
  by (auto simp: block_size_def carve_def demo_heap_def)

text \<open>An empty heap is one free segment.\<close>

lemma empty_heap_alloc:
  assumes own: "heap_owns h m {}" and sz: "0 < unat sz" "unat sz \<le> 4294967264" and ne: "mh_size h \<noteq> 0"
  shows "if block_size (unat sz) \<le> unat (mh_size h)
    then \<exists>h' m'. malloc h m sz = Some (h', m', mh_base h + 16)
    else malloc h m sz = Some (h, m, NULL)"
proof -
  obtain xs where rep: "heap_rep h m xs" and "live (unat (mh_base h)) xs = []"
    using own by (auto simp: heap_owns_def)
  moreover from this ne have "xs \<noteq> []" by (auto simp: heap_rep_def unat_eq_zero)
  ultimately have xs: "xs = [Free (unat (mh_size h))]"
    using all_free_single by (force simp: heap_rep_def)
  show ?thesis using miniheap_alloc_refine [OF rep sz] by (auto simp: xs malloc_def)
qed

section \<open>The properties\<close>

text \<open>
  C1. \<open>malloc\<close> implements first-fit allocation. On a well-formed heap whose tiling is \<open>xs\<close> and for
  a non-zero size of at most \<open>2 ^ 32 - 32\<close> bytes, if no free segment can hold the request with
  its header then \<open>malloc\<close> returns \<open>NULL\<close> and changes nothing; otherwise it returns, its search
  ends, the result points 16 bytes into the first segment that fits, the tiling becomes the one
  with that segment carved, the heap stays well-formed and no byte of a block in use or outside
  the heap changes.
\<close>

theorem malloc_first_fit:
  assumes "heap_rep h m xs" "0 < unat sz" "unat sz \<le> 4294967264"
  shows "case alloc_segs (block_size (unat sz)) xs of
      None \<Rightarrow> malloc h m sz = Some (h, m, NULL)
    | Some (xs', off) \<Rightarrow>
        \<exists>h' m'. malloc h m sz = Some (h', m', mh_base h + of_nat off + 16) \<and>
          heap_rep h' m' xs' \<and> mh_base h' = mh_base h \<and> agree (busy (unat (mh_base h)) xs) m' m \<and>
          agree (- span (mh_base h) (segs_size xs)) m' m"
  unfolding malloc_def by (rule miniheap_alloc_refine [OF assms])

theorem malloc_first_fit_witness:
  "heap_rep demo_heap demo_mem [Free 128] \<and>
   (\<exists>h' m'. malloc demo_heap demo_mem 20 = Some (h', m', 0x1010) \<and> heap_rep h' m' [Used 48, Free 80])"
  using demo_rep malloc_first_fit [OF demo_rep, of 20]
  by (auto simp: block_size_def carve_def demo_heap_def)

text \<open>
  C2. \<open>free\<close> of a block in use returns (no panic, its search loop ends), the block's segment becomes
  free and is joined with its free neighbours, \<open>free_bytes\<close> grows by the size of the block, the
  heap stays well-formed and no byte of any other block in use changes.
\<close>

theorem mfree_release:
  assumes "heap_rep h m (ys @ Used n # zs)"
  shows "\<exists>h' m' xs'. mfree h m (mh_base h + of_nat (segs_size ys) + 16) = Some (Inr (h', m')) \<and>
     release_segs (segs_size ys) (ys @ Used n # zs) = Some xs' \<and> heap_rep h' m' xs' \<and>
     unat (free_bytes h') = unat (free_bytes h) + n \<and>
     agree (busy (unat (mh_base h)) ys \<union> busy (unat (mh_base h) + segs_size ys + n) zs) m' m"
proof -
  obtain h' m' xs' where call: "mfree h m (mh_base h + of_nat (segs_size ys) + 16) = Some (Inr (h', m'))"
    and rel: "release_segs (segs_size ys) (ys @ Used n # zs) = Some xs'" and rep: "heap_rep h' m' xs'"
    and ag: "agree (busy (unat (mh_base h)) ys \<union> busy (unat (mh_base h) + segs_size ys + n) zs) m' m"
    using miniheap_free_refine [OF assms refl] unfolding mfree_def by blast
  have "free_total xs' = free_total (ys @ Used n # zs) + n"
    using release_segs_used [of ys n zs] rel assms by (fastforce simp: heap_rep_def)
  then have "unat (free_bytes h') = unat (free_bytes h) + n"
    using rep assms by (simp add: heap_rep_def)
  with call rel rep ag show ?thesis by blast
qed

theorem mfree_release_witness:
  "\<exists>h m h' m'. heap_rep h m ([] @ Used 48 # [Free 80]) \<and> mfree h m 0x1010 = Some (Inr (h', m')) \<and>
     heap_rep h' m' [Free 128]"
proof -
  obtain h m where rep: "heap_rep h m ([] @ Used 48 # [Free 80])" and b: "mh_base h = 0x1000"
    using demo_used by blast
  from mfree_release [OF rep] b rep show ?thesis by auto
qed



text \<open>
  C5. Releasing a block twice is detected: after \<open>free\<close> of a block in use has returned, \<open>free\<close> of
  the same pointer panics, also when the block has been joined with a neighbour.
\<close>

theorem double_free_panics:
  assumes rep: "heap_rep h m (ys @ Used n # zs)" and p: "p = mh_base h + of_nat (segs_size ys) + 16"
    and call: "mfree h m p = Some (Inr (h', m'))"
  shows "mfree h' m' p = Some (Inl (Panic (''miniheap_free: invalid free'' @ newline)))"
proof -
  have "p \<noteq> NULL"
    using owns_not_null [OF heap_ownsI [OF rep], of p "n - 16"] by (auto simp: p payload_def)
  moreover have "blk_magic m' (p - 16) = MINIHEAP_MAGIC_FREE"
    using miniheap_free_magic [OF rep] call by (simp add: p mfree_def)
  ultimately show ?thesis
    by (simp add: mfree_def miniheap_free_def MINIHEAP_MAGIC_FREE_def MINIHEAP_MAGIC_USED_def)
qed

theorem double_free_panics_witness:
  "\<exists>h m h' m'. heap_rep h m ([] @ Used 48 # [Free 80]) \<and> mfree h m 0x1010 = Some (Inr (h', m')) \<and>
     mfree h' m' 0x1010 = Some (Inl (Panic (''miniheap_free: invalid free'' @ newline)))"
proof -
  obtain h m where rep: "heap_rep h m ([] @ Used 48 # [Free 80])" and b: "mh_base h = 0x1000"
    using demo_used by blast
  then obtain h' m' where "mfree h m 0x1010 = Some (Inr (h', m'))"
    using miniheap_free_refine [OF rep refl] by (auto simp: mfree_def)
  with double_free_panics [OF rep, of "0x1010"] rep b show ?thesis by auto
qed





text \<open>
  C7. \<open>miniheap_init\<close> panics exactly when the size is zero or not a multiple of 16; otherwise it
  returns 0, and for a region of less than 4 GiB that neither starts at address 0 nor reaches the
  end of the address space the result is a well-formed heap with one free segment.
\<close>

theorem miniheap_init_correct:
  "(if unat sz = 0 \<or> \<not> 16 dvd unat sz
    then miniheap_init h m base sz = Inl (Panic (''miniheap_init: invalid size'' @ newline))
    else \<exists>h' m'. miniheap_init h m base sz = Inr (0, h', m') \<and> mh_base h' = base \<and> mh_size h' = sz \<and>
      (base \<noteq> NULL \<and> unat sz < 4294967296 \<and> unat base + unat sz < 18446744073709551616 \<longrightarrow>
        heap_rep h' m' [Free (unat sz)]))"
proof (cases "unat sz = 0 \<or> \<not> 16 dvd unat sz")
  case True
  have "miniheap_init h m base sz = Inl (Panic (''miniheap_init: invalid size'' @ newline))"
    if "sz \<noteq> 0" "\<not> 16 dvd unat sz"
    using that and_15_zero [of sz] by (simp add: miniheap_init_def MINIHEAP_ALIGNMENT_def)
  with True show ?thesis by (auto simp: unat_eq_zero miniheap_init_def)
next
  case False
  then have "0 < unat sz" "16 dvd unat sz" by auto
  then show ?thesis using False init_rep [of sz base h m] miniheap_init_eq [of sz h m base] by auto
qed

theorem miniheap_init_correct_witness:
  "heap_rep demo_heap demo_mem [Free 128] \<and> mh_size demo_heap = 128"
  using miniheap_init_correct [of 128 no_heap "\<lambda>_. 0" "0x1000"] by (simp add: demo_init)

text \<open>
  The size computation is 32 bits wide: \<open>malloc\<close> cannot tell a request from the same request
  plus any multiple of 4 GiB, so \<open>malloc(0x100000010)\<close> returns a 16-byte block.
\<close>

theorem malloc_truncates_size:
  "malloc h m (sz + 4294967296 * k) = malloc h m sz"
proof -
  have "(ucast (4294967296 * k :: u64) :: u32) = 0"
  proof (rule bit_word_eqI)
    fix i assume "i < LENGTH(32)"
    moreover have "4294967296 * k = push_bit 32 k" by (simp add: push_bit_eq_mult)
    ultimately show "bit (ucast (4294967296 * k) :: u32) i = bit 0 i" by (auto simp: bit_simps)
  qed
  then have "round_up_size (align h) (sz + 4294967296 * k) = round_up_size (align h) sz"
    by (intro round_up_size_low) (simp add: low32_add)
  then show ?thesis by (simp add: malloc_def miniheap_alloc_def)
qed

text \<open>
  C8. The sixteen sizes from \<open>0xFFFFFFE1\<close> to \<open>0xFFFFFFF0\<close> destroy the heap: adding the header
  wraps the total to zero, \<open>malloc\<close> reports success with a pointer into the first free block, marks
  that block as in use with size zero while it stays at the head of the free list, and no tiling
  represents the heap any more.
\<close>

theorem malloc_wrap_corrupts:
  assumes rep: "heap_rep h m xs" and free: "has_free xs"
    and sz: "4294967265 \<le> unat sz" "unat sz \<le> 4294967280"
  shows "\<exists>h' m'. malloc h m sz = Some (h', m', free_list h + 16) \<and> free_list h' = free_list h \<and>
    blk_size m' (free_list h) = 0 \<and> (\<forall>xs'. \<not> heap_rep h' m' xs')"
proof -
  have r: "heap_path m (unat (mh_base h)) (free_list h) xs NULL" "segs_ok xs" "segs_size xs < 4294967296"
    "align h = MINIHEAP_ALIGNMENT" "0 < unat (mh_base h)" "unat (mh_base h) + segs_size xs < 18446744073709551616"
    using rep by (simp_all add: heap_rep_def)
  have nn: "free_list h \<noteq> NULL" using path_has_free [OF r(1) free r(5,6)] .
  from alloc_wrapped [OF nn path_first_size [OF r(1) nn r(2,3)] r(4) sz]
  obtain h' m' where call: "malloc h m sz = Some (h', m', free_list h + 16)" "free_list h' = free_list h"
    and bad: "blk_magic m' (free_list h) = MINIHEAP_MAGIC_USED" "blk_size m' (free_list h) = 0"
    unfolding malloc_def by blast
  have "\<not> heap_rep h' m' xs'" for xs'
    using path_first_free [of m' "unat (mh_base h')" "free_list h'" xs'] nn bad(1) call(2)
    by (auto simp: heap_rep_def MINIHEAP_MAGIC_FREE_def MINIHEAP_MAGIC_USED_def)
  with call bad show ?thesis by blast
qed

theorem malloc_wrap_corrupts_witness:
  "\<exists>h' m'. malloc demo_heap demo_mem 0xFFFFFFF0 = Some (h', m', 0x1010) \<and> (\<forall>xs'. \<not> heap_rep h' m' xs')"
  using malloc_wrap_corrupts [OF demo_rep, of "0xFFFFFFF0"] by (auto simp: demo_heap_def)

end
