(* ===== verification/Rand.thy ===== *)
theory Rand
  imports Prelude
begin

text \<open>
  The generator of \<^verbatim>\<open>src/src/libc/rand.c\<close>: its state is the static \<open>next\<close>, a 64-bit word.
\<close>

definition rand_initial :: u64 where "rand_initial = 0xDEADBEEF"

definition rand :: "u64 \<Rightarrow> int \<times> u64" where
  "rand nxt =
     (let nxt = (nxt * 0x1234 + 12345) * nxt
      in (uint ((ucast (nxt div 65536) :: u32) mod 32768), nxt))"

definition srand :: "u32 \<Rightarrow> u64" where
  "srand seed = ucast seed"

text \<open>The values of the next \<open>n\<close> calls of \<open>rand\<close>.\<close>

fun rands :: "nat \<Rightarrow> u64 \<Rightarrow> int list" where
  "rands 0 nxt = []"
| "rands (Suc n) nxt = (let (r, nxt) = rand nxt in r # rands n nxt)"

lemma rand_range: "0 \<le> fst (rand nxt) \<and> fst (rand nxt) < 32768"
proof -
  have "uint ((ucast ((nxt * 0x1234 + 12345) * nxt div 65536) :: u32) mod 32768) =
      uint (ucast ((nxt * 0x1234 + 12345) * nxt div 65536) :: u32) mod 32768"
    by (simp add: uint_mod)
  then show ?thesis by (simp add: rand_def Let_def)
qed

lemma rands_range: "r \<in> set (rands n nxt) \<Longrightarrow> 0 \<le> r \<and> r < 32768"
  using rand_range by (induction n arbitrary: nxt) (auto simp: Let_def split: prod.splits, (metis fst_conv)+)

lemma rand_zero: "rand 0 = (0, 0)"
  by (simp add: rand_def)

lemma rands_zero: "rands n 0 = replicate n 0"
  by (induction n) (simp_all add: rand_zero)

end
