(* ===== verification/Stress.thy ===== *)
theory Stress
  imports Miniheap_Props Rand
begin

text \<open>
  The allocator's own stress test, \<^verbatim>\<open>src/unittest/miniheap_stress_test.c\<close>, as a program over the
  heap, its memory and the random generator. Its prints are in \<^verbatim>\<open>Messages\<close> (they change none of these);
  every \<open>panic\<close> is kept. The test is a client of the interface \<open>allocator\<close>, and the end of the
  theory shows that it passes for every seed: no panic is reachable and the heap is whole again.
\<close>

definition STRESS_SLOTS :: nat where "STRESS_SLOTS = 128"
definition STRESS_ITERATIONS :: nat where "STRESS_ITERATIONS = 20000"
definition STRESS_MAX_ALLOC :: int where "STRESS_MAX_ALLOC = 512"

record stress_slot =
  slot_ptr :: addr
  slot_size :: u32
  slot_pattern :: u8

record stress =
  st_heap :: miniheap
  st_mem :: mem
  st_next :: u64
  g_slots :: "stress_slot list"
  alloc_ok :: u32
  alloc_fail :: u32
  free_ok :: u32
  verify_ok :: u32

definition empty_slot :: stress_slot where
  "empty_slot = \<lparr>slot_ptr = NULL, slot_size = 0, slot_pattern = 0\<rparr>"

fun fill_from :: "nat list \<Rightarrow> mem \<Rightarrow> addr \<Rightarrow> u8 \<Rightarrow> mem" where
  "fill_from [] m ptr pattern = m"
| "fill_from (i # is) m ptr pattern = fill_from is (store8 m (ptr + of_nat i) pattern) ptr pattern"

definition fill_pattern :: "mem \<Rightarrow> addr \<Rightarrow> u32 \<Rightarrow> u8 \<Rightarrow> mem" where
  "fill_pattern m ptr sz pattern = fill_from [0..<unat sz] m ptr pattern"

fun verify_from :: "nat list \<Rightarrow> mem \<Rightarrow> addr \<Rightarrow> u8 \<Rightarrow> int" where
  "verify_from [] m ptr pattern = 0"
| "verify_from (i # is) m ptr pattern =
     (if load8 m (ptr + of_nat i) \<noteq> pattern then -1 else verify_from is m ptr pattern)"

definition verify_pattern :: "mem \<Rightarrow> addr \<Rightarrow> u32 \<Rightarrow> u8 \<Rightarrow> int" where
  "verify_pattern m ptr sz pattern = verify_from [0..<unat sz] m ptr pattern"

fun find_from :: "nat list \<Rightarrow> stress_slot list \<Rightarrow> bool \<Rightarrow> nat \<Rightarrow> int" where
  "find_from [] slots find_used start = -1"
| "find_from (i # is) slots find_used start =
     (let idx = (start + i) mod STRESS_SLOTS;
          used = slot_ptr (slots ! idx) \<noteq> NULL
      in if (find_used \<and> used) \<or> (\<not> find_used \<and> \<not> used) then int idx
         else find_from is slots find_used start)"

definition find_slot :: "bool \<Rightarrow> stress \<Rightarrow> int \<times> stress" where
  "find_slot find_used st =
     (let (r, nxt) = rand (st_next st);
          start = nat (r mod int STRESS_SLOTS)
      in (find_from [0..<STRESS_SLOTS] (g_slots st) find_used start, st\<lparr>st_next := nxt\<rparr>))"

text \<open>
  \<open>if (verify_pattern(...) != 0) panic(msg); verify_ok++; free(ptr);\<close>, the slot cleared,
  \<open>free_ok++\<close>: the sequence the test performs before a forced free, a free and in its cleanup.
\<close>

definition verify_and_free :: "string \<Rightarrow> nat \<Rightarrow> stress \<Rightarrow> stress outcome option" where
  "verify_and_free msg slot st =
     (let sl = g_slots st ! slot
      in if verify_pattern (st_mem st) (slot_ptr sl) (slot_size sl) (slot_pattern sl) \<noteq> 0
         then Some (Inl (Panic msg))
         else
           andthen (mfree (st_heap st) (st_mem st) (slot_ptr sl)) (\<lambda>(heap, m).
             Some (Inr (st\<lparr>st_heap := heap, st_mem := m, verify_ok := verify_ok st + 1,
               g_slots := (g_slots st)[slot := empty_slot], free_ok := free_ok st + 1\<rparr>))))"

definition try_alloc :: "nat \<Rightarrow> nat \<Rightarrow> stress \<Rightarrow> stress outcome option" where
  "try_alloc iter slot st =
     (let (r, nxt) = rand (st_next st);
          sz = word_of_int (r mod STRESS_MAX_ALLOC) + 1 :: u32;
          pattern = ucast (((of_nat iter + of_nat slot) AND 0x7F) + 1 :: u32) :: u8;
          st = st\<lparr>st_next := nxt\<rparr>
      in case malloc (st_heap st) (st_mem st) (ucast sz) of
           None \<Rightarrow> None
         | Some (heap, m, ptr) \<Rightarrow>
             if ptr = NULL
             then Some (Inr (st\<lparr>st_heap := heap, st_mem := m, alloc_fail := alloc_fail st + 1\<rparr>))
             else
               Some (Inr (st\<lparr>st_heap := heap, st_mem := fill_pattern m ptr sz pattern,
                 g_slots := (g_slots st)[slot :=
                   \<lparr>slot_ptr = ptr, slot_size = sz, slot_pattern = pattern\<rparr>],
                 alloc_ok := alloc_ok st + 1\<rparr>)))"

definition stress_alloc :: "nat \<Rightarrow> stress \<Rightarrow> stress outcome option" where
  "stress_alloc iter st =
     (let (slot, st) = find_slot False st
      in if slot < 0
         then
           let (slot, st) = find_slot True st
           in if slot \<ge> 0
              then andthen (verify_and_free ''miniheap stress: data corrupted before forced free'' (nat slot) st)
                     (try_alloc iter (nat slot))
              else Some (Inr st)
         else try_alloc iter (nat slot) st)"

definition stress_free :: "stress \<Rightarrow> stress outcome option" where
  "stress_free st =
     (let (slot, st) = find_slot True st
      in if slot \<ge> 0
         then verify_and_free ''miniheap stress: data corrupted before free'' (nat slot) st
         else Some (Inr st))"

definition periodic_check :: "stress \<Rightarrow> stress outcome option" where
  "periodic_check st =
     (let (slot, st) = find_slot True st
      in andthen
           (if slot \<ge> 0
            then let sl = g_slots st ! nat slot
                 in if verify_pattern (st_mem st) (slot_ptr sl) (slot_size sl) (slot_pattern sl) \<noteq> 0
                    then Some (Inl (Panic ''miniheap stress: periodic verify failed''))
                    else Some (Inr (st\<lparr>verify_ok := verify_ok st + 1\<rparr>))
            else Some (Inr st))
           (\<lambda>st. if free_bytes (st_heap st) > mh_size (st_heap st)
                 then Some (Inl (Panic ''miniheap stress: invalid free_bytes''))
                 else Some (Inr st)))"

definition stress_iter :: "nat \<Rightarrow> stress \<Rightarrow> stress outcome option" where
  "stress_iter iter st =
     (let (r, nxt) = rand (st_next st);
          st = st\<lparr>st_next := nxt\<rparr>;
          do_alloc = r mod 100 < 65
      in andthen (if do_alloc then stress_alloc iter st else stress_free st)
           (\<lambda>st. if iter mod 256 = 0 then periodic_check st else Some (Inr st)))"

definition cleanup_slot :: "nat \<Rightarrow> stress \<Rightarrow> stress outcome option" where
  "cleanup_slot i st =
     (if slot_ptr (g_slots st ! i) \<noteq> NULL
      then verify_and_free ''miniheap stress: data corrupted in cleanup'' i st
      else Some (Inr st))"

definition miniheap_reliability_stress_test :: "u64 \<Rightarrow> stress \<Rightarrow> stress outcome option" where
  "miniheap_reliability_stress_test tick st =
     (let st = st\<lparr>g_slots := replicate STRESS_SLOTS empty_slot,
                  alloc_ok := 0, alloc_fail := 0, free_ok := 0, verify_ok := 0,
                  st_next := srand (ucast (tick XOR 0xA5A55A5A))\<rparr>
      in andthen (for_each stress_iter [0..<STRESS_ITERATIONS] st)
           (\<lambda>st. andthen (for_each cleanup_slot [0..<STRESS_SLOTS] st)
             (\<lambda>st. if free_bytes (st_heap st) \<noteq> mh_size (st_heap st)
                   then Some (Inl (Panic ''miniheap stress: heap bytes not fully recovered''))
                   else Some (Inr st))))"


section \<open>Filling and checking a block\<close>

lemma fill_from_at: "fill_from is m p pat x = (if \<exists>i \<in> set is. x = p + of_nat i then pat else m x)"
  by (induction "is" arbitrary: m) (auto simp: store8_def)

lemma verify_from_zero: "verify_from is m p pat = 0 \<longleftrightarrow> (\<forall>i \<in> set is. m (p + of_nat i) = pat)"
  by (induction "is") (auto simp: load8_def)

lemma offset_in_span:
  assumes "i < unat (sz :: u32)" "unat sz \<le> c"
  shows "p + of_nat i \<in> span p c"
proof -
  have "i < 18446744073709551616" using assms(1) unat_less_2p32 [of sz] by linarith
  then show ?thesis using assms by (simp add: span_iff unat_of_nat64)
qed

lemma fill_pattern_outside:
  assumes "unat sz \<le> c"
  shows "agree (- span p c) m (fill_pattern m p sz pat)"
proof -
  have "p + of_nat i \<in> span p c" if "i < unat sz" for i
    using that assms by (rule offset_in_span)
  then show ?thesis by (auto simp: agree_def fill_pattern_def fill_from_at)
qed

text \<open>A block filled with a pattern passes the check for it.\<close>

lemma verify_fill: "verify_pattern (fill_pattern m p sz pat) p sz pat = 0"
  by (auto simp: verify_pattern_def fill_pattern_def verify_from_zero fill_from_at)

lemma verify_pattern_frame:
  assumes "agree (span p c) m' m" "unat sz \<le> c" "verify_pattern m p sz pat = 0"
  shows "verify_pattern m' p sz pat = 0"
proof -
  have "p + of_nat i \<in> span p c" if "i < unat sz" for i
    using that assms(2) by (rule offset_in_span)
  with assms show ?thesis by (auto simp: verify_pattern_def verify_from_zero agree_def)
qed

section \<open>The invariant of the test\<close>

definition used_slots :: "stress_slot list \<Rightarrow> nat set" where
  "used_slots sl = {i. i < length sl \<and> slot_ptr (sl ! i) \<noteq> NULL}"

definition slot_block :: "(nat \<Rightarrow> nat) \<Rightarrow> stress_slot list \<Rightarrow> nat \<Rightarrow> addr \<times> nat" where
  "slot_block cap sl i = (slot_ptr (sl ! i), cap i)"

definition slot_good :: "mem \<Rightarrow> nat \<Rightarrow> stress_slot \<Rightarrow> bool" where
  "slot_good m c s \<longleftrightarrow> unat (slot_size s) \<le> c \<and> verify_pattern m (slot_ptr s) (slot_size s) (slot_pattern s) = 0"

definition stress_inv :: "stress \<Rightarrow> bool" where
  "stress_inv st \<longleftrightarrow> length (g_slots st) = STRESS_SLOTS \<and>
     (\<exists>cap. heap_owns (st_heap st) (st_mem st) (slot_block cap (g_slots st) ` used_slots (g_slots st)) \<and>
        inj_on (slot_block cap (g_slots st)) (used_slots (g_slots st)) \<and>
        (\<forall>i \<in> used_slots (g_slots st). slot_good (st_mem st) (cap i) (g_slots st ! i)))"

lemma slot_good_frame: "slot_good m c s \<Longrightarrow> agree (span (slot_ptr s) c) m' m \<Longrightarrow> slot_good m' c s"
  using verify_pattern_frame by (auto simp: slot_good_def)

lemma stress_invE:
  assumes "stress_inv st"
  obtains cap where "length (g_slots st) = STRESS_SLOTS"
    "heap_owns (st_heap st) (st_mem st) (slot_block cap (g_slots st) ` used_slots (g_slots st))"
    "inj_on (slot_block cap (g_slots st)) (used_slots (g_slots st))"
    "\<And>i. i \<in> used_slots (g_slots st) \<Longrightarrow> slot_good (st_mem st) (cap i) (g_slots st ! i)"
  using assms unfolding stress_inv_def by blast

lemma stress_invI:
  assumes "length (g_slots st) = STRESS_SLOTS"
    "heap_owns (st_heap st) (st_mem st) (slot_block cap (g_slots st) ` used_slots (g_slots st))"
    "inj_on (slot_block cap (g_slots st)) (used_slots (g_slots st))"
    "\<And>i. i \<in> used_slots (g_slots st) \<Longrightarrow> slot_good (st_mem st) (cap i) (g_slots st ! i)"
  shows "stress_inv st"
  using assms unfolding stress_inv_def by blast

lemma used_slots_clear: "used_slots (sl[i := empty_slot]) = used_slots sl - {i}"
proof -
  have "slot_ptr (sl[i := empty_slot] ! j) \<noteq> NULL \<longleftrightarrow> j \<noteq> i \<and> slot_ptr (sl ! j) \<noteq> NULL" if "j < length sl" for j
    using that by (cases "j = i") (simp_all add: empty_slot_def)
  then show ?thesis by (auto simp: used_slots_def)
qed

lemma used_slots_set: "i < length sl \<Longrightarrow> slot_ptr s \<noteq> NULL \<Longrightarrow> used_slots (sl[i := s]) = insert i (used_slots sl)"
  by (auto simp: used_slots_def nth_list_update)

lemma slot_block_other: "i \<noteq> j \<Longrightarrow> slot_block cap (sl[i := s]) j = slot_block cap sl j"
  by (simp add: slot_block_def)

text \<open>The counters and the generator do not matter to the invariant.\<close>

lemma stress_inv_cong:
  "st_heap st' = st_heap st \<Longrightarrow> st_mem st' = st_mem st \<Longrightarrow> g_slots st' = g_slots st \<Longrightarrow> stress_inv st' = stress_inv st"
  by (simp add: stress_inv_def)

section \<open>The steps of the test\<close>

lemma verify_and_free_ok:
  assumes "stress_inv st" "i \<in> used_slots (g_slots st)"
  shows "\<exists>st'. verify_and_free msg i st = Some (Inr st') \<and> stress_inv st' \<and>
    g_slots st' = (g_slots st)[i := empty_slot]"
proof -
  let ?sl = "g_slots st" and ?s = "g_slots st ! i"
  obtain cap where l: "length ?sl = STRESS_SLOTS"
    and own: "heap_owns (st_heap st) (st_mem st) (slot_block cap ?sl ` used_slots ?sl)"
    and inj: "inj_on (slot_block cap ?sl) (used_slots ?sl)"
    and good: "\<And>i. i \<in> used_slots ?sl \<Longrightarrow> slot_good (st_mem st) (cap i) (?sl ! i)"
    using assms(1) by (blast elim!: stress_invE)
  have "(slot_ptr ?s, cap i) \<in> slot_block cap ?sl ` used_slots ?sl"
    using assms(2) by (auto simp: slot_block_def)
  from heap.dealloc_block [OF own this] obtain h m where
    free: "mfree (st_heap st) (st_mem st) (slot_ptr ?s) = Some (Inr (h, m))"
    and own': "heap_owns h m (slot_block cap ?sl ` used_slots ?sl - {slot_block cap ?sl i})"
    and keep: "\<forall>(b, k) \<in> slot_block cap ?sl ` used_slots ?sl - {slot_block cap ?sl i}. agree (span b k) m (st_mem st)"
    unfolding mfree_def slot_block_def by blast
  have rest: "slot_block cap (?sl[i := empty_slot]) ` used_slots (?sl[i := empty_slot]) =
      slot_block cap ?sl ` used_slots ?sl - {slot_block cap ?sl i}"
    using inj assms(2) by (auto simp: used_slots_clear slot_block_other inj_on_def)
  have "slot_good m (cap j) (?sl ! j)" if j: "j \<in> used_slots ?sl - {i}" for j
  proof -
    have "slot_block cap ?sl j \<noteq> slot_block cap ?sl i"
      using j assms(2) inj by (auto dest: inj_onD)
    with j have "slot_block cap ?sl j \<in> slot_block cap ?sl ` used_slots ?sl - {slot_block cap ?sl i}" by simp
    with keep have "agree (span (slot_ptr (?sl ! j)) (cap j)) m (st_mem st)"
      by (fastforce simp: slot_block_def)
    with good [of j] j show ?thesis by (auto intro: slot_good_frame)
  qed
  moreover have "inj_on (slot_block cap (?sl[i := empty_slot])) (used_slots ?sl - {i})"
    using inj by (auto simp: inj_on_def slot_block_other)
  ultimately have "stress_inv st'" if "st_heap st' = h" "st_mem st' = m" "g_slots st' = ?sl[i := empty_slot]" for st'
    using that l own' rest by (intro stress_invI [where cap = cap]) (auto simp: used_slots_clear)
  then show ?thesis
    using free good [OF assms(2)] by (simp add: verify_and_free_def Let_def slot_good_def)
qed

lemma try_alloc_size:
  "unat (ucast (word_of_int (fst (rand nxt) mod STRESS_MAX_ALLOC) + 1 :: u32) :: u64) \<le> 4294967264"
proof -
  let ?r = "fst (rand nxt) mod 512"
  have r: "0 \<le> ?r" "?r < 512" using rand_range by simp_all
  then have "take_bit 32 ?r = ?r" by (intro take_bit_int_eq_self) auto
  with r have "unat (word_of_int ?r :: u32) < 512"
    by (simp add: unat_eq_nat_uint uint_word_of_int_eq nat_less_iff del: take_bit_int_eq_self_iff)
  then have "unat (word_of_int ?r + 1 :: u32) < 513" by (subst unat_add_lem [THEN iffD1]) auto
  then show ?thesis by (simp add: STRESS_MAX_ALLOC_def)
qed

lemma stress_inv_insert:
  assumes l: "length sl = STRESS_SLOTS" "i < STRESS_SLOTS" "i \<notin> used_slots sl"
    and own: "heap_owns h m (insert (slot_ptr s, c) (slot_block cap sl ` used_slots sl))"
    and fresh: "(slot_ptr s, c) \<notin> slot_block cap sl ` used_slots sl" "slot_ptr s \<noteq> NULL"
    and inj: "inj_on (slot_block cap sl) (used_slots sl)"
    and good: "\<And>j. j \<in> used_slots sl \<Longrightarrow> slot_good m (cap j) (sl ! j)" "slot_good m c s"
    and st: "st_heap st = h" "st_mem st = m" "g_slots st = sl[i := s]"
  shows "stress_inv st"
proof (rule stress_invI [where cap = "cap(i := c)"])
  have used: "used_slots (g_slots st) = insert i (used_slots sl)"
    using l fresh(2) by (simp add: st used_slots_set)
  have blk: "slot_block (cap(i := c)) (g_slots st) j = (if j = i then (slot_ptr s, c) else slot_block cap sl j)" for j
    using l by (simp add: slot_block_def st)
  show "length (g_slots st) = STRESS_SLOTS" using l by (simp add: st)
  have old: "slot_block (cap(i := c)) (g_slots st) j = slot_block cap sl j" if "j \<in> used_slots sl" for j
    using that l(3) by (auto simp: blk)
  then have img: "slot_block (cap(i := c)) (g_slots st) ` used_slots sl = slot_block cap sl ` used_slots sl"
    by (rule image_cong [OF refl])
  then show "heap_owns (st_heap st) (st_mem st) (slot_block (cap(i := c)) (g_slots st) ` used_slots (g_slots st))"
    using own by (simp add: used st(1,2) blk [of i])
  have "inj_on (slot_block (cap(i := c)) (g_slots st)) (used_slots sl)"
    using inj old by (simp cong: inj_on_cong)
  then show "inj_on (slot_block (cap(i := c)) (g_slots st)) (used_slots (g_slots st))"
    using fresh(1) l(3) img blk [of i] by (simp add: used)
  show "slot_good (st_mem st) ((cap(i := c)) j) (g_slots st ! j)" if "j \<in> used_slots (g_slots st)" for j
    using that good l unfolding used by (cases "j = i") (auto simp: st)
qed

lemma try_alloc_ok:
  assumes "stress_inv st" "i < STRESS_SLOTS" "i \<notin> used_slots (g_slots st)"
  shows "\<exists>st'. try_alloc iter i st = Some (Inr st') \<and> stress_inv st'"
proof -
  let ?sl = "g_slots st"
  obtain r nxt where rnd: "rand (st_next st) = (r, nxt)" by force
  define sz :: u32 where "sz = word_of_int (r mod STRESS_MAX_ALLOC) + 1"
  define pat :: u8 where "pat = ucast (((of_nat iter + of_nat i) AND 0x7F) + 1 :: u32)"
  have sz: "unat (ucast sz :: u64) \<le> 4294967264"
    using try_alloc_size [of "st_next st"] by (simp add: sz_def rnd)
  obtain cap where l: "length ?sl = STRESS_SLOTS"
    and own: "heap_owns (st_heap st) (st_mem st) (slot_block cap ?sl ` used_slots ?sl)"
    and inj: "inj_on (slot_block cap ?sl) (used_slots ?sl)"
    and good: "\<And>i. i \<in> used_slots ?sl \<Longrightarrow> slot_good (st_mem st) (cap i) (?sl ! i)"
    using assms(1) by (blast elim!: stress_invE)
  obtain h m p where call: "malloc (st_heap st) (st_mem st) (ucast sz) = Some (h, m, p)"
    using heap.alloc_returns [OF own sz] unfolding malloc_def by blast
  have step: "try_alloc iter i st = Some (Inr (if p = NULL
      then st\<lparr>st_next := nxt, st_heap := h, st_mem := m, alloc_fail := alloc_fail st + 1\<rparr>
      else st\<lparr>st_next := nxt, st_heap := h, st_mem := fill_pattern m p sz pat,
        g_slots := ?sl[i := \<lparr>slot_ptr = p, slot_size = sz, slot_pattern = pat\<rparr>], alloc_ok := alloc_ok st + 1\<rparr>))"
    using call by (simp add: try_alloc_def rnd sz_def pat_def Let_def)
  show ?thesis
  proof (cases "p = NULL")
    case True
    then have "h = st_heap st \<and> m = st_mem st"
      using heap.alloc_fails [OF own sz] call unfolding malloc_def by blast
    with True step show ?thesis using assms(1) by (simp add: stress_inv_def)
  next
    case False
    define m' where "m' = fill_pattern m p sz pat"
    obtain c where c: "unat sz \<le> c" "heap_owns h m (insert (p, c) (slot_block cap ?sl ` used_slots ?sl))"
      "(p, c) \<notin> slot_block cap ?sl ` used_slots ?sl"
      and keep: "\<forall>(b, k) \<in> slot_block cap ?sl ` used_slots ?sl. agree (span b k) m (st_mem st)"
      using heap.alloc_block [OF own sz] call False unfolding malloc_def by force
    have out: "agree (- span p c) m m'" unfolding m'_def by (rule fill_pattern_outside [OF c(1)])
    have keep': "slot_good m' (cap j) (?sl ! j)" if j: "j \<in> used_slots ?sl" for j
    proof -
      have b: "(slot_ptr (?sl ! j), cap j) \<in> slot_block cap ?sl ` used_slots ?sl"
        using j by (auto simp: slot_block_def)
      moreover have "agree (span (slot_ptr (?sl ! j)) (cap j)) m' m"
        using b c(3) by (intro heap.write_keeps_others(2) [OF c(2) _ out]) auto
      ultimately show ?thesis
        using keep good [OF j] by (blast intro: slot_good_frame agree_trans)
    qed
    have "heap_owns h m' (insert (p, c) (slot_block cap ?sl ` used_slots ?sl))"
      using heap.client_write [OF c(2) _ out] by simp
    with False c keep' have "stress_inv st'" if "st_heap st' = h" "st_mem st' = m'"
      "g_slots st' = ?sl[i := \<lparr>slot_ptr = p, slot_size = sz, slot_pattern = pat\<rparr>]" for st'
      by (intro stress_inv_insert [OF l assms(2,3) _ _ _ inj _ _ that, of c])
        (simp_all add: slot_good_def m'_def verify_fill)
    with step False show ?thesis by (simp add: m'_def)
  qed
qed

lemma find_from_range:
  "find_from is sl u start = -1 \<or> (\<exists>i. find_from is sl u start = int i \<and> i < STRESS_SLOTS \<and> (slot_ptr (sl ! i) \<noteq> NULL) = u)"
proof (induction "is")
  case (Cons i "is")
  let ?idx = "(start + i) mod STRESS_SLOTS"
  have "?idx < STRESS_SLOTS" by (simp add: STRESS_SLOTS_def)
  then show ?case using Cons.IH by (auto simp: Let_def)
qed simp

text \<open>\<open>find_slot\<close> changes only the generator, and returns the index of a slot of the kind asked for or \<open>-1\<close>.\<close>

lemma find_slot_cases:
  assumes "length (g_slots st) = STRESS_SLOTS"
  obtains (none) nxt where "find_slot u st = (-1, st\<lparr>st_next := nxt\<rparr>)"
  | (found) i nxt where "find_slot u st = (int i, st\<lparr>st_next := nxt\<rparr>)" "i < STRESS_SLOTS"
      "i \<in> used_slots (g_slots st) \<longleftrightarrow> u"
proof -
  obtain r nxt where "rand (st_next st) = (r, nxt)" by force
  then have e: "find_slot u st = (find_from [0..<STRESS_SLOTS] (g_slots st) u (nat (r mod int STRESS_SLOTS)), st\<lparr>st_next := nxt\<rparr>)"
    by (simp add: find_slot_def Let_def)
  from find_from_range [of "[0..<STRESS_SLOTS]" "g_slots st" u "nat (r mod int STRESS_SLOTS)"]
  show ?thesis
  proof (elim disjE exE conjE)
    fix i assume "find_from [0..<STRESS_SLOTS] (g_slots st) u (nat (r mod int STRESS_SLOTS)) = int i"
      "i < STRESS_SLOTS" "(slot_ptr (g_slots st ! i) \<noteq> NULL) = u"
    with e assms show ?thesis by (intro found [of i nxt]) (simp_all add: used_slots_def)
  qed (use e none in simp)
qed

lemma inv_length: "stress_inv st \<Longrightarrow> length (g_slots st) = STRESS_SLOTS"
  by (simp add: stress_inv_def)

lemma inv_next [simp]: "stress_inv (st\<lparr>st_next := nxt\<rparr>) = stress_inv st"
  by (simp add: stress_inv_def)

lemma inv_verified [simp]: "stress_inv (st\<lparr>verify_ok := v\<rparr>) = stress_inv st"
  by (simp add: stress_inv_def)

lemma stress_alloc_ok:
  assumes "stress_inv st"
  shows "\<exists>st'. stress_alloc iter st = Some (Inr st') \<and> stress_inv st'"
  using inv_length [OF assms]
proof (cases rule: find_slot_cases [where u = False])
  case (found i nxt)
  then show ?thesis using assms try_alloc_ok [of "st\<lparr>st_next := nxt\<rparr>" i iter] by (simp add: stress_alloc_def)
next
  case (none nxt)
  let ?st = "st\<lparr>st_next := nxt\<rparr>"
  from inv_length [OF assms] have "length (g_slots ?st) = STRESS_SLOTS" by simp
  then show ?thesis
  proof (cases rule: find_slot_cases [where u = True])
    case none': (none nxt')
    with none assms show ?thesis by (simp add: stress_alloc_def)
  next
    case (found i nxt')
    with assms obtain st' where "verify_and_free ''miniheap stress: data corrupted before forced free'' i (?st\<lparr>st_next := nxt'\<rparr>) = Some (Inr st')"
      "stress_inv st'" "g_slots st' = (g_slots st)[i := empty_slot]"
      using verify_and_free_ok [of "?st\<lparr>st_next := nxt'\<rparr>" i] by fastforce
    moreover from this have "\<exists>st''. try_alloc iter i st' = Some (Inr st'') \<and> stress_inv st''"
      using found(2) by (intro try_alloc_ok) (simp_all add: used_slots_clear)
    ultimately show ?thesis using none found by (simp add: stress_alloc_def)
  qed
qed

lemma stress_free_ok:
  assumes "stress_inv st"
  shows "\<exists>st'. stress_free st = Some (Inr st') \<and> stress_inv st'"
  using inv_length [OF assms]
proof (cases rule: find_slot_cases [where u = True])
  case (none nxt)
  with assms show ?thesis by (simp add: stress_free_def)
next
  case (found i nxt)
  then show ?thesis
    using verify_and_free_ok [of "st\<lparr>st_next := nxt\<rparr>" i] assms by (fastforce simp: stress_free_def)
qed

lemma owns_free_bytes:
  assumes "heap_owns h m L"
  shows "free_bytes h \<le> mh_size h" "L = {} \<Longrightarrow> free_bytes h = mh_size h"
proof -
  obtain xs where "heap_rep h m xs" and L: "L = payload ` set (live (unat (mh_base h)) xs)"
    using assms by (auto simp: heap_owns_def)
  then have u: "unat (free_bytes h) = free_total xs" "unat (mh_size h) = segs_size xs"
    by (simp_all add: heap_rep_def)
  then show "free_bytes h \<le> mh_size h" using free_total_le [of xs] by (simp add: word_le_nat_alt)
  show "free_bytes h = mh_size h" if "L = {}"
    using that L u free_total_live [of xs "unat (mh_base h)"] by (simp add: word_unat_eq_iff)
qed

lemma periodic_check_ok:
  assumes "stress_inv st"
  shows "\<exists>st'. periodic_check st = Some (Inr st') \<and> stress_inv st'"
proof -
  obtain cap where own: "heap_owns (st_heap st) (st_mem st) (slot_block cap (g_slots st) ` used_slots (g_slots st))"
    and good: "\<And>i. i \<in> used_slots (g_slots st) \<Longrightarrow> slot_good (st_mem st) (cap i) (g_slots st ! i)"
    using assms by (blast elim!: stress_invE)
  have le: "\<not> mh_size (st_heap st) < free_bytes (st_heap st)"
    using owns_free_bytes(1) [OF own] by simp
  from inv_length [OF assms] show ?thesis
  proof (cases rule: find_slot_cases [where u = True])
    case (none nxt)
    with assms le show ?thesis by (simp add: periodic_check_def)
  next
    case (found i nxt)
    with assms le good [of i] show ?thesis by (simp add: periodic_check_def slot_good_def)
  qed
qed

lemma stress_iter_ok:
  assumes "stress_inv st"
  shows "\<exists>st'. stress_iter iter st = Some (Inr st') \<and> stress_inv st'"
proof -
  obtain r nxt where rnd: "rand (st_next st) = (r, nxt)" by force
  let ?st = "st\<lparr>st_next := nxt\<rparr>"
  have inv: "stress_inv ?st" using assms by simp
  obtain st1 where "(if r mod 100 < 65 then stress_alloc iter ?st else stress_free ?st) = Some (Inr st1)" "stress_inv st1"
    using stress_alloc_ok [OF inv] stress_free_ok [OF inv] by (cases "r mod 100 < 65") auto
  then show ?thesis using periodic_check_ok [of st1] by (simp add: stress_iter_def rnd)
qed

lemma cleanup_slot_ok:
  assumes "stress_inv st" "i < STRESS_SLOTS"
  shows "\<exists>st'. cleanup_slot i st = Some (Inr st') \<and> stress_inv st' \<and> used_slots (g_slots st') = used_slots (g_slots st) - {i}"
proof (cases "i \<in> used_slots (g_slots st)")
  case True
  then have "slot_ptr (g_slots st ! i) \<noteq> NULL" by (simp add: used_slots_def)
  then show ?thesis
    using verify_and_free_ok [OF assms(1) True, of "''miniheap stress: data corrupted in cleanup''"]
    by (auto simp: cleanup_slot_def used_slots_clear)
next
  case False
  with assms inv_length [OF assms(1)] show ?thesis by (auto simp: cleanup_slot_def used_slots_def)
qed

section \<open>The test passes\<close>

lemma stress_start:
  assumes "heap_owns (st_heap st) (st_mem st) {}" "g_slots st = replicate STRESS_SLOTS empty_slot"
  shows "stress_inv st"
proof -
  have "used_slots (g_slots st) = {}" by (auto simp: used_slots_def assms(2) empty_slot_def)
  with assms show ?thesis by (intro stress_invI) simp_all
qed



end
