(* ===== verification/CString.thy ===== *)
theory CString
  imports Memory
begin

text \<open>
  The string library of \<^verbatim>\<open>src/src/libc/string.c\<close> over byte memory. \<open>memcpy\<close> and \<open>memset\<close> work in
  64-bit steps with a byte-wise rest, as the code does; the loops that look for a terminating NUL
  byte are partial functions, \<open>None\<close> when there is none. \<open>cstr m s xs\<close> says that the string at \<open>s\<close>
  is \<open>xs\<close>. A \<open>char\<close> is unsigned on the target and is a byte here.
\<close>

section \<open>Copying and filling\<close>

definition copy64 :: "nat \<Rightarrow> mem \<Rightarrow> addr \<Rightarrow> addr \<Rightarrow> mem" where
  "copy64 steps m d s =
     fold (\<lambda>i m. store64 m (d + 8 * of_nat i) (load64 m (s + 8 * of_nat i))) [0..<steps] m"

definition copy8 :: "nat \<Rightarrow> mem \<Rightarrow> addr \<Rightarrow> addr \<Rightarrow> mem" where
  "copy8 remaining m d s =
     fold (\<lambda>i m. store8 m (d + of_nat i) (load8 m (s + of_nat i))) [0..<remaining] m"

definition memcpy :: "mem \<Rightarrow> addr \<Rightarrow> addr \<Rightarrow> u64 \<Rightarrow> mem \<times> addr" where
  "memcpy m dest src n =
     (let steps = drop_bit 3 n;
          m = copy64 (unat steps) m dest src;
          remaining = n AND 7
      in (copy8 (unat remaining) m (dest + 8 * steps) (src + 8 * steps), dest))"

definition word_c :: "u8 \<Rightarrow> u64" where
  "word_c c =
     (let byte_c = ucast c :: u64
      in push_bit 56 byte_c OR push_bit 48 byte_c OR push_bit 40 byte_c OR push_bit 32 byte_c OR
         push_bit 24 byte_c OR push_bit 16 byte_c OR push_bit 8 byte_c OR byte_c)"

definition memset :: "mem \<Rightarrow> addr \<Rightarrow> int \<Rightarrow> u64 \<Rightarrow> mem \<times> addr" where
  "memset m s c n =
     (let steps = drop_bit 3 n;
          byte_c = word_of_int c :: u8;
          m = fold (\<lambda>i m. store64 m (s + 8 * of_nat i) (word_c byte_c)) [0..<unat steps] m;
          remaining = n AND 7;
          p8 = s + 8 * steps
      in (fold (\<lambda>i m. store8 m (p8 + of_nat i) byte_c) [0..<unat remaining] m, s))"

section \<open>Comparing and measuring\<close>

partial_function (option) strcmp :: "mem \<Rightarrow> addr \<Rightarrow> addr \<Rightarrow> int option" where
  "strcmp m s1 s2 =
     (if load8 m s1 \<noteq> 0 \<and> load8 m s1 = load8 m s2 then strcmp m (s1 + 1) (s2 + 1)
      else Some (uint (load8 m s1) - uint (load8 m s2)))"

fun strncmp_from :: "nat list \<Rightarrow> mem \<Rightarrow> addr \<Rightarrow> addr \<Rightarrow> int" where
  "strncmp_from [] m s1 s2 = 0"
| "strncmp_from (i # is) m s1 s2 =
     (if load8 m (s1 + of_nat i) \<noteq> load8 m (s2 + of_nat i)
      then uint (load8 m (s1 + of_nat i)) - uint (load8 m (s2 + of_nat i))
      else if load8 m (s1 + of_nat i) = 0 then 0
      else strncmp_from is m s1 s2)"

definition strncmp :: "mem \<Rightarrow> addr \<Rightarrow> addr \<Rightarrow> u64 \<Rightarrow> int" where
  "strncmp m s1 s2 n = strncmp_from [0..<unat n] m s1 s2"

partial_function (option) strlen_from :: "mem \<Rightarrow> addr \<Rightarrow> u64 \<Rightarrow> u64 option" where
  "strlen_from m s len =
     (if load8 m (s + len) \<noteq> 0 then strlen_from m s (len + 1) else Some len)"

definition strlen :: "mem \<Rightarrow> addr \<Rightarrow> u64 option" where
  "strlen m s = strlen_from m s 0"

section \<open>Copying strings\<close>

text \<open>\<open>while ((*d++ = *src++) != '\0');\<close>\<close>

partial_function (option) strcpy_loop :: "mem \<Rightarrow> addr \<Rightarrow> addr \<Rightarrow> mem option" where
  "strcpy_loop m d src =
     (let c = load8 m src;
          m = store8 m d c
      in if c \<noteq> 0 then strcpy_loop m (d + 1) (src + 1) else Some m)"

definition strcpy :: "mem \<Rightarrow> addr \<Rightarrow> addr \<Rightarrow> (mem \<times> addr) option" where
  "strcpy m dest src = map_option (\<lambda>m. (m, dest)) (strcpy_loop m dest src)"

text \<open>\<open>for (i = 0; i < n && src[i] != '\0'; i++) d[i] = src[i];\<close>: the memory and the final \<open>i\<close>.\<close>

fun copy_upto :: "nat \<Rightarrow> mem \<Rightarrow> addr \<Rightarrow> addr \<Rightarrow> nat \<Rightarrow> mem \<times> nat" where
  "copy_upto 0 m d src i = (m, i)"
| "copy_upto (Suc r) m d src i =
     (if load8 m (src + of_nat i) \<noteq> 0
      then copy_upto r (store8 m (d + of_nat i) (load8 m (src + of_nat i))) d src (i + 1)
      else (m, i))"

definition strncpy :: "mem \<Rightarrow> addr \<Rightarrow> addr \<Rightarrow> u64 \<Rightarrow> mem \<times> addr" where
  "strncpy m dest src n =
     (let (m, i) = copy_upto (unat n) m dest src 0
      in (fold (\<lambda>i m. store8 m (dest + of_nat i) 0) [i..<unat n] m, dest))"

text \<open>\<open>while (*d != '\0') d++;\<close>\<close>

partial_function (option) str_end :: "mem \<Rightarrow> addr \<Rightarrow> addr option" where
  "str_end m d = (if load8 m d \<noteq> 0 then str_end m (d + 1) else Some d)"

definition strcat :: "mem \<Rightarrow> addr \<Rightarrow> addr \<Rightarrow> (mem \<times> addr) option" where
  "strcat m dest src =
     (case str_end m dest of
        None \<Rightarrow> None
      | Some d \<Rightarrow> map_option (\<lambda>m. (m, dest)) (strcpy_loop m d src))"

definition strncat :: "mem \<Rightarrow> addr \<Rightarrow> addr \<Rightarrow> u64 \<Rightarrow> (mem \<times> addr) option" where
  "strncat m dest src n =
     (case str_end m dest of
        None \<Rightarrow> None
      | Some d \<Rightarrow>
          (let (m, i) = copy_upto (unat n) m d src 0
           in Some (store8 m (d + of_nat i) 0, dest)))"

section \<open>Searching\<close>

text \<open>The inner loop of \<open>strstr\<close>: it returns the final \<open>n\<close>.\<close>

partial_function (option) match_loop :: "mem \<Rightarrow> addr \<Rightarrow> addr \<Rightarrow> addr option" where
  "match_loop m h n =
     (if load8 m h \<noteq> 0 \<and> load8 m n \<noteq> 0 \<and> load8 m h = load8 m n
      then match_loop m (h + 1) (n + 1) else Some n)"

partial_function (option) strstr_loop :: "mem \<Rightarrow> addr \<Rightarrow> addr \<Rightarrow> addr option" where
  "strstr_loop m haystack needle =
     (if load8 m haystack = 0 then Some NULL
      else if load8 m haystack = load8 m needle
      then case match_loop m haystack needle of
             None \<Rightarrow> None
           | Some n \<Rightarrow>
               if load8 m n = 0 then Some haystack else strstr_loop m (haystack + 1) needle
      else strstr_loop m (haystack + 1) needle)"

definition strstr :: "mem \<Rightarrow> addr \<Rightarrow> addr \<Rightarrow> addr option" where
  "strstr m haystack needle =
     (if load8 m needle = 0 then Some haystack else strstr_loop m haystack needle)"

section \<open>Bytes of a 64-bit access\<close>

lemma small_offset:
  assumes "unat (x - a) < 8"
  obtains "x = a" | "x = a + 1" | "x = a + 2" | "x = a + 3" | "x = a + 4" | "x = a + 5" | "x = a + 6" | "x = a + 7"
proof -
  have e: "x = a + of_nat (unat (x - a))" by simp
  from assms consider "unat (x - a) = 0" | "unat (x - a) = 1" | "unat (x - a) = 2" | "unat (x - a) = 3"
    | "unat (x - a) = 4" | "unat (x - a) = 5" | "unat (x - a) = 6" | "unat (x - a) = 7" by linarith
  then show ?thesis using that e by cases simp_all
qed

lemma store64_bytes:
  "store64 m a v x = (if unat (x - a) < 8 then ucast (drop_bit (8 * unat (x - a)) v) else m x)"
proof (cases "unat (x - a) < 8")
  case True
  then show ?thesis
    by (cases rule: small_offset) (auto simp: store64_def store32_def intro!: bit_word_eqI simp: bit_simps)
qed (simp add: store64_outside span_iff)

lemma bit8_high: "8 \<le> n \<Longrightarrow> \<not> bit (b :: u8) n"
  using bit_imp_le_length [of b n] by auto

lemma load64_bytes:
  assumes "unat k < 8"
  shows "(ucast (drop_bit (8 * unat k) (load64 m s)) :: u8) = m (s + k)"
proof -
  have c: "s + 4 + 1 = s + 5" "s + 4 + 2 = s + 6" "s + 4 + 3 = s + 7" by simp_all
  have k: "unat (k - 0) < 8" using assms by simp
  show ?thesis
  proof (rule bit_word_eqI)
    fix n assume n: "n < LENGTH(8)"
    show "bit (ucast (drop_bit (8 * unat k) (load64 m s)) :: u8) n = bit (m (s + k)) n"
      using k n unfolding load64_def load32_def c by (cases rule: small_offset) (simp_all add: bit_simps bit8_high)
  qed
qed

lemma copy64_step:
  "store64 m d (load64 m s) = (\<lambda>x. if unat (x - d) < 8 then m (s + (x - d)) else m x)"
  by (auto simp: store64_bytes load64_bytes)

lemma word_c_bytes:
  assumes "unat (k :: u64) < 8"
  shows "(ucast (drop_bit (8 * unat k) (word_c c)) :: u8) = c"
proof (rule bit_word_eqI)
  have k: "unat (k - 0) < 8" using assms by simp
  fix n assume "n < LENGTH(8)"
  with k show "bit (ucast (drop_bit (8 * unat k) (word_c c)) :: u8) n = bit c n"
    unfolding word_c_def Let_def by (cases rule: small_offset) (simp_all add: bit_simps bit8_high)
qed

section \<open>Block operations on memory\<close>

text \<open>The bytes of \<open>[d, d + n)\<close> replaced by those of \<open>g\<close>, counted from \<open>d\<close>.\<close>

definition blit :: "addr \<Rightarrow> nat \<Rightarrow> (addr \<Rightarrow> u8) \<Rightarrow> mem \<Rightarrow> mem" where
  "blit d n g m = (\<lambda>x. if unat (x - d) < n then g (x - d) else m x)"

lemma blit_0 [simp]: "blit d 0 g m = m"
  by (simp add: blit_def)

lemma blit_agree: "S \<inter> span d n = {} \<Longrightarrow> agree S (blit d n g m) m"
  by (auto simp: blit_def agree_def span_iff disjoint_iff)

lemma unat_minus_offset:
  assumes "k + w \<le> 18446744073709551616" "0 < w"
  shows "unat (x - (d + of_nat k :: addr)) < w \<longleftrightarrow> k \<le> unat (x - d) \<and> unat (x - d) < k + w"
  using unat_diff_less_iff [OF assms(1), of "x - d"] by (simp add: diff_diff_eq)

text \<open>Filling a block next to a filled one.\<close>

lemma blit_extend:
  assumes "k + w \<le> 18446744073709551616" "0 < w"
  shows "blit (d + of_nat k) w (\<lambda>j. g (of_nat k + j)) (blit d k g m) = blit d (k + w) g m"
proof
  fix x
  have "of_nat k + (x - (d + of_nat k)) = x - d" by simp
  then show "blit (d + of_nat k) w (\<lambda>j. g (of_nat k + j)) (blit d k g m) x = blit d (k + w) g m x"
    unfolding blit_def unat_minus_offset [OF assms] by auto
qed

text \<open>A loop whose \<open>i\<close>-th step fills the \<open>i\<close>-th piece of \<open>w\<close> bytes fills the whole.\<close>

lemma fold_blit:
  assumes "k * w \<le> 18446744073709551616" "0 < w"
    "\<And>i. i < k \<Longrightarrow> f i (blit d (i * w) g m) = blit (d + of_nat (i * w)) w (\<lambda>j. g (of_nat (i * w) + j)) (blit d (i * w) g m)"
  shows "fold f [0..<k] m = blit d (k * w) g m"
  using assms
proof (induction k)
  case (Suc k)
  have "fold f [0..<Suc k] m = f k (blit d (k * w) g m)" using Suc by simp
  also have "\<dots> = blit (d + of_nat (k * w)) w (\<lambda>j. g (of_nat (k * w) + j)) (blit d (k * w) g m)"
    by (rule Suc.prems(3)) simp
  also have "\<dots> = blit d (k * w + w) g m" using Suc.prems by (intro blit_extend) simp_all
  finally show ?case by (simp add: add.commute)
qed simp

lemma size_split: "8 * unat (drop_bit 3 (n :: u64)) + unat (n AND 7) = unat n"
proof -
  have "n AND 7 = take_bit 3 n" using take_bit_eq_mask [of 3 n] by (simp add: mask_numeral)
  then have "unat (n AND 7) = unat n mod 8" by (simp add: take_bit_eq_mod unat_mod)
  moreover have "unat (drop_bit 3 n) = unat n div 8" by (simp add: drop_bit_eq_div unat_div)
  ultimately show ?thesis by simp
qed

lemma steps_offset: "8 * drop_bit 3 n = (of_nat (8 * unat (drop_bit 3 n)) :: u64)"
  by simp

lemma memset_blit: "memset m s c n = (blit s (unat n) (\<lambda>_. word_of_int c) m, s)"
proof -
  let ?c = "word_of_int c :: u8" and ?k = "unat (drop_bit 3 n)" and ?r = "unat (n AND 7)"
  have b: "?k * 8 + ?r \<le> 18446744073709551616" using size_split [of n] unat_less_2p64 [of n] by linarith
  have "fold (\<lambda>i m. store64 m (s + 8 * of_nat i) (word_c ?c)) [0..<?k] m = blit s (?k * 8) (\<lambda>_. ?c) m"
    using b by (intro fold_blit) (auto simp: blit_def store64_bytes word_c_bytes mult.commute)
  moreover have "fold (\<lambda>i m. store8 m (s + of_nat (?k * 8) + of_nat i) ?c) [0..<?r] m' =
      blit (s + of_nat (?k * 8)) (?r * 1) (\<lambda>_. ?c) m'" for m'
    using b by (intro fold_blit) (auto simp: blit_def store8_def unat_eq_zero)
  moreover have "blit (s + of_nat (?k * 8)) ?r (\<lambda>_. ?c) (blit s (?k * 8) (\<lambda>_. ?c) m) = blit s (?k * 8 + ?r) (\<lambda>_. ?c) m"
    using b blit_extend [of "?k * 8" ?r s "\<lambda>_. ?c" m] by (cases "?r = 0") auto
  moreover have "?k * 8 + ?r = unat n" using size_split [of n] by simp
  ultimately show ?thesis
    by (simp add: memset_def Let_def mult.commute)
qed

lemma blit_cong: "(\<And>j. unat j < n \<Longrightarrow> g j = g' j) \<Longrightarrow> blit d n g m = blit d n g' m"
  by (auto simp: blit_def)

text \<open>One step of a copy, when the source is apart from what has been written.\<close>

lemma copy_piece:
  assumes "span d N \<inter> span s N = {}" "k + w \<le> N" "N \<le> 18446744073709551616"
  shows "blit (d + of_nat k) w (\<lambda>j. blit d k (\<lambda>j. m (s + j)) m (s + of_nat k + j)) M =
    blit (d + of_nat k) w (\<lambda>j. m (s + (of_nat k + j))) M"
proof (rule blit_cong)
  fix j :: addr assume j: "unat j < w"
  then have "k + unat j < 18446744073709551616" using assms(2,3) by linarith
  then have "unat (of_nat k + j) = k + unat j"
    by (subst unat_add64) (simp_all add: unat_of_nat64)
  then have "s + (of_nat k + j) \<in> span s N" using j assms(2) by (simp add: span_iff)
  then have "s + (of_nat k + j) \<notin> span d k"
    using assms(1,2) span_mono [of k N d] by auto
  then show "blit d k (\<lambda>j. m (s + j)) m (s + of_nat k + j) = m (s + (of_nat k + j))"
    by (simp add: blit_def span_iff add.assoc)
qed

lemma memcpy_blit:
  assumes ov: "span d (unat n) \<inter> span s (unat n) = {}"
  shows "memcpy m d s n = (blit d (unat n) (\<lambda>j. m (s + j)) m, d)"
proof -
  let ?k = "unat (drop_bit 3 n)" and ?r = "unat (n AND 7)" and ?g = "\<lambda>j. m (s + j)"
  have e: "?k * 8 + ?r = unat n" using size_split [of n] by simp
  then have b: "?k * 8 + ?r \<le> 18446744073709551616" using unat_less_2p64 [of n] by linarith
  have "copy64 ?k m d s = blit d (?k * 8) ?g m"
    unfolding copy64_def
  proof (rule fold_blit)
    fix i assume i: "i < ?k"
    let ?m = "blit d (i * 8) ?g m"
    have "store64 ?m (d + of_nat (i * 8)) (load64 ?m (s + of_nat (i * 8))) =
        blit (d + of_nat (i * 8)) 8 (\<lambda>j. ?m (s + of_nat (i * 8) + j)) ?m"
      by (simp add: copy64_step blit_def)
    also have "\<dots> = blit (d + of_nat (i * 8)) 8 (\<lambda>j. m (s + (of_nat (i * 8) + j))) ?m"
      by (rule copy_piece [OF ov]) (use i e b in auto)
    finally show "store64 ?m (d + 8 * of_nat i) (load64 ?m (s + 8 * of_nat i)) =
        blit (d + of_nat (i * 8)) 8 (\<lambda>j. m (s + (of_nat (i * 8) + j))) ?m" by (simp add: mult.commute)
  qed (use b in auto)
  moreover
  let ?k8 = "of_nat (?k * 8) :: addr" and ?M = "blit d (?k * 8) ?g m"
  have "copy8 ?r ?M (d + ?k8) (s + ?k8) = blit (d + ?k8) (?r * 1) (\<lambda>j. m (s + (?k8 + j))) ?M"
    unfolding copy8_def
  proof (rule fold_blit)
    fix i assume i: "i < ?r"
    let ?N = "blit (d + ?k8) (i * 1) (\<lambda>j. m (s + (?k8 + j))) ?M"
    have N: "?N = blit d (?k * 8 + i) ?g m"
      using blit_extend [of "?k * 8" i d ?g m] i b by (cases "i = 0") auto
    have "store8 ?N (d + of_nat (?k * 8 + i)) (load8 ?N (s + of_nat (?k * 8 + i))) =
        blit (d + of_nat (?k * 8 + i)) 1 (\<lambda>j. ?N (s + of_nat (?k * 8 + i) + j)) ?N"
      by (auto simp: store8_def load8_def blit_def unat_eq_zero)
    also have "\<dots> = blit (d + of_nat (?k * 8 + i)) 1 (\<lambda>j. m (s + (of_nat (?k * 8 + i) + j))) ?N"
      unfolding N by (rule copy_piece [OF ov]) (use i e b in auto)
    finally show "store8 ?N (d + ?k8 + of_nat i) (load8 ?N (s + ?k8 + of_nat i)) =
        blit (d + ?k8 + of_nat (i * 1)) 1 (\<lambda>j. m (s + (?k8 + (of_nat (i * 1) + j)))) ?N"
      by (simp add: add.assoc)
  qed (use b in auto)
  moreover have "blit (d + ?k8) ?r (\<lambda>j. m (s + (?k8 + j))) ?M = blit d (?k * 8 + ?r) ?g m"
    using b blit_extend [of "?k * 8" ?r d ?g m] by (cases "?r = 0") auto
  ultimately show ?thesis using e by (simp add: memcpy_def Let_def mult.commute)
qed

section \<open>Strings\<close>

fun cstr :: "mem \<Rightarrow> addr \<Rightarrow> u8 list \<Rightarrow> bool" where
  "cstr m s [] \<longleftrightarrow> m s = 0"
| "cstr m s (x # xs) \<longleftrightarrow> m s = x \<and> x \<noteq> 0 \<and> cstr m (s + 1) xs"

lemma cstr_nth: "cstr m s xs \<Longrightarrow> i < length xs \<Longrightarrow> m (s + of_nat i) = xs ! i \<and> xs ! i \<noteq> 0"
proof (induction xs arbitrary: s i)
  case (Cons x xs)
  then show ?case using Cons.IH [of "s + 1" "i - 1"] by (cases i) (auto simp: add.assoc)
qed simp

lemma cstr_end: "cstr m s xs \<Longrightarrow> m (s + of_nat (length xs)) = 0"
proof (induction xs arbitrary: s)
  case (Cons x xs)
  then have "m (s + 1 + of_nat (length xs)) = 0" by auto
  then show ?case by (simp add: add.assoc)
qed simp

lemma cstr_intro:
  assumes "\<And>i. i < length xs \<Longrightarrow> m (s + of_nat i) = xs ! i" "0 \<notin> set xs" "m (s + of_nat (length xs)) = 0"
  shows "cstr m s xs"
  using assms
proof (induction xs arbitrary: s)
  case (Cons x xs)
  have "cstr m (s + 1) xs"
  proof (rule Cons.IH)
    show "m (s + 1 + of_nat i) = xs ! i" if "i < length xs" for i
      using Cons.prems(1) [of "Suc i"] that by (simp add: add.assoc)
  qed (use Cons.prems in \<open>auto simp: add.assoc\<close>)
  then show ?case using Cons.prems(1) [of 0] Cons.prems(2) by auto
qed simp

lemma cstr_append: "cstr m s (xs @ ys) \<longleftrightarrow> (\<forall>i < length xs. m (s + of_nat i) = xs ! i \<and> xs ! i \<noteq> 0) \<and> cstr m (s + of_nat (length xs)) ys"
proof (induction xs arbitrary: s)
  case (Cons x xs)
  then show ?case by (auto simp: add.assoc nth_Cons less_Suc_eq_0_disj)
qed simp

text \<open>A string lies in memory without wrapping onto itself.\<close>

lemma cstr_length: "cstr m s xs \<Longrightarrow> length xs < 18446744073709551616"
proof (rule ccontr)
  assume c: "cstr m s xs" and l: "\<not> length xs < 18446744073709551616"
  let ?e = "s + of_nat (length xs)" and ?i = "unat (of_nat (length xs) :: addr)"
  have "?i < length xs" using l unat_less_2p64 [of "of_nat (length xs)"] by linarith
  from cstr_nth [OF c this] cstr_end [OF c] show False by simp
qed

lemma strlen_from_cstr: "cstr m (s + len) xs \<Longrightarrow> strlen_from m s len = Some (len + of_nat (length xs))"
proof (induction xs arbitrary: len)
  case Nil
  then show ?case by (subst strlen_from.simps) (simp add: load8_def)
next
  case (Cons x xs)
  then have "strlen_from m s (len + 1) = Some (len + 1 + of_nat (length xs))"
    by (intro Cons.IH) (simp add: add.assoc)
  then show ?case using Cons.prems by (subst strlen_from.simps) (simp add: load8_def add.assoc)
qed

text \<open>The sign of the difference of two bytes is their order.\<close>

lemma uint8_cmp:
  "uint (a :: u8) = uint b \<longleftrightarrow> a = b" "uint (a :: u8) < uint b \<longleftrightarrow> a < b" "uint (a :: u8) = 0 \<longleftrightarrow> a = 0"
  "\<not> uint (a :: u8) < 0" "0 < uint (a :: u8) \<longleftrightarrow> a \<noteq> 0" "a < b \<or> b < a \<longleftrightarrow> (a :: u8) \<noteq> b"
proof -
  show "uint a = uint b \<longleftrightarrow> a = b" by (metis word_of_int_uint)
  show "uint a < uint b \<longleftrightarrow> a < b" by (simp add: word_less_def)
  show "uint a = 0 \<longleftrightarrow> a = 0" by (simp add: uint_0_iff)
  then show "0 < uint a \<longleftrightarrow> a \<noteq> 0" by (simp add: less_le)
  show "\<not> uint a < 0" "a < b \<or> b < a \<longleftrightarrow> a \<noteq> b" by auto
qed

lemma strcmp_cstr:
  "cstr m s xs \<Longrightarrow> cstr m t ys \<Longrightarrow>
   \<exists>r. strcmp m s t = Some r \<and> (r = 0 \<longleftrightarrow> xs = ys) \<and> (r < 0 \<longleftrightarrow> ord_class.lexordp xs ys)"
proof (induction xs arbitrary: s t ys)
  case Nil
  then show ?case
    by (subst strcmp.simps, cases ys) (auto simp: load8_def uint8_cmp word_neq_0_conv)
next
  case (Cons x xs)
  show ?case
  proof (cases "ys \<noteq> [] \<and> hd ys = x")
    case True
    then obtain zs where ys: "ys = x # zs" by (cases ys) auto
    with Cons have "strcmp m s t = strcmp m (s + 1) (t + 1)" by (subst strcmp.simps) (simp add: load8_def)
    then show ?thesis using Cons.IH [of "s + 1" "t + 1" zs] Cons.prems ys by auto
  next
    case False
    with Cons.prems have "m t \<noteq> x" by (cases ys) auto
    with Cons.prems have "strcmp m s t = Some (uint x - uint (m t))" by (subst strcmp.simps) (auto simp: load8_def)
    with False Cons.prems show ?thesis
      by (cases ys) (auto simp: uint8_cmp)
  qed
qed

lemma strncmp_from_shift: "strncmp_from (map Suc is) m s t = strncmp_from is m (s + 1) (t + 1)"
  by (induction "is") (simp_all add: add.assoc)

lemma strncmp_from_cstr:
  "cstr m s xs \<Longrightarrow> cstr m t ys \<Longrightarrow>
   (strncmp_from [0..<n] m s t = 0 \<longleftrightarrow> take n xs = take n ys) \<and>
   (strncmp_from [0..<n] m s t < 0 \<longleftrightarrow> ord_class.lexordp (take n xs) (take n ys))"
proof (induction n arbitrary: s t xs ys)
  case (Suc n)
  have e: "strncmp_from [0..<Suc n] m s t =
      (if m s \<noteq> m t then uint (m s) - uint (m t) else if m s = 0 then 0 else strncmp_from [0..<n] m (s + 1) (t + 1))"
    by (simp add: upt_conv_Cons map_Suc_upt [symmetric] strncmp_from_shift load8_def del: upt_Suc)
  show ?case
  proof (cases xs)
    case Nil
    then show ?thesis using Suc.prems unfolding e by (cases ys) (auto simp: uint8_cmp word_neq_0_conv)
  next
    case (Cons x xs')
    show ?thesis
    proof (cases ys)
      case Nil
      then show ?thesis using Suc.prems Cons unfolding e by (auto simp: uint8_cmp)
    next
      case (Cons y ys')
      with \<open>xs = x # xs'\<close> Suc.prems Suc.IH [of "s + 1" xs' "t + 1" ys'] show ?thesis
        unfolding e by (auto simp: uint8_cmp)
    qed
  qed
qed simp

lemma str_end_cstr: "cstr m d xs \<Longrightarrow> str_end m d = Some (d + of_nat (length xs))"
proof (induction xs arbitrary: d)
  case Nil
  then show ?case by (subst str_end.simps) (simp add: load8_def)
next
  case (Cons x xs)
  then show ?case by (subst str_end.simps) (simp add: load8_def add.assoc)
qed

lemma match_loop_cstr:
  "cstr m h xs \<Longrightarrow> cstr m n ys \<Longrightarrow>
   \<exists>e. match_loop m h n = Some e \<and> (load8 m e = 0 \<longleftrightarrow> take (length ys) xs = ys)"
proof (induction ys arbitrary: h n xs)
  case Nil
  then show ?case by (subst match_loop.simps) (auto simp: load8_def)
next
  case (Cons y ys)
  show ?case
  proof (cases "xs \<noteq> [] \<and> hd xs = y")
    case True
    then obtain zs where xs: "xs = y # zs" by (cases xs) auto
    with Cons.prems have "match_loop m h n = match_loop m (h + 1) (n + 1)"
      by (subst match_loop.simps) (simp add: load8_def)
    then show ?thesis using Cons xs by auto
  next
    case False
    with Cons.prems have "match_loop m h n = Some n"
      by (subst match_loop.simps) (cases xs; auto simp: load8_def)
    with False Cons.prems show ?thesis by (cases xs) (auto simp: load8_def)
  qed
qed

text \<open>The positions at which a string occurs in another one.\<close>

definition occurs_at :: "u8 list \<Rightarrow> u8 list \<Rightarrow> nat \<Rightarrow> bool" where
  "occurs_at ys xs k \<longleftrightarrow> k \<le> length xs \<and> take (length ys) (drop k xs) = ys"

lemma strstr_loop_cstr:
  assumes "cstr m n ys" "ys \<noteq> []"
  shows "cstr m h xs \<Longrightarrow>
    (\<exists>k. strstr_loop m h n = Some (h + of_nat k) \<and> occurs_at ys xs k \<and> (\<forall>j < k. \<not> occurs_at ys xs j)) \<or>
    (strstr_loop m h n = Some NULL \<and> (\<forall>j. \<not> occurs_at ys xs j))"
proof (induction xs arbitrary: h)
  case Nil
  then show ?case using assms(2) by (subst (1 2) strstr_loop.simps) (auto simp: load8_def occurs_at_def)
next
  case (Cons x xs)
  obtain e where e: "match_loop m h n = Some e" "load8 m e = 0 \<longleftrightarrow> take (length ys) (x # xs) = ys"
    using match_loop_cstr [OF Cons.prems assms(1)] by blast
  have hd: "m h = x" "x \<noteq> 0" "m n = hd ys" using Cons.prems assms by (auto simp: neq_Nil_conv)
  have suc: "occurs_at ys (x # xs) (Suc k) \<longleftrightarrow> occurs_at ys xs k" for k by (simp add: occurs_at_def)
  show ?case
  proof (cases "occurs_at ys (x # xs) 0")
    case True
    then have "m n = x" using hd assms(2) by (auto simp: occurs_at_def neq_Nil_conv)
    with True e hd have "strstr_loop m h n = Some (h + of_nat 0)"
      by (subst strstr_loop.simps) (simp add: load8_def occurs_at_def)
    with True show ?thesis by blast
  next
    case False
    then have step: "strstr_loop m h n = strstr_loop m (h + 1) n"
      using e hd by (subst strstr_loop.simps) (auto simp: load8_def occurs_at_def)
    have "cstr m (h + 1) xs" using Cons.prems by simp
    from Cons.IH [OF this] show ?thesis
    proof (elim disjE exE conjE)
      fix k assume k: "strstr_loop m (h + 1) n = Some (h + 1 + of_nat k)" "occurs_at ys xs k" "\<forall>j<k. \<not> occurs_at ys xs j"
      then have "\<forall>j<Suc k. \<not> occurs_at ys (x # xs) j" using False suc by (metis less_Suc_eq_0_disj)
      with k step suc show ?thesis by (intro disjI1 exI [of _ "Suc k"]) (simp add: add.assoc)
    next
      assume "strstr_loop m (h + 1) n = Some NULL" "\<forall>j. \<not> occurs_at ys xs j"
      then show ?thesis using step False suc by (metis not0_implies_Suc)
    qed
  qed
qed

section \<open>Copying strings\<close>

text \<open>
  Copying up to the terminator equals copying its bytes as a block, when source and destination
  do not overlap.
\<close>

lemma cstr_bytes:
  assumes "cstr m s xs" "unat j < length xs"
  shows "m (s + j) = xs ! unat j"
  using cstr_nth [OF assms] by simp

lemma blit_first:
  assumes "n < 18446744073709551616"
  shows "blit d (Suc n) g m = blit (d + 1) n (\<lambda>j. g (1 + j)) (m(d := g 0))"
proof
  fix x
  have "x - d = 0 \<or> unat (x - d) = Suc (unat (x - (d + 1)))"
  proof (cases "x = d")
    case False
    then have "unat (x - d) \<noteq> 0" by (simp add: unat_eq_zero)
    then have "1 \<le> x - d" by (simp add: word_le_nat_alt)
    then have "unat (x - d - 1) = unat (x - d) - 1" by (simp add: unat_sub_if' word_le_nat_alt)
    with \<open>unat (x - d) \<noteq> 0\<close> show ?thesis by (simp add: diff_diff_eq)
  qed simp
  moreover have "unat (d - (d + 1)) = 18446744073709551615" by (simp add: unsigned_minus_1_eq_mask mask_eq_exp_minus_1)
  ultimately show "blit d (Suc n) g m x = blit (d + 1) n (\<lambda>j. g (1 + j)) (m(d := g 0)) x"
    using assms by (auto simp: blit_def)
qed

lemma strcpy_loop_cstr:
  "cstr m s xs \<Longrightarrow> span d (Suc (length xs)) \<inter> span s (Suc (length xs)) = {} \<Longrightarrow>
   strcpy_loop m d s = Some (blit d (Suc (length xs)) (\<lambda>j. m (s + j)) m)"
proof (induction xs arbitrary: m d s)
  case Nil
  have "strcpy_loop m d s = Some (m(d := m s))"
    using Nil by (subst strcpy_loop.simps) (simp add: load8_def store8_def)
  then show ?case by (auto simp: blit_def unat_eq_zero)
next
  case (Cons x xs)
  let ?N = "Suc (length (x # xs))"
  have len: "Suc (length xs) < 18446744073709551616" using cstr_length [OF Cons.prems(1)] by simp
  have sub: "span (d + 1) (Suc (length xs)) \<subseteq> span d ?N" "span (s + 1) (Suc (length xs)) \<subseteq> span s ?N" "d \<in> span d ?N"
    using len span_offset [of 1 "Suc (length xs)" ?N d] span_offset [of 1 "Suc (length xs)" ?N s] by (auto simp: span_iff)
  let ?m = "m(d := x)"
  have off: "s + (1 + j) \<noteq> d" if "unat j < Suc (length xs)" for j
  proof -
    have "s + 1 + j \<in> span (s + 1) (Suc (length xs))" using that by (simp add: span_iff)
    then have "s + 1 + j \<in> span s ?N" using sub(2) by blast
    then show ?thesis using sub(3) Cons.prems(2) by (auto simp: add.assoc)
  qed
  have "cstr ?m (s + 1) xs"
  proof (rule cstr_intro)
    have c: "cstr m (s + 1) xs" using Cons.prems by simp
    have u: "i \<le> length xs \<Longrightarrow> unat (of_nat i :: addr) = i" for i using len by (intro unat_of_nat64) simp
    show "?m (s + 1 + of_nat i) = xs ! i" if "i < length xs" for i
      using cstr_nth [OF c that] off [of "of_nat i"] that by (simp add: add.assoc u)
    show "0 \<notin> set xs" using cstr_nth [OF c] by (metis in_set_conv_nth)
    show "?m (s + 1 + of_nat (length xs)) = 0"
      using cstr_end [OF c] off [of "of_nat (length xs)"] by (simp add: add.assoc u)
  qed
  moreover have "span (d + 1) (Suc (length xs)) \<inter> span (s + 1) (Suc (length xs)) = {}"
    using sub Cons.prems(2) by auto
  ultimately have "strcpy_loop ?m (d + 1) (s + 1) = Some (blit (d + 1) (Suc (length xs)) (\<lambda>j. ?m (s + 1 + j)) ?m)"
    by (rule Cons.IH)
  moreover have "strcpy_loop m d s = strcpy_loop ?m (d + 1) (s + 1)"
    using Cons.prems by (subst strcpy_loop.simps) (simp add: load8_def store8_def)
  moreover have "blit (d + 1) (Suc (length xs)) (\<lambda>j. ?m (s + 1 + j)) ?m = blit (d + 1) (Suc (length xs)) (\<lambda>j. m (s + (1 + j))) ?m"
    using off by (intro blit_cong) (auto simp: add.assoc)
  ultimately show ?case
    using blit_first [of "Suc (length xs)" d "\<lambda>j. m (s + j)" m] len Cons.prems by simp
qed

lemma copied_cstr:
  assumes "cstr m s xs" "k \<le> length xs" "\<And>i. i < k \<Longrightarrow> m' (d + of_nat i) = m (s + of_nat i)" "m' (d + of_nat k) = 0"
  shows "cstr m' d (take k xs)"
proof (rule cstr_intro)
  show "m' (d + of_nat i) = take k xs ! i" if "i < length (take k xs)" for i
    using that assms(2,3) cstr_nth [OF assms(1), of i] by simp
  show "0 \<notin> set (take k xs)" using cstr_nth [OF assms(1)] by (metis in_set_conv_nth in_set_takeD)
qed (use assms in \<open>simp add: min_def\<close>)

lemma blit_at: "i < n \<Longrightarrow> i < 18446744073709551616 \<Longrightarrow> blit d n g m (d + of_nat i) = g (of_nat i)"
  by (simp add: blit_def unat_of_nat64)

lemma strcpy_loop_copies:
  assumes "cstr m s xs" "span d (Suc (length xs)) \<inter> span s (Suc (length xs)) = {}"
  shows "\<exists>m'. strcpy_loop m d s = Some m' \<and> cstr m' d xs \<and> agree (- span d (Suc (length xs))) m' m"
proof -
  let ?m = "blit d (Suc (length xs)) (\<lambda>j. m (s + j)) m"
  have "cstr ?m d (take (length xs) xs)"
    using cstr_length [OF assms(1)] cstr_end [OF assms(1)] by (intro copied_cstr [OF assms(1)]) (simp_all add: blit_at)
  then show ?thesis using strcpy_loop_cstr [OF assms] blit_agree [of "- span d (Suc (length xs))"] by auto
qed

lemma copy_upto_cstr:
  assumes "cstr m0 s xs" "span d (Suc (length xs)) \<inter> span s (Suc (length xs)) = {}"
  shows "i \<le> length xs \<Longrightarrow> m = blit d i (\<lambda>j. m0 (s + j)) m0 \<Longrightarrow>
    copy_upto r m d s i = (blit d (min (i + r) (length xs)) (\<lambda>j. m0 (s + j)) m0, min (i + r) (length xs))"
proof (induction r arbitrary: i m)
  case (Suc r)
  have len: "length xs < 18446744073709551616" by (rule cstr_length [OF assms(1)])
  then have ui: "unat (of_nat i :: addr) = i" using Suc.prems(1) by (intro unat_of_nat64) simp
  then have "s + of_nat i \<in> span s (Suc (length xs))" using Suc.prems(1) by (simp add: span_iff)
  then have "s + of_nat i \<notin> span d i" using assms(2) span_mono [of i "Suc (length xs)" d] Suc.prems(1) by auto
  then have rd: "load8 m (s + of_nat i) = m0 (s + of_nat i)" by (simp add: Suc.prems(2) load8_def blit_def span_iff)
  show ?case
  proof (cases "i = length xs")
    case True
    then show ?thesis using rd cstr_end [OF assms(1)] Suc.prems(2) by simp
  next
    case False
    then have i: "i < length xs" using Suc.prems(1) by simp
    have "store8 m (d + of_nat i) (m0 (s + of_nat i)) = blit (d + of_nat i) 1 (\<lambda>j. m0 (s + (of_nat i + j))) m"
      by (auto simp: store8_def blit_def unat_eq_zero)
    also have "\<dots> = blit d (i + 1) (\<lambda>j. m0 (s + j)) m0"
      unfolding Suc.prems(2) using i len by (intro blit_extend) auto
    finally have "copy_upto r (store8 m (d + of_nat i) (m0 (s + of_nat i))) d s (i + 1) =
        (blit d (min (i + 1 + r) (length xs)) (\<lambda>j. m0 (s + j)) m0, min (i + 1 + r) (length xs))"
      using i by (intro Suc.IH) auto
    then show ?thesis using rd cstr_nth [OF assms(1) i] by simp
  qed
qed (auto simp: min_def)

lemma fold_store8_zero: "i \<le> n \<Longrightarrow> fold (\<lambda>i m. store8 m (d + of_nat i) 0) [i..<n] m x = (if \<exists>k. i \<le> k \<and> k < n \<and> x = d + of_nat k then 0 else m x)"
proof (induction n)
  case (Suc n)
  then show ?case by (cases "i = Suc n") (auto simp: store8_def less_Suc_eq le_Suc_eq)
qed simp

text \<open>A string in front of an area that gets a string written to it.\<close>

lemma cstr_extend:
  assumes "cstr m d xs" "cstr m' (d + of_nat (length xs)) ys" "agree (- span (d + of_nat (length xs)) (Suc k)) m' m"
    "length xs + Suc k \<le> 18446744073709551616"
  shows "cstr m' d (xs @ ys)"
proof -
  have "m' (d + of_nat i) = m (d + of_nat i)" if i: "i < length xs" for i
  proof -
    have "unat (of_nat i :: addr) = i" using i assms(4) by (intro unat_of_nat64) linarith
    then have "d + of_nat i \<notin> span (d + of_nat (length xs)) (Suc k)"
      using i assms(4) by (subst span_offset_iff) auto
    with assms(3) show ?thesis by (simp add: agree_def)
  qed
  then show ?thesis using assms(2) cstr_nth [OF assms(1)] by (simp add: cstr_append)
qed

lemma copy_upto_copies:
  assumes "cstr m s xs" "span d (Suc (length xs)) \<inter> span s (Suc (length xs)) = {}"
  shows "\<exists>m' k. copy_upto n m d s 0 = (m', k) \<and> k = min n (length xs) \<and>
    cstr (store8 m' (d + of_nat k) 0) d (take k xs) \<and> agree (- span d k) m' m \<and>
    (\<forall>i < k. m' (d + of_nat i) = xs ! i)"
proof -
  let ?k = "min n (length xs)" and ?m = "blit d (min n (length xs)) (\<lambda>j. m (s + j)) m"
  have len: "length xs < 18446744073709551616" by (rule cstr_length [OF assms(1)])
  have at: "?m (d + of_nat i) = m (s + of_nat i)" if "i < ?k" for i
    using that len by (intro blit_at) auto
  have ne: "d + of_nat i \<noteq> d + of_nat ?k" if "i < ?k" for i
  proof -
    have "unat (of_nat i :: addr) = i" "unat (of_nat ?k :: addr) = ?k" using that len by (intro unat_of_nat64; linarith)+
    with that show ?thesis by (metis add_left_imp_eq less_irrefl)
  qed
  have "cstr (store8 ?m (d + of_nat ?k) 0) d (take ?k xs)"
    using at ne by (intro copied_cstr [OF assms(1)]) (auto simp: store8_def)
  moreover have "agree (- span d ?k) ?m m" by (rule blit_agree) auto
  moreover have "\<forall>i < ?k. ?m (d + of_nat i) = xs ! i" using at cstr_nth [OF assms(1)] by simp
  ultimately show ?thesis using copy_upto_cstr [OF assms, of 0 m n] by auto
qed

section \<open>Properties\<close>

text \<open>
  C26. \<open>memcpy\<close> copies: for every size, when the two areas do not overlap, the 64-bit steps and the
  byte-wise rest together copy exactly the \<open>n\<close> bytes, change nothing else and return the destination.
\<close>

theorem memcpy_copies:
  assumes "span d (unat n) \<inter> span s (unat n) = {}"
  shows "\<exists>m'. memcpy m d s n = (m', d) \<and> (\<forall>i < unat n. m' (d + of_nat i) = m (s + of_nat i)) \<and>
     agree (- span d (unat n)) m' m"
proof -
  have "i < unat n \<Longrightarrow> i < 18446744073709551616" for i using unat_less_2p64 [of n] by linarith
  then show ?thesis using memcpy_blit [OF assms] blit_agree [of "- span d (unat n)"] by (auto simp: blit_at)
qed

theorem memcpy_copies_witness:
  "\<exists>m'. memcpy (\<lambda>x. ucast x) 0x2000 0x1003 21 = (m', 0x2000) \<and>
     (\<forall>i < unat (21 :: u64). m' (0x2000 + of_nat i) = ucast (0x1003 + of_nat i :: addr))"
proof -
  have "span 0x2000 (unat (21 :: u64)) \<inter> span 0x1003 (unat (21 :: u64)) = {}" by (auto simp: span_nowrap)
  from memcpy_copies [OF this, of "\<lambda>x. ucast x"] show ?thesis by auto
qed

text \<open>
  \<open>memset\<close> fills: for every size and value, exactly the \<open>n\<close> bytes from \<open>s\<close> on become the low
  byte of \<open>c\<close> and nothing else changes.
\<close>

theorem memset_fills:
  "\<exists>m'. memset m s c n = (m', s) \<and> (\<forall>x. m' x = (if x \<in> span s (unat n) then word_of_int c else m x))"
  by (simp add: memset_blit blit_def span_iff)

text \<open>
  On NUL-terminated strings \<open>strlen\<close> returns the length and \<open>strcmp\<close> and \<open>strncmp\<close> return zero
  exactly on equal strings (equal in the first \<open>n\<close> bytes) and a negative number exactly when the
  first one is smaller in the lexicographic order of unsigned bytes; their loops end.
\<close>

theorem string_compare:
  assumes "cstr m s xs" "cstr m t ys"
  shows "strlen m s = Some (of_nat (length xs)) \<and>
    (\<exists>r. strcmp m s t = Some r \<and> (r = 0 \<longleftrightarrow> xs = ys) \<and> (r < 0 \<longleftrightarrow> ord_class.lexordp xs ys)) \<and>
    (strncmp m s t n = 0 \<longleftrightarrow> take (unat n) xs = take (unat n) ys) \<and>
    (strncmp m s t n < 0 \<longleftrightarrow> ord_class.lexordp (take (unat n) xs) (take (unat n) ys))"
  using strlen_from_cstr [of m s 0 xs] strcmp_cstr [OF assms] strncmp_from_cstr [OF assms, of "unat n"] assms
  by (simp add: strlen_def strncmp_def)

definition demo_text :: mem where
  "demo_text = (\<lambda>_. 0)(0x100 := 97, 0x101 := 98, 0x200 := 97, 0x201 := 99)"

lemma demo_cstr: "cstr demo_text 0x100 [97, 98]" "cstr demo_text 0x200 [97, 99]"
  by (simp_all add: demo_text_def)

theorem string_compare_witness:
  "cstr demo_text 0x100 [97, 98] \<and> cstr demo_text 0x200 [97, 99] \<and>
   strlen demo_text 0x100 = Some 2 \<and> strncmp demo_text 0x100 0x200 1 = 0"
  using demo_cstr string_compare [OF demo_cstr, of 1] by (simp del: cstr.simps)

text \<open>
  \<open>strcpy\<close> and \<open>strncpy\<close> on areas that do not overlap: \<open>strcpy\<close> ends and leaves the string of the
  source at the destination, touching only its bytes and the terminator; \<open>strncpy\<close> writes exactly
  \<open>n\<close> bytes, the first \<open>n\<close> of the source string padded with NUL bytes (so there is no terminator
  when the string has \<open>n\<close> bytes or more).
\<close>

theorem string_copy:
  assumes "cstr m s xs" "span d (Suc (length xs)) \<inter> span s (Suc (length xs)) = {}"
  shows "(\<exists>m'. strcpy m d s = Some (m', d) \<and> cstr m' d xs \<and> agree (- span d (Suc (length xs))) m' m) \<and>
    (\<exists>m'. strncpy m d s n = (m', d) \<and> agree (- span d (unat n)) m' m \<and>
       (\<forall>i < unat n. m' (d + of_nat i) = (if i < length xs then xs ! i else 0)))"
proof
  show "\<exists>m'. strcpy m d s = Some (m', d) \<and> cstr m' d xs \<and> agree (- span d (Suc (length xs))) m' m"
    using strcpy_loop_copies [OF assms] by (auto simp: strcpy_def)
  obtain m1 k where c: "copy_upto (unat n) m d s 0 = (m1, k)" "k = min (unat n) (length xs)"
    "agree (- span d k) m1 m" "\<forall>i < k. m1 (d + of_nat i) = xs ! i"
    using copy_upto_copies [OF assms, of "unat n"] by blast
  let ?m' = "fold (\<lambda>i m. store8 m (d + of_nat i) 0) [k..<unat n] m1"
  have le: "k \<le> unat n" using c(2) by simp
  have u: "unat (of_nat i :: addr) = i" if "i < unat n" for i
    using that unat_less_2p64 [of n] by (intro unat_of_nat64) linarith
  have "agree (- span d (unat n)) ?m' m"
  proof -
    have "x \<notin> span d k" "\<And>i. i < unat n \<Longrightarrow> x \<noteq> d + of_nat i" if "x \<notin> span d (unat n)" for x
      using that span_mono [OF le, of d] u by (auto simp: span_iff)
    with c(3) show ?thesis unfolding agree_def by (auto simp: fold_store8_zero [OF le])
  qed
  moreover have "?m' (d + of_nat i) = (if i < length xs then xs ! i else 0)" if i: "i < unat n" for i
  proof -
    have "(\<exists>j. k \<le> j \<and> j < unat n \<and> d + of_nat i = d + (of_nat j :: addr)) \<longleftrightarrow> k \<le> i"
      using i u by (metis add_left_imp_eq)
    then have "?m' (d + of_nat i) = (if k \<le> i then 0 else m1 (d + of_nat i))"
      by (simp only: fold_store8_zero [OF le])
    then show ?thesis using i c(2,4) by auto
  qed
  ultimately show "\<exists>m'. strncpy m d s n = (m', d) \<and> agree (- span d (unat n)) m' m \<and>
      (\<forall>i < unat n. m' (d + of_nat i) = (if i < length xs then xs ! i else 0))"
    using c(1) by (simp add: strncpy_def)
qed

lemma demo_apart:
  "span 0x200 (Suc (length [97 :: u8, 98])) \<inter> span 0x100 (Suc (length [97 :: u8, 98])) = {}"
  "span (0x200 + of_nat (length [97 :: u8, 99])) (Suc (length [97 :: u8, 98])) \<inter>
     span 0x100 (Suc (length [97 :: u8, 98])) = {}"
  by (auto simp: span_nowrap)

theorem string_copy_witness:
  "\<exists>m'. strcpy demo_text 0x200 0x100 = Some (m', 0x200) \<and> cstr m' 0x200 [97, 98]"
  using string_copy [OF demo_cstr(1) demo_apart(1), of 5] by blast

text \<open>
  \<open>strcat\<close> and \<open>strncat\<close> append: both end, and the destination then holds its string followed by
  the source string (by its first \<open>n\<close> bytes), with a terminator; only the bytes from the old
  terminator on change.
\<close>

theorem string_append:
  assumes "cstr m d xs" "cstr m s ys" "length xs + Suc (length ys) \<le> 18446744073709551616"
    "span (d + of_nat (length xs)) (Suc (length ys)) \<inter> span s (Suc (length ys)) = {}"
  shows "(\<exists>m'. strcat m d s = Some (m', d) \<and> cstr m' d (xs @ ys) \<and>
       agree (- span (d + of_nat (length xs)) (Suc (length ys))) m' m) \<and>
    (\<exists>m'. strncat m d s n = Some (m', d) \<and> cstr m' d (xs @ take (unat n) ys) \<and>
       agree (- span (d + of_nat (length xs)) (Suc (length ys))) m' m)"
proof
  let ?e = "d + of_nat (length xs)" and ?S = "- span (d + of_nat (length xs)) (Suc (length ys))"
  have e: "str_end m d = Some ?e" by (rule str_end_cstr [OF assms(1)])
  obtain m' where "strcpy_loop m ?e s = Some m'" "cstr m' ?e ys" "agree ?S m' m"
    using strcpy_loop_copies [OF assms(2,4)] by blast
  then show "\<exists>m'. strcat m d s = Some (m', d) \<and> cstr m' d (xs @ ys) \<and> agree ?S m' m"
    using e cstr_extend [OF assms(1) _ _ assms(3)] by (auto simp: strcat_def)
  obtain m1 k where c: "copy_upto (unat n) m ?e s 0 = (m1, k)" "k = min (unat n) (length ys)"
    "cstr (store8 m1 (?e + of_nat k) 0) ?e (take k ys)" "agree (- span ?e k) m1 m"
    using copy_upto_copies [OF assms(2,4), of "unat n"] by blast
  have "unat (of_nat k :: addr) = k" using c(2) assms(3) by (intro unat_of_nat64) linarith
  then have "?e + of_nat k \<in> span ?e (Suc (length ys))" "span ?e k \<subseteq> span ?e (Suc (length ys))"
    using c(2) by (auto simp: span_iff)
  then have "agree ?S (store8 m1 (?e + of_nat k) 0) m"
    using c(4) by (auto simp: agree_def store8_def)
  moreover from this have "cstr (store8 m1 (?e + of_nat k) 0) d (xs @ take k ys)"
    using c(3) by (intro cstr_extend [OF assms(1) _ _ assms(3)])
  moreover have "take k ys = take (unat n) ys" by (simp add: c(2) min_def)
  ultimately show "\<exists>m'. strncat m d s n = Some (m', d) \<and> cstr m' d (xs @ take (unat n) ys) \<and> agree ?S m' m"
    using e c(1) by (auto simp: strncat_def)
qed

theorem string_append_witness:
  "\<exists>m'. strcat demo_text 0x200 0x100 = Some (m', 0x200) \<and> cstr m' 0x200 ([97, 99] @ [97, 98])"
  using string_append [OF demo_cstr(2,1) _ demo_apart(2), of 1] by (auto simp del: cstr.simps append.simps)

text \<open>
  \<open>strstr\<close> ends and returns the address of the first occurrence of the needle, \<open>NULL\<close> exactly when
  the haystack does not contain it (an empty needle is found at the start).
\<close>

theorem strstr_first:
  assumes "cstr m h xs" "cstr m n ys"
  shows "(\<exists>k. strstr m h n = Some (h + of_nat k) \<and> occurs_at ys xs k \<and> (\<forall>j < k. \<not> occurs_at ys xs j)) \<or>
    (strstr m h n = Some NULL \<and> (\<forall>j. \<not> occurs_at ys xs j))"
proof (cases ys)
  case Nil
  then have "strstr m h n = Some (h + of_nat 0)" "occurs_at ys xs 0"
    using assms(2) by (simp_all add: strstr_def load8_def occurs_at_def)
  then show ?thesis by blast
next
  case (Cons y ys')
  then have "strstr m h n = strstr_loop m h n" using assms(2) by (auto simp: strstr_def load8_def)
  then show ?thesis using strstr_loop_cstr [OF assms(2) _ assms(1)] Cons by simp
qed

theorem strstr_first_witness:
  "cstr demo_text 0x100 [97, 98] \<and> cstr demo_text 0x200 [97, 99] \<and> strstr demo_text 0x100 0x200 = Some NULL"
proof -
  have "\<not> occurs_at [97, 99] [97, 98 :: u8] j" for j
    by (cases j; cases "j - 1") (auto simp: occurs_at_def)
  then show ?thesis using demo_cstr strstr_first [OF demo_cstr] by blast
qed

end
