(* ===== verification/Printf.thy ===== *)
theory Printf
  imports CString
begin

text \<open>
  The formatter of \<^verbatim>\<open>src/src/libc/printf.c\<close>. Its output is the sequence of the arguments of \<open>putchar\<close>,
  32-bit values; the format and the strings it prints are in memory; a variable argument is a 64-bit
  slot, of which \<open>va_arg\<close> takes the low part. \<open>print64\<close> writes into its 72-byte buffer from the end;
  \<open>None\<close> stands for undefined behaviour (a write before the buffer, an overflowing width, a missing
  argument) and for a string without terminator.
\<close>

section \<open>Numbers\<close>

definition PRINT_0X :: u32 where "PRINT_0X = 1"
definition ZERO_PADDING :: u32 where "ZERO_PADDING = 2"

definition hexdigits :: "u8 list" where
  "hexdigits = [48, 49, 50, 51, 52, 53, 54, 55, 56, 57, 97, 98, 99, 100, 101, 102]"

text \<open>\<open>buf\<close> and \<open>cur\<close>; \<open>*--cur = c\<close>.\<close>

type_synonym numbuf = "u8 list \<times> nat"

definition push_char :: "u8 \<Rightarrow> numbuf \<Rightarrow> numbuf option" where
  "push_char c = (\<lambda>(buf, cur). if cur = 0 then None else Some (buf[cur - 1 := c], cur - 1))"

partial_function (option) digit_loop :: "u64 \<Rightarrow> u64 \<Rightarrow> numbuf \<Rightarrow> numbuf option" where
  "digit_loop base unum st =
     Option.bind (push_char (hexdigits ! unat (unum mod base)) st)
       (\<lambda>st. if unum div base \<noteq> 0 then digit_loop base (unum div base) st else Some st)"

text \<open>\<open>while (digit-- > len) putchar(c);\<close>: the output and the final value of \<open>digit\<close>.\<close>

function pad_loop :: "u32 \<Rightarrow> int \<Rightarrow> int \<Rightarrow> u32 list \<Rightarrow> u32 list \<times> int" where
  "pad_loop c digit len out =
     (if digit > len then pad_loop c (digit - 1) len (out @ [c]) else (out, digit - 1))"
  by pat_completeness auto
termination by (relation "measure (\<lambda>(c, digit, len, out). nat (digit - len))") auto

declare pad_loop.simps [simp del]

definition buf_string :: "numbuf \<Rightarrow> u8 list" where
  "buf_string = (\<lambda>(buf, cur). takeWhile (\<lambda>c. c \<noteq> 0) (drop cur buf))"

text \<open>The part of \<open>print64\<close> that follows \<open>int len = strlen(cur);\<close>\<close>

definition print_padded :: "int \<Rightarrow> u32 \<Rightarrow> u8 list \<Rightarrow> u32 list" where
  "print_padded digit opt s =
     (let len = int (length s);
          (out, digit) =
            (if digit > 0
             then pad_loop (if opt AND ZERO_PADDING \<noteq> 0 then 48 else 32) digit len []
             else ([], digit));
          out = out @ map ucast s
      in if digit < 0 then fst (pad_loop 32 (- digit) len out) else out)"

definition print64 :: "u64 \<Rightarrow> u64 \<Rightarrow> bool \<Rightarrow> int \<Rightarrow> u32 \<Rightarrow> u32 list option" where
  "print64 num base sign digit opt =
     (let neg = (sign \<and> sint num < 0);
          unum = (if neg then - (num + 1) + 1 else num)
      in Option.bind (digit_loop base unum (replicate 72 0, 71)) (\<lambda>st.
         Option.bind (if opt AND PRINT_0X \<noteq> 0 then Option.bind (push_char 120 st) (push_char 48) else Some st) (\<lambda>st.
         Option.bind (if neg then push_char 45 st else Some st) (\<lambda>st.
           Some (print_padded digit opt (buf_string st))))))"

section \<open>Formats\<close>

definition isdigit :: "u8 \<Rightarrow> bool" where
  "isdigit c \<longleftrightarrow> 48 \<le> c \<and> c \<le> 57"

partial_function (option) fetch_loop :: "mem \<Rightarrow> addr \<Rightarrow> int \<Rightarrow> (addr \<times> int) option" where
  "fetch_loop m fmt n =
     (if isdigit (load8 m fmt)
      then if n * 10 + uint (load8 m fmt) > 2147483647 then None
           else fetch_loop m (fmt + 1) (n * 10 + uint (load8 m fmt) - 48)
      else Some (fmt, n))"

definition fetch_digit :: "mem \<Rightarrow> addr \<Rightarrow> (addr \<times> int \<times> bool) option" where
  "fetch_digit m fmt =
     (let (fmt, neg) = (if load8 m fmt = 45 then (fmt + 1, True) else (fmt, False));
          zero_padding = (load8 m fmt = 48);
          fmt = (if zero_padding then fmt + 1 else fmt)
      in case fetch_loop m fmt 0 of
           None \<Rightarrow> None
         | Some (fmt, n) \<Rightarrow> Some (fmt, if neg then - n else n, zero_padding))"

text \<open>\<open>puts\<close>: the bytes of a string, up to its terminator.\<close>

partial_function (option) puts_loop :: "mem \<Rightarrow> addr \<Rightarrow> u32 list \<Rightarrow> u32 list option" where
  "puts_loop m s out =
     (if load8 m s \<noteq> 0 then puts_loop m (s + 1) (out @ [ucast (load8 m s)]) else Some out)"

text \<open>\<open>(null)\<close>\<close>

definition null_text :: "u32 list" where
  "null_text = [40, 110, 117, 108, 108, 41]"

definition va_arg :: "u64 list \<Rightarrow> (u64 \<times> u64 list) option" where
  "va_arg ap = (case ap of [] \<Rightarrow> None | a # r \<Rightarrow> Some (a, r))"

definition print_arg :: "u64 list \<Rightarrow> (u64 \<Rightarrow> u32 list option) \<Rightarrow> (u64 list \<times> u32 list) option" where
  "print_arg ap f = Option.bind (va_arg ap) (\<lambda>(a, ap). map_option (\<lambda>out. (ap, out)) (f a))"

text \<open>The \<open>switch\<close> of \<open>vprintf\<close> at \<open>fmt\<close>: where it leaves \<open>fmt\<close>, the rest of the arguments and the output.\<close>

definition print_conv :: "mem \<Rightarrow> addr \<Rightarrow> int \<Rightarrow> bool \<Rightarrow> u64 list \<Rightarrow> (addr \<times> u64 list \<times> u32 list) option" where
  "print_conv m fmt digit zero_padding ap =
     (let c = load8 m fmt;
          opt = (if zero_padding then ZERO_PADDING else 0);
          here = (\<lambda>(ap, out). (fmt, ap, out))
      in if c = 100 then map_option here (print_arg ap (\<lambda>a. print64 (scast (ucast a :: u32)) 10 True digit opt))
         else if c = 117 then map_option here (print_arg ap (\<lambda>a. print64 (ucast (ucast a :: u32)) 10 False digit opt))
         else if c = 120 then map_option here (print_arg ap (\<lambda>a. print64 a 16 False digit opt))
         else if c = 112 then map_option here (print_arg ap (\<lambda>a. print64 a 16 False digit PRINT_0X))
         else if c = 108 \<or> c = 76
         then let fmt = fmt + 1;
                  c = load8 m fmt;
                  here = (\<lambda>(ap, out). (fmt, ap, out))
              in if c = 100 then map_option here (print_arg ap (\<lambda>a. print64 a 10 True digit opt))
                 else if c = 117 then map_option here (print_arg ap (\<lambda>a. print64 a 10 False digit opt))
                 else if c = 120 then map_option here (print_arg ap (\<lambda>a. print64 a 16 False digit opt))
                 else Some (fmt, ap, [37, 108, ucast c])
         else if c = 99 then map_option here (print_arg ap (\<lambda>a. Some [ucast a]))
         else if c = 115
         then map_option here (print_arg ap (\<lambda>a. if a = NULL then Some null_text else puts_loop m a []))
         else if c = 37 then Some (fmt, ap, [37])
         else Some (fmt, ap, [37, ucast c]))"

partial_function (option) vprintf_loop :: "mem \<Rightarrow> addr \<Rightarrow> u64 list \<Rightarrow> u32 list \<Rightarrow> u32 list option" where
  "vprintf_loop m fmt ap out =
     (if load8 m fmt = 0 then Some out
      else if load8 m fmt = 37
      then Option.bind (fetch_digit m (fmt + 1)) (\<lambda>(fmt, digit, zero_padding).
           Option.bind (print_conv m fmt digit zero_padding ap) (\<lambda>(fmt, ap, s).
             vprintf_loop m (fmt + 1) ap (out @ s)))
      else vprintf_loop m (fmt + 1) ap (out @ [ucast (load8 m fmt)]))"

text \<open>\<open>vprintf\<close>, \<open>printf\<close> and \<open>__printf_chk\<close> return 0 and print this sequence.\<close>

definition vprintf :: "mem \<Rightarrow> addr \<Rightarrow> u64 list \<Rightarrow> (int \<times> u32 list) option" where
  "vprintf m fmt ap = map_option (\<lambda>out. (0, out)) (vprintf_loop m fmt ap [])"

definition printf :: "mem \<Rightarrow> addr \<Rightarrow> u64 list \<Rightarrow> (int \<times> u32 list) option" where
  "printf m fmt ap = map_option (\<lambda>(_, out). (0, out)) (vprintf m fmt ap)"

definition printf_chk :: "mem \<Rightarrow> int \<Rightarrow> addr \<Rightarrow> u64 list \<Rightarrow> (int \<times> u32 list) option" where
  "printf_chk m flag fmt ap = map_option (\<lambda>(_, out). (0, out)) (vprintf m fmt ap)"

section \<open>The text of a number\<close>

text \<open>The digits of a number as printing them top down gives them, and how to read them back.\<close>

fun digits :: "nat \<Rightarrow> nat \<Rightarrow> u8 list" where
  "digits b n = (if b < 2 \<or> n < b then [hexdigits ! n] else digits b (n div b) @ [hexdigits ! (n mod b)])"

declare digits.simps [simp del]

definition digit_value :: "u8 \<Rightarrow> nat" where
  "digit_value c = (if c \<le> 57 then unat c - 48 else unat c - 87)"

definition parse :: "nat \<Rightarrow> u8 list \<Rightarrow> nat" where
  "parse b ds = foldl (\<lambda>n d. n * b + digit_value d) 0 ds"

lemma hexdigits_value: "n < 16 \<Longrightarrow> digit_value (hexdigits ! n) = n \<and> hexdigits ! n \<noteq> 0 \<and> hexdigits ! n \<noteq> 45"
proof -
  have "\<forall>n \<in> set [0..<16]. digit_value (hexdigits ! n) = n \<and> hexdigits ! n \<noteq> 0 \<and> hexdigits ! n \<noteq> 45"
    by (simp add: hexdigits_def digit_value_def upt_rec)
  then show "n < 16 \<Longrightarrow> digit_value (hexdigits ! n) = n \<and> hexdigits ! n \<noteq> 0 \<and> hexdigits ! n \<noteq> 45" by simp
qed

lemma digits_induct:
  assumes "\<And>n. n < b \<Longrightarrow> P n" "\<And>n. b \<le> n \<Longrightarrow> P (n div b) \<Longrightarrow> P n" "2 \<le> b"
  shows "P (n :: nat)"
proof (induction n rule: less_induct)
  case (less n)
  then show ?case using assms by (cases "n < b") (auto simp: not_less)
qed

lemma digits_unfold:
  assumes "2 \<le> b"
  shows "n < b \<Longrightarrow> digits b n = [hexdigits ! n]"
    "b \<le> n \<Longrightarrow> digits b n = digits b (n div b) @ [hexdigits ! (n mod b)]"
  using assms by (simp_all add: digits.simps [of b n])

lemma parse_digits:
  assumes "2 \<le> b" "b \<le> 16"
  shows "parse b (digits b n) = n"
proof (induction n rule: digits_induct [OF _ _ assms(1)])
  case (1 n)
  then show ?case using assms hexdigits_value [of n] by (simp add: digits_unfold parse_def)
next
  case (2 n)
  have "n mod b < 16" using assms by (meson le_less_trans less_le_trans mod_less_divisor zero_less_numeral)
  then show ?case using 2 assms hexdigits_value [of "n mod b"] by (simp add: digits_unfold parse_def)
qed

lemma digits_chars:
  assumes "2 \<le> b" "b \<le> 16"
  shows "0 \<notin> set (digits b n)" "45 \<notin> set (digits b n)" "digits b n \<noteq> []"
proof -
  have "0 \<notin> set (digits b n) \<and> 45 \<notin> set (digits b n) \<and> digits b n \<noteq> []"
  proof (induction n rule: digits_induct [OF _ _ assms(1)])
    case (1 n)
    then show ?case using assms hexdigits_value [of n] by (auto simp: digits_unfold)
  next
    case (2 n)
    have "n mod b < 16" using assms by (meson le_less_trans less_le_trans mod_less_divisor zero_less_numeral)
    then show ?case using 2 assms hexdigits_value [of "n mod b"] by (auto simp: digits_unfold)
  qed
  then show "0 \<notin> set (digits b n)" "45 \<notin> set (digits b n)" "digits b n \<noteq> []" by simp_all
qed

lemma digits_length:
  assumes "2 \<le> b" "n < b ^ Suc k"
  shows "length (digits b n) \<le> Suc k"
  using assms(2)
proof (induction k arbitrary: n)
  case 0
  then show ?case using assms(1) by (simp add: digits_unfold)
next
  case (Suc k)
  show ?case
  proof (cases "n < b")
    case False
    moreover have "n div b < b ^ Suc k" using Suc.prems by (simp add: less_mult_imp_div_less mult.commute)
    ultimately show ?thesis using Suc.IH [of "n div b"] assms(1) by (simp add: digits_unfold)
  qed (use assms(1) in \<open>simp add: digits_unfold\<close>)
qed

lemma digits_fit:
  assumes "2 \<le> b"
  shows "length (digits b (unat (x :: u64))) \<le> 64"
proof -
  have "(2 :: nat) ^ 64 \<le> b ^ 64" using assms by (rule power_mono) simp
  moreover have "unat x < 2 ^ 64" by simp
  ultimately have "unat x < b ^ 64" by (rule order.strict_trans2 [rotated])
  moreover have "Suc 63 = 64" by simp
  ultimately show ?thesis using digits_length [OF assms, of "unat x" 63] by metis
qed

section \<open>The buffer\<close>

text \<open>The buffer when it holds the text \<open>t\<close>.\<close>

definition numbuf_of :: "u8 list \<Rightarrow> numbuf" where
  "numbuf_of t = (replicate (71 - length t) 0 @ t @ [0], 71 - length t)"

lemma push_char_numbuf: "length t < 71 \<Longrightarrow> push_char c (numbuf_of t) = Some (numbuf_of (c # t))"
proof -
  assume "length t < 71"
  then obtain k where k: "71 - length t = Suc k" by (cases "71 - length t") auto
  then have "71 - Suc (length t) = k" by simp
  then show ?thesis
    by (simp add: push_char_def numbuf_of_def k list_update_append replicate_append_same [symmetric])
qed

lemma buf_string_numbuf: "0 \<notin> set t \<Longrightarrow> buf_string (numbuf_of t) = t"
proof -
  assume "0 \<notin> set t"
  then have "\<forall>c \<in> set t. c \<noteq> 0" by auto
  then show ?thesis by (simp add: buf_string_def numbuf_of_def)
qed

lemma digit_loop_numbuf:
  assumes b: "2 \<le> unat base" "unat base \<le> 16"
  shows "length (digits (unat base) (unat unum)) + length t \<le> 71 \<Longrightarrow>
    digit_loop base unum (numbuf_of t) = Some (numbuf_of (digits (unat base) (unat unum) @ t))"
proof (induction "unat unum" arbitrary: unum t rule: less_induct)
  case less
  let ?b = "unat base" and ?n = "unat unum"
  have dm: "unat (unum div base) = ?n div ?b" "unat (unum mod base) = ?n mod ?b"
    by (simp_all add: unat_div unat_mod)
  then have z: "unum div base = 0 \<longleftrightarrow> ?n < ?b" using b by (simp add: unat_eq_zero [symmetric] div_eq_0_iff)
  have "0 < length (digits ?b ?n)" using digits_chars(3) [OF b] by simp
  then have "length t < 71" using less.prems by linarith
  then have push: "push_char (hexdigits ! (?n mod ?b)) (numbuf_of t) = Some (numbuf_of (hexdigits ! (?n mod ?b) # t))"
    by (rule push_char_numbuf)
  show ?case
  proof (cases "?n < ?b")
    case True
    then show ?thesis using push z b by (subst digit_loop.simps) (simp add: dm digits_unfold)
  next
    case False
    then have e: "digits ?b ?n = digits ?b (?n div ?b) @ [hexdigits ! (?n mod ?b)]" using b by (simp add: digits_unfold)
    have "?n div ?b < ?n" using b False by (intro div_less_dividend) auto
    then have "digit_loop base (unum div base) (numbuf_of (hexdigits ! (?n mod ?b) # t)) =
        Some (numbuf_of (digits ?b (unat (unum div base)) @ hexdigits ! (?n mod ?b) # t))"
      using less.prems e by (intro less.hyps) (auto simp: dm)
    then show ?thesis using push z False e by (subst digit_loop.simps) (simp add: dm)
  qed
qed

lemma pad_loop_eq: "pad_loop c digit len out = (out @ replicate (nat (digit - len)) c, min digit len - 1)"
proof (induction c digit len out rule: pad_loop.induct)
  case (1 c digit len out)
  show ?case
  proof (cases "digit > len")
    case True
    then have "nat (digit - len) = Suc (nat (digit - 1 - len))" by simp
    then show ?thesis using 1 True by (subst pad_loop.simps) (simp add: replicate_append_same [symmetric])
  qed (subst pad_loop.simps, simp)
qed

section \<open>What \<open>print64\<close> prints\<close>

definition is_negative :: "bool \<Rightarrow> u64 \<Rightarrow> bool" where
  "is_negative sign num \<longleftrightarrow> sign \<and> sint num < 0"

definition magnitude :: "bool \<Rightarrow> u64 \<Rightarrow> nat" where
  "magnitude sign num = (if is_negative sign num then nat (- sint num) else unat num)"

definition number_text :: "u64 \<Rightarrow> nat \<Rightarrow> bool \<Rightarrow> u32 \<Rightarrow> u8 list" where
  "number_text num b sign opt =
     (if is_negative sign num then [45] else []) @
     (if opt AND PRINT_0X \<noteq> 0 then [48, 120] else []) @ digits b (magnitude sign num)"

definition pad_char :: "u32 \<Rightarrow> u32" where
  "pad_char opt = (if opt AND ZERO_PADDING \<noteq> 0 then 48 else 32)"

text \<open>A field: padded on the left to a positive width, on the right to a negative one.\<close>

definition field :: "int \<Rightarrow> u32 \<Rightarrow> u32 list \<Rightarrow> u32 list" where
  "field width pad s =
     replicate (nat (width - int (length s))) pad @ s @ replicate (nat (- width - int (length s))) 32"

lemma unat_negated:
  assumes "sint (num :: u64) < 0"
  shows "unat (- (num + 1) + 1) = nat (- sint num)"
proof -
  have e: "- (num + 1) + 1 = - num" by simp
  have k: "- sint num \<le> 9223372036854775808" using sint_ge [of num] by simp
  have "uint (word_of_int (- sint num) :: u64) = take_bit 64 (- sint num)" by (subst uint_word_of_int_eq) simp
  also have "\<dots> = - sint num" using k assms by (intro take_bit_int_eq_self) simp_all
  finally have "uint (- num) = - sint num" by simp
  then show ?thesis unfolding e by (metis unat_eq_nat_uint)
qed

lemma print_padded_field:
  assumes "s \<noteq> []"
  shows "print_padded width opt s = field width (pad_char opt) (map ucast s)"
proof -
  have l: "0 < int (length s)" using assms by simp
  show ?thesis
  proof (cases "width > 0")
    case True
    then have "\<not> min width (int (length s)) - 1 < 0" using l by linarith
    then show ?thesis using True by (simp add: print_padded_def pad_loop_eq field_def Let_def pad_char_def)
  qed (simp add: print_padded_def pad_loop_eq field_def Let_def pad_char_def)
qed

lemma print64_field:
  assumes "2 \<le> unat base" "unat base \<le> 16"
  shows "print64 num base sign digit opt =
    Some (field digit (pad_char opt) (map ucast (number_text num (unat base) sign opt)))"
proof -
  let ?neg = "is_negative sign num" and ?b = "unat base"
  define unum where "unum = (if ?neg then - (num + 1) + 1 else num)"
  have un: "unat unum = magnitude sign num"
    using unat_negated [of num] by (auto simp: unum_def magnitude_def is_negative_def)
  let ?d = "digits ?b (unat unum)" and ?t = "number_text num ?b sign opt"
  have l: "length ?d \<le> 64" using assms(1) by (rule digits_fit)
  have "digit_loop base unum (replicate 72 0, 71) = Some (numbuf_of ?d)"
  proof -
    have "(replicate 72 0, 71) = numbuf_of []" by (simp add: numbuf_of_def replicate_append_same flip: replicate_Suc)
    then show ?thesis using digit_loop_numbuf [OF assms, of unum "[]"] l by simp
  qed
  moreover have "(if opt AND PRINT_0X \<noteq> 0 then Option.bind (push_char 120 (numbuf_of ?d)) (push_char 48) else Some (numbuf_of ?d)) =
      Some (numbuf_of ((if opt AND PRINT_0X \<noteq> 0 then [48, 120] else []) @ ?d))"
    using l by (simp add: push_char_numbuf)
  moreover have "(if ?neg then push_char 45 (numbuf_of ((if opt AND PRINT_0X \<noteq> 0 then [48, 120] else []) @ ?d))
      else Some (numbuf_of ((if opt AND PRINT_0X \<noteq> 0 then [48, 120] else []) @ ?d))) = Some (numbuf_of ?t)"
    using l by (simp add: push_char_numbuf number_text_def un)
  moreover have "buf_string (numbuf_of ?t) = ?t"
    using digits_chars(1) [OF assms] by (intro buf_string_numbuf) (auto simp: number_text_def)
  moreover have "0 < length ?t" using digits_chars(3) [OF assms] by (simp add: number_text_def)
  moreover have "print64 num base sign digit opt =
      Option.bind (digit_loop base unum (replicate 72 0, 71)) (\<lambda>st.
      Option.bind (if opt AND PRINT_0X \<noteq> 0 then Option.bind (push_char 120 st) (push_char 48) else Some st) (\<lambda>st.
      Option.bind (if ?neg then push_char 45 st else Some st) (\<lambda>st. Some (print_padded digit opt (buf_string st)))))"
    unfolding print64_def unum_def is_negative_def Let_def by (rule refl)
  ultimately show ?thesis using print_padded_field [of ?t digit opt] by simp
qed

section \<open>What a format prints\<close>

text \<open>
  A well-formed format is a sequence of items: a literal byte, \<open>%%\<close>, or a conversion with an
  optional minus sign, an optional zero and the digits of a width.
\<close>

datatype conv = Cd | Cu | Cx | Cp | Cld | Clu | Clx | Cc | Cs

datatype item = Text u8 | Percent | Conv bool bool "u8 list" conv

fun letters :: "conv \<Rightarrow> u8 list" where
  "letters Cd = [100]" | "letters Cu = [117]" | "letters Cx = [120]" | "letters Cp = [112]"
| "letters Cld = [108, 100]" | "letters Clu = [108, 117]" | "letters Clx = [108, 120]"
| "letters Cc = [99]" | "letters Cs = [115]"

fun encode :: "item \<Rightarrow> u8 list" where
  "encode (Text c) = [c]"
| "encode Percent = [37, 37]"
| "encode (Conv neg zero ds k) =
     37 # (if neg then [45] else []) @ (if zero then [48] else []) @ ds @ letters k"

fun item_ok :: "item \<Rightarrow> bool" where
  "item_ok (Text c) \<longleftrightarrow> c \<noteq> 37"
| "item_ok Percent \<longleftrightarrow> True"
| "item_ok (Conv neg zero ds k) \<longleftrightarrow>
     (\<forall>d \<in> set ds. isdigit d) \<and> length ds \<le> 9 \<and> (zero \<or> ds = [] \<or> hd ds \<noteq> 48)"

text \<open>What a conversion prints for its argument.\<close>

fun conv_text :: "mem \<Rightarrow> int \<Rightarrow> bool \<Rightarrow> conv \<Rightarrow> u64 \<Rightarrow> u32 list option" where
  "conv_text m w z k a =
     (let pad = (if z then 48 else 32);
          num = (\<lambda>v b sign. Some (field w pad (map ucast (number_text v b sign 0))))
      in case k of
        Cd \<Rightarrow> num (scast (ucast a :: u32)) 10 True
      | Cu \<Rightarrow> num (ucast (ucast a :: u32)) 10 False
      | Cx \<Rightarrow> num a 16 False
      | Cp \<Rightarrow> Some (field w 32 (map ucast (number_text a 16 False PRINT_0X)))
      | Cld \<Rightarrow> num a 10 True
      | Clu \<Rightarrow> num a 10 False
      | Clx \<Rightarrow> num a 16 False
      | Cc \<Rightarrow> Some [ucast a]
      | Cs \<Rightarrow> if a = NULL then Some null_text else puts_loop m a [])"

fun render :: "mem \<Rightarrow> item list \<Rightarrow> u64 list \<Rightarrow> u32 list option" where
  "render m [] ap = Some []"
| "render m (Text c # its) ap = map_option ((#) (ucast c)) (render m its ap)"
| "render m (Percent # its) ap = map_option ((#) 37) (render m its ap)"
| "render m (Conv neg zero ds k # its) [] = None"
| "render m (Conv neg zero ds k # its) (a # ap) =
     (let w = int (parse 10 ds)
      in Option.bind (conv_text m (if neg then - w else w) zero k a) (\<lambda>s. map_option ((@) s) (render m its ap)))"

lemma isdigit_value:
  assumes "isdigit d"
  shows "uint d - 48 = int (digit_value d)" "uint d \<le> 57"
proof -
  have "48 \<le> unat d" "unat d \<le> 57" using assms by (simp_all add: isdigit_def word_le_nat_alt)
  moreover have "uint d = int (unat d)" by simp
  moreover have "digit_value d = unat d - 48" using assms by (simp add: digit_value_def isdigit_def)
  ultimately show "uint d - 48 = int (digit_value d)" "uint d \<le> 57" by linarith+
qed

lemma puts_loop_cstr: "cstr m s xs \<Longrightarrow> puts_loop m s out = Some (out @ map ucast xs)"
proof (induction xs arbitrary: s out)
  case Nil
  then show ?case by (subst puts_loop.simps) (simp add: load8_def)
next
  case (Cons x xs)
  then show ?case by (subst puts_loop.simps) (simp add: load8_def)
qed

text \<open>Reading the digits of a width.\<close>

lemma fetch_loop_digits:
  assumes "\<forall>d \<in> set ds. isdigit d" "\<not> isdigit c" "length ds + j \<le> 9" "0 \<le> n" "n < 10 ^ j"
    "cstr m p (ds @ c # rest)"
  shows "fetch_loop m p n = Some (p + of_nat (length ds), foldl (\<lambda>n d. n * 10 + int (digit_value d)) n ds)"
  using assms
proof (induction ds arbitrary: p n j)
  case Nil
  then show ?case by (subst fetch_loop.simps) (simp add: load8_def)
next
  case (Cons d ds)
  have d: "isdigit d" "m p = d" using Cons.prems by auto
  note v = isdigit_value [OF d(1)]
  have "(10 :: int) ^ Suc j \<le> 10 ^ 9" using Cons.prems(3) by (intro power_increasing) auto
  then have le: "\<not> n * 10 + uint d > 2147483647" using Cons.prems(5) v(2) by simp
  have "digit_value d < 10" using v by linarith
  then have "n * 10 + int (digit_value d) < 10 ^ Suc j" using Cons.prems(5) by simp
  then have "fetch_loop m (p + 1) (n * 10 + int (digit_value d)) =
      Some (p + 1 + of_nat (length ds), foldl (\<lambda>n d. n * 10 + int (digit_value d)) (n * 10 + int (digit_value d)) ds)"
    using Cons.prems by (intro Cons.IH [of "Suc j"]) auto
  moreover have "fetch_loop m p n = fetch_loop m (p + 1) (n * 10 + uint d - 48)"
    using d le by (subst fetch_loop.simps) (simp add: load8_def)
  moreover have "n * 10 + uint d - 48 = n * 10 + int (digit_value d)" using v(1) by simp
  ultimately show ?case by (simp add: add.assoc)
qed

lemma int_parse: "foldl (\<lambda>n d. n * 10 + int (digit_value d)) (int n) ds = int (foldl (\<lambda>n d. n * 10 + digit_value d) n ds)"
proof (induction ds arbitrary: n)
  case (Cons d ds)
  show ?case using Cons [of "n * 10 + digit_value d"] by simp
qed simp

lemma fetch_digit_width:
  assumes ok: "item_ok (Conv neg zero ds k)" and c: "\<not> isdigit c" "c \<noteq> 45"
    and s: "cstr m p ((if neg then [45] else []) @ (if zero then [48] else []) @ ds @ c # rest)"
  shows "fetch_digit m p = Some (p + of_nat (length ((if neg then [45 :: u8] else []) @ (if zero then [48 :: u8] else []) @ ds)),
     if neg then - int (parse 10 ds) else int (parse 10 ds), zero)"
proof -
  let ?p1 = "if neg then p + 1 else p"
  let ?p2 = "if zero then ?p1 + 1 else ?p1"
  have s1: "cstr m ?p1 ((if zero then [48] else []) @ ds @ c # rest)" using s by (cases neg) auto
  then have s2: "cstr m ?p2 (ds @ c # rest)" by (cases zero) auto
  have ds: "\<forall>d \<in> set ds. isdigit d" "length ds \<le> 9" using ok by auto
  have "load8 m p = 45 \<longleftrightarrow> neg"
    using s ds(1) c by (cases neg; cases zero; cases ds) (auto simp: load8_def isdigit_def)
  moreover have "load8 m ?p1 = 48 \<longleftrightarrow> zero"
    using s1 ok c by (cases zero; cases ds) (auto simp: load8_def isdigit_def)
  moreover have "fetch_loop m ?p2 0 = Some (?p2 + of_nat (length ds), int (parse 10 ds))"
    using fetch_loop_digits [OF ds(1) c(1) _ _ _ s2, of 0 0] ds(2) int_parse [of 0 ds] by (simp add: parse_def)
  ultimately show ?thesis
    by (auto simp: fetch_digit_def Let_def add.assoc)
qed

lemma print_conv_text:
  assumes "cstr m p (letters k @ rest)" "conv_text m w z k a = Some s"
  shows "print_conv m p w z (a # ap) = Some (p + of_nat (length (letters k)) - 1, ap, s)"
proof -
  have pc: "pad_char ZERO_PADDING = 48" "pad_char 0 = 32" "pad_char PRINT_0X = 32"
    by (simp_all add: pad_char_def ZERO_PADDING_def PRINT_0X_def)
  have nt: "number_text v b sg ZERO_PADDING = number_text v b sg 0" for v b sg
    by (simp add: number_text_def ZERO_PADDING_def PRINT_0X_def)
  show ?thesis
    using assms
    by (cases k; cases z)
      (auto simp: print_conv_def Let_def load8_def print_arg_def va_arg_def print64_field pc nt split: if_splits)
qed

lemma letters_first: "\<exists>c r. letters k = c # r \<and> \<not> isdigit c \<and> c \<noteq> 45"
  by (cases k) (auto simp: isdigit_def)

lemma vprintf_loop_renders:
  assumes "render m its ap = Some s" "\<forall>it \<in> set its. item_ok it" "cstr m fmt (concat (map encode its))"
  shows "vprintf_loop m fmt ap out = Some (out @ s)"
  using assms
proof (induction m its ap arbitrary: fmt out s rule: render.induct)
  case (1 m ap)
  then show ?case by (subst vprintf_loop.simps) (simp add: load8_def)
next
  case (2 m c its ap)
  then obtain t where t: "render m its ap = Some t" "s = ucast c # t" by auto
  have "vprintf_loop m (fmt + 1) ap (out @ [ucast c]) = Some ((out @ [ucast c]) @ t)"
    using 2 t(1) by (intro "2.IH") auto
  then show ?case using 2 t by (subst vprintf_loop.simps) (auto simp: load8_def)
next
  case (3 m its ap)
  then obtain t where t: "render m its ap = Some t" "s = 37 # t" by auto
  have "fetch_digit m (fmt + 1) = Some (fmt + 1, 0, False)"
    using 3 by (auto simp: fetch_digit_def load8_def fetch_loop.simps isdigit_def)
  moreover have "print_conv m (fmt + 1) 0 False ap = Some (fmt + 1, ap, [37])"
    using 3 by (simp add: print_conv_def load8_def)
  moreover have "vprintf_loop m (fmt + 1 + 1) ap (out @ [37]) = Some ((out @ [37]) @ t)"
    using 3 t(1) by (intro "3.IH") (auto simp: add.assoc)
  ultimately show ?case using 3 t by (subst vprintf_loop.simps) (simp add: load8_def)
next
  case (5 m neg zero ds k its a ap)
  let ?w = "if neg then - int (parse 10 ds) else int (parse 10 ds)"
  let ?pre = "(if neg then [45] else []) @ (if zero then [48] else []) @ ds :: u8 list"
  let ?rest = "concat (map encode its)"
  obtain x t where x: "conv_text m ?w zero k a = Some x" and t: "render m its ap = Some t" "s = x @ t"
    using "5.prems"(1) by (auto simp: Let_def bind_eq_Some_conv)
  obtain c r where cr: "letters k = c # r" "\<not> isdigit c" "c \<noteq> 45" using letters_first by blast
  have f: "m fmt = 37" "cstr m (fmt + 1) (?pre @ letters k @ ?rest)" using "5.prems"(3) by auto
  have fd: "fetch_digit m (fmt + 1) = Some (fmt + 1 + of_nat (length ?pre), ?w, zero)"
    using f(2) "5.prems"(2) cr by (intro fetch_digit_width [of neg zero ds k]) simp_all
  define q where "q = fmt + 1 + of_nat (length ?pre)"
  note fd = fd [folded q_def]
  have q: "cstr m q (letters k @ ?rest)"
    using f(2) unfolding cstr_append [of m "fmt + 1" ?pre] q_def by blast
  have pc: "print_conv m q ?w zero (a # ap) = Some (q + of_nat (length (letters k)) - 1, ap, x)"
    by (rule print_conv_text [OF q x])
  have "cstr m (q + of_nat (length (letters k))) ?rest" using q unfolding cstr_append [of m q] by blast
  then have "vprintf_loop m (q + of_nat (length (letters k)) - 1 + 1) ap (out @ x) = Some ((out @ x) @ t)"
    using "5.prems"(2) t(1) by (intro "5.IH" [OF refl x]) simp_all
  then show ?case using f(1) fd pc t(2) by (subst vprintf_loop.simps) (simp add: load8_def)
qed simp

section \<open>Properties\<close>

text \<open>
  \<open>print64\<close> prints every 64-bit value in every base from 2 to 16 without leaving its 72-byte
  buffer: the sign, the prefix and the digits of the magnitude, padded to the width on the left or
  on the right; and the digits read back are the magnitude.
\<close>

theorem print64_correct:
  assumes "2 \<le> unat base" "unat base \<le> 16"
  shows "print64 num base sign digit opt =
      Some (field digit (pad_char opt) (map ucast (number_text num (unat base) sign opt))) \<and>
    parse (unat base) (digits (unat base) (magnitude sign num)) = magnitude sign num \<and>
    length (digits (unat base) (magnitude sign num)) \<le> 64"
proof (intro conjI)
  show "print64 num base sign digit opt =
      Some (field digit (pad_char opt) (map ucast (number_text num (unat base) sign opt)))"
    using assms by (rule print64_field)
  show "parse (unat base) (digits (unat base) (magnitude sign num)) = magnitude sign num"
    using assms by (rule parse_digits)
  have "magnitude sign num = unat (if is_negative sign num then - (num + 1) + 1 else num)"
    using unat_negated [of num] by (auto simp: magnitude_def is_negative_def)
  then show "length (digits (unat base) (magnitude sign num)) \<le> 64"
    using digits_fit [OF assms(1)] by metis
qed

theorem print64_correct_witness:
  "print64 (- 42) 10 True 5 0 = Some [32, 32, 45, 52, 50]"
proof -
  have "digits 10 42 = [52, 50]" by (simp add: digits.simps hexdigits_def)
  moreover have "replicate 2 (32 :: u32) = [32, 32]" by (simp add: numeral_2_eq_2)
  ultimately show ?thesis
    using print64_correct [of 10 "- 42" True 5 0]
    by (simp add: field_def pad_char_def number_text_def is_negative_def magnitude_def)
qed

text \<open>
  C27. \<open>printf\<close> of a well-formed format (literal bytes, \<open>%%\<close>, and the conversions \<open>d u x p ld lu lx c s\<close>
  with an optional minus sign, zero and width of at most nine digits) returns 0 and prints the
  texts of its items one after the other, each conversion consuming one argument; \<open>__printf_chk\<close>
  does the same.
\<close>

theorem printf_renders:
  assumes "render m its ap = Some s" "\<forall>it \<in> set its. item_ok it" "cstr m fmt (concat (map encode its))"
  shows "printf m fmt ap = Some (0, s) \<and> printf_chk m flag fmt ap = Some (0, s)"
  using vprintf_loop_renders [OF assms, of "[]"] by (simp add: printf_def printf_chk_def vprintf_def)

theorem printf_renders_witness:
  "(let m = (\<lambda>_. 0)(0x100 := 120, 0x101 := 61, 0x102 := 37, 0x103 := 108, 0x104 := 117)
    in printf m 0x100 [7] = Some (0, [120, 61, 55]) \<and> printf_chk m 1 0x100 [7] = Some (0, [120, 61, 55]))"
proof -
  let ?m = "(\<lambda>_. 0)(0x100 := 120, 0x101 := 61, 0x102 := 37, 0x103 := 108, 0x104 := 117) :: mem"
  let ?its = "[Text 120, Text 61, Conv False False [] Clu]"
  have "digits 10 7 = [55]" by (simp add: digits.simps hexdigits_def)
  then have "render ?m ?its [7] = Some [120, 61, 55]"
    by (simp add: parse_def field_def number_text_def is_negative_def magnitude_def)
  moreover have "\<forall>it \<in> set ?its. item_ok it" by simp
  moreover have "cstr ?m 0x100 (concat (map encode ?its))" by simp
  ultimately show ?thesis unfolding Let_def by (rule printf_renders)
qed

text \<open>
  Zero padding goes in front of the sign: a negative number printed with a zero-padded width
  has the zeros before the minus sign, \<open>%05d\<close> of \<open>-42\<close> prints \<open>00-42\<close>.
\<close>

theorem zero_padding_before_sign:
  assumes "sint num < 0" "length (digits 10 (magnitude True num)) + 1 < nat digit"
  shows "\<exists>z r. print64 num 10 True digit ZERO_PADDING = Some (48 # z @ 45 # r) \<and> 45 \<notin> set z"
proof -
  define d :: "u32 list" where "d = map ucast (digits 10 (magnitude True num))"
  obtain k where k: "nat (digit - int (length d + 1)) = Suc k"
    using assms(2) by (cases "nat (digit - int (length d + 1))") (auto simp: d_def)
  have nt: "map ucast (number_text num 10 True ZERO_PADDING) = 45 # d"
    using assms(1) by (simp add: number_text_def is_negative_def d_def ZERO_PADDING_def PRINT_0X_def)
  have "field digit (pad_char ZERO_PADDING) (45 # d) =
      48 # replicate k 48 @ 45 # (d @ replicate (nat (- digit - int (length d + 1))) 32)"
    using k by (simp add: field_def pad_char_def ZERO_PADDING_def add.commute)
  moreover have "print64 num 10 True digit ZERO_PADDING = Some (field digit (pad_char ZERO_PADDING) (45 # d))"
    using print64_field [of 10 num True digit ZERO_PADDING] nt by simp
  moreover have "(45 :: u32) \<notin> set (replicate k 48)" by simp
  ultimately show ?thesis by metis
qed

theorem zero_padding_before_sign_witness:
  "\<exists>z r. print64 (- 42) 10 True 5 ZERO_PADDING = Some (48 # z @ 45 # r) \<and> 45 \<notin> set z"
  by (rule zero_padding_before_sign) (simp_all add: magnitude_def is_negative_def digits.simps)

text \<open>
  A format that ends in a lone \<open>%\<close> makes \<open>vprintf\<close> print a NUL and go on reading behind the
  terminator: the rest of the output is whatever the memory after the string formats to.
\<close>

theorem lone_percent_overreads:
  assumes "cstr m fmt [37]"
  shows "vprintf_loop m fmt ap out = vprintf_loop m (fmt + 2) ap (out @ [37, 0])"
proof -
  have "fetch_digit m (fmt + 1) = Some (fmt + 1, 0, False)"
    using assms by (simp add: fetch_digit_def load8_def fetch_loop.simps isdigit_def)
  moreover have "print_conv m (fmt + 1) 0 False ap = Some (fmt + 1, ap, [37, 0])"
    using assms by (simp add: print_conv_def load8_def)
  ultimately show ?thesis using assms by (subst vprintf_loop.simps) (simp add: load8_def add.assoc)
qed

theorem lone_percent_overreads_witness:
  "cstr ((\<lambda>_. 65)(0x100 := 37, 0x101 := 0)) 0x100 [37] \<and>
   vprintf_loop ((\<lambda>_. 65)(0x100 := 37, 0x101 := 0)) 0x100 [] [] =
     vprintf_loop ((\<lambda>_. 65)(0x100 := 37, 0x101 := 0)) 0x102 [] [37, 0]"
  using lone_percent_overreads [of "(\<lambda>_. 65)(0x100 := 37, 0x101 := 0)" "0x100" "[]" "[]"] by simp

end
