(* ===== verification/Text.thy ===== *)
theory Text
  imports Printf
begin

text \<open>
  Calls of \<open>printf\<close> with a string literal as format. A literal is at an address the linker chooses: \<open>lit\<close> gives
  it, and \<open>literals m lit L\<close> says that memory holds the literals \<open>L\<close> there. \<open>items\<close> parses a format;
  \<open>text_of\<close> is what a literal format prints, and it is what \<open>printf\<close> prints.
\<close>

definition ascii :: "string \<Rightarrow> u8 list" where "ascii = map of_char"

definition literals :: "mem \<Rightarrow> (string \<Rightarrow> addr) \<Rightarrow> string set \<Rightarrow> bool" where
  "literals m lit L \<longleftrightarrow> (\<forall>s \<in> L. cstr m (lit s) (ascii s) \<and> lit s \<noteq> NULL)"

section \<open>Strings in memory\<close>

lemma cstr_frame:
  assumes "cstr m s xs" "agree (span s (Suc (length xs))) m' m"
  shows "cstr m' s xs"
proof (rule cstr_intro)
  have at: "m' (s + of_nat i) = m (s + of_nat i)" if "i \<le> length xs" for i
    using assms(2) that cstr_length [OF assms(1)] by (simp add: agree_def span_iff unat_of_nat64)
  show "m' (s + of_nat i) = xs ! i" if "i < length xs" for i using at [of i] cstr_nth [OF assms(1) that] that by simp
  show "0 \<notin> set xs" using cstr_nth [OF assms(1)] by (metis in_set_conv_nth)
  show "m' (s + of_nat (length xs)) = 0" using at [of "length xs"] cstr_end [OF assms(1)] by simp
qed

lemma render_texts: "render m (map Text cs @ its) ap = map_option ((@) (map ucast cs)) (render m its ap)"
  by (induction cs) (simp_all add: option.map_comp comp_def option.map_ident)

text \<open>The initialiser of an array.\<close>

fun init_bytes :: "mem \<Rightarrow> addr \<Rightarrow> u8 list \<Rightarrow> mem" where
  "init_bytes m a [] = m"
| "init_bytes m a (x # xs) = init_bytes (store8 m a x) (a + 1) xs"

lemma init_bytes_agree: "agree (- span a (length xs)) (init_bytes m a xs) m" if "length xs < 18446744073709551616"
  using that
proof (induction m a xs rule: init_bytes.induct)
  case (2 m a x xs)
  have "span (a + 1) (length xs) \<subseteq> span a (length (x # xs))" "span a 1 \<subseteq> span a (length (x # xs))"
    using span_offset [of 1 "length xs" "length (x # xs)" a] 2(2) by (auto simp: span_iff)
  then have "agree (- span a (length (x # xs))) (init_bytes (store8 m a x) (a + 1) xs) (store8 m a x)"
    "agree (- span a (length (x # xs))) (store8 m a x) m"
    using 2 by (simp add: agree_mono, intro c8.wr_agree) auto
  then show ?case using agree_trans by fastforce
qed simp

lemma init_bytes_cstr: "0 \<notin> set xs \<Longrightarrow> length xs < 1000 \<Longrightarrow> cstr (init_bytes m a (xs @ [0])) a xs"
proof (induction xs arbitrary: m a)
  case (Cons x xs)
  have l: "length (xs @ [0]) < 18446744073709551616" using Cons.prems by simp
  have "a \<notin> span (a + 1) (length (xs @ [0]))" using Cons.prems(2) by (simp add: span_iff unsigned_minus_1_eq_mask mask_eq_exp_minus_1)
  then have "init_bytes (store8 m a x) (a + 1) (xs @ [0]) a = store8 m a x a"
    using init_bytes_agree [OF l, of "a + 1" "store8 m a x"] by (simp add: agree_def)
  then show ?case using Cons by (simp add: store8_def)
qed (simp add: store8_def)

text \<open>Literals one after the other, each in 256 bytes.\<close>

fun place :: "mem \<Rightarrow> addr \<Rightarrow> string list \<Rightarrow> mem" where
  "place m a [] = m"
| "place m a (s # ss) = init_bytes (place m (a + 256) ss) a (ascii s @ [0])"

fun place_of :: "addr \<Rightarrow> string list \<Rightarrow> string \<Rightarrow> addr" where
  "place_of a [] s = a"
| "place_of a (t # ts) s = (if s = t then a else place_of (a + 256) ts s)"

definition plain_strings :: "string list \<Rightarrow> bool" where
  "plain_strings ss \<longleftrightarrow> list_all (\<lambda>s. length s < 255 \<and> 0 \<notin> set (ascii s)) ss"

definition placeable :: "addr \<Rightarrow> string list \<Rightarrow> bool" where
  "placeable a ss \<longleftrightarrow> 0 < a \<and> unat a + 256 * length ss < 18446744073709551616 \<and> plain_strings ss"

lemma placeable_Cons:
  assumes "placeable a (s # ss)"
  shows "placeable (a + 256) ss" "unat (a + 256) = unat a + 256"
proof -
  show u: "unat (a + 256) = unat a + 256" using assms by (simp add: placeable_def unat_word_ariths)
  show "placeable (a + 256) ss" using assms u by (auto simp: placeable_def plain_strings_def word_less_nat_alt)
qed

lemma place_of_range: "placeable a ss \<Longrightarrow> s \<in> set ss \<Longrightarrow> unat a \<le> unat (place_of a ss s) \<and> unat (place_of a ss s) + 256 \<le> unat a + 256 * length ss"
proof (induction ss arbitrary: a)
  case (Cons t ts)
  then show ?case using placeable_Cons [OF Cons.prems(1)] Cons.IH [of "a + 256"] by auto
qed simp

lemma span_apart:
  assumes "unat a + n \<le> unat b" "unat b + k \<le> 18446744073709551616"
  shows "span a n \<inter> span b k = {}"
  using assms by (auto simp: span_nowrap)

lemma place_literals: "placeable a ss \<Longrightarrow> literals (place m a ss) (place_of a ss) (set ss)"
proof (induction ss arbitrary: a)
  case (Cons t ts)
  note c = placeable_Cons [OF Cons.prems] and pl = Cons.prems [unfolded placeable_def plain_strings_def]
  have l: "length (ascii t @ [0]) < 18446744073709551616" using pl by (simp add: ascii_def)
  have "cstr (place m a (t # ts)) (place_of a (t # ts) s) (ascii s) \<and> place_of a (t # ts) s \<noteq> NULL" if "s \<in> set (t # ts)" for s
  proof (cases "s = t")
    case True
    moreover have "a \<noteq> NULL" using pl by auto
    ultimately show ?thesis using pl init_bytes_cstr [of "ascii t"] by (simp add: ascii_def del: cstr.simps)
  next
    case False
    let ?p = "place_of (a + 256) ts s"
    have s: "s \<in> set ts" using False that by simp
    then have o: "cstr (place m (a + 256) ts) ?p (ascii s)" "?p \<noteq> NULL" using Cons.IH [OF c(1)] by (auto simp: literals_def simp del: cstr.simps)
    have "length s < 255" using s pl by (auto simp: list_all_iff)
    moreover have "span a (length (ascii t @ [0])) \<inter> span ?p 256 = {}"
      using place_of_range [OF c(1) s] c(2) pl by (intro span_apart) (auto simp: ascii_def)
    moreover have "span ?p (Suc (length (ascii s))) \<subseteq> span ?p 256" using calculation(1) by (auto simp: span_iff ascii_def)
    ultimately have "agree (span ?p (Suc (length (ascii s)))) (place m a (t # ts)) (place m (a + 256) ts)"
      by (simp only: place.simps, intro agree_mono [OF init_bytes_agree [OF l]]) blast
    then show ?thesis using cstr_frame [OF o(1)] o(2) False by simp
  qed
  then show ?case by (simp add: literals_def del: cstr.simps)
qed (simp add: literals_def)

lemma place_agree: "placeable a ss \<Longrightarrow> agree (- span a (256 * length ss)) (place m a ss) m"
proof (induction ss arbitrary: a)
  case (Cons t ts)
  note c = placeable_Cons [OF Cons.prems] and pl = Cons.prems [unfolded placeable_def plain_strings_def]
  have l: "length (ascii t @ [0]) < 18446744073709551616" "length (ascii t @ [0]) \<le> 256 * length (t # ts)" using pl by (simp_all add: ascii_def)
  have "span (a + 256) (256 * length ts) \<subseteq> span a (256 * length (t # ts))"
    using span_offset [of 256 "256 * length ts" "256 * length (t # ts)" a] pl by simp
  then have "agree (- span a (256 * length (t # ts))) (place m (a + 256) ts) m" using Cons.IH [OF c(1)] by (auto intro: agree_mono)
  moreover have "agree (- span a (256 * length (t # ts))) (place m a (t # ts)) (place m (a + 256) ts)"
    using span_mono [OF l(2), of a] by (simp only: place.simps, intro agree_mono [OF init_bytes_agree [OF l(1)]]) blast
  ultimately show ?case using agree_trans by blast
qed simp

section \<open>Parsing a format\<close>

definition take_conv :: "u8 list \<Rightarrow> (conv \<times> u8 list) option" where
  "take_conv cs =
     map_option (\<lambda>k. (k, drop (length (letters k)) cs))
       (find (\<lambda>k. take (length (letters k)) cs = letters k) [Cd, Cu, Cx, Cp, Cld, Clu, Clx, Cc, Cs])"

lemma take_conv_letters: "take_conv cs = Some (k, r) \<Longrightarrow> cs = letters k @ r"
proof -
  have sat: "find P xs = Some x \<Longrightarrow> P x" for P and xs :: "conv list" and x by (induction xs) (auto split: if_splits)
  assume "take_conv cs = Some (k, r)"
  then have f: "find (\<lambda>k. take (length (letters k)) cs = letters k) [Cd, Cu, Cx, Cp, Cld, Clu, Clx, Cc, Cs] = Some k" "r = drop (length (letters k)) cs"
    by (simp_all add: take_conv_def del: find.simps)
  show ?thesis using sat [OF f(1)] f(2) by (metis append_take_drop_id)
qed

function items :: "u8 list \<Rightarrow> item list option" where
  "items [] = Some []"
| "items (c # cs) =
     (if c \<noteq> 37 then map_option ((#) (Text c)) (items cs)
      else if take 1 cs = [37] then map_option ((#) Percent) (items (tl cs))
      else
        let neg = (take 1 cs = [45]);
            cs1 = (if neg then tl cs else cs);
            zero = (take 1 cs1 = [48]);
            cs2 = (if zero then tl cs1 else cs1);
            ds = takeWhile isdigit cs2
        in if length ds \<le> 9
           then (case take_conv (dropWhile isdigit cs2) of
                   None \<Rightarrow> None
                 | Some (k, r) \<Rightarrow> map_option ((#) (Conv neg zero ds k)) (items r))
           else None)"
  by pat_completeness auto
termination
proof (relation "measure length", goal_cases)
  case (4 c cs neg cs1 zero cs2 ds x k r)
  have "dropWhile isdigit cs2 = letters k @ r" using take_conv_letters 4 by metis
  then have "length r \<le> length (dropWhile isdigit cs2)" by simp
  also have "\<dots> \<le> length cs2" by (rule length_dropWhile_le)
  also have "\<dots> \<le> length cs" using 4(3-6) by (auto simp: Let_def)
  finally show ?case by simp
qed auto

lemma peek: "take 1 cs = [c] \<Longrightarrow> cs = c # tl cs"
  by (cases cs) auto

lemma items_sound:
  "items cs = Some its \<Longrightarrow> concat (map encode its) = cs \<and> (\<forall>it \<in> set its. item_ok it)"
proof (induction cs arbitrary: its rule: items.induct)
  case (2 c cs)
  consider "c \<noteq> 37" | "c = 37" "take 1 cs = [37]" | "c = 37" "take 1 cs \<noteq> [37]" by blast
  then show ?case
  proof cases
    case 1
    then show ?thesis using "2.IH"(1) "2.prems" by auto
  next
    case 2
    then show ?thesis using "2.IH"(2) "2.prems" peek [OF 2(2)] by (auto split: if_splits)
  next
    case 3
    define neg where "neg \<longleftrightarrow> take 1 cs = [45]"
    define cs1 where "cs1 = (if neg then tl cs else cs)"
    define zero where "zero \<longleftrightarrow> take 1 cs1 = [48]"
    define cs2 where "cs2 = (if zero then tl cs1 else cs1)"
    define ds where "ds = takeWhile isdigit cs2"
    obtain k r its' where r: "length ds \<le> 9" "take_conv (dropWhile isdigit cs2) = Some (k, r)" "items r = Some its'"
      "its = Conv neg zero ds k # its'"
      using "2.prems" 3 by (auto simp: neg_def cs1_def zero_def cs2_def ds_def Let_def split: if_splits option.splits)
    have ih: "concat (map encode its') = r" "\<forall>it \<in> set its'. item_ok it"
      using "2.IH"(3) [OF _ _ neg_def cs1_def zero_def cs2_def ds_def r(1,2) refl r(3)] 3 by (auto simp: neg_def)
    have "cs1 = (if zero then [48] else []) @ cs2" "cs = (if neg then [45] else []) @ cs1"
      using peek by (auto simp: cs2_def cs1_def zero_def neg_def)
    moreover have "cs2 = ds @ letters k @ r" using take_conv_letters [OF r(2)] takeWhile_dropWhile_id [of isdigit cs2] by (simp add: ds_def)
    moreover have "zero \<or> ds = [] \<or> hd ds \<noteq> 48"
      unfolding zero_def ds_def cs2_def by (cases cs1) (auto simp: zero_def)
    moreover have "\<forall>d \<in> set ds. isdigit d" by (auto simp: ds_def dest: set_takeWhileD)
    ultimately show ?thesis using ih r(1,4) 3(1) by auto
  qed
qed simp

section \<open>What a literal format prints\<close>

definition text_of :: "mem \<Rightarrow> string \<Rightarrow> u64 list \<Rightarrow> u32 list option" where
  "text_of m f ap = Option.bind (items (ascii f)) (\<lambda>its. render m its ap)"

lemma printf_literal:
  assumes "literals m lit L" "f \<in> L" "text_of m f ap = Some s"
  shows "printf m (lit f) ap = Some (0, s)"
proof -
  obtain its where its: "items (ascii f) = Some its" "render m its ap = Some s" using assms(3) by (auto simp: text_of_def bind_eq_Some_conv)
  note i = items_sound [OF its(1)]
  have "cstr m (lit f) (concat (map encode its))" using assms(1,2) i by (simp add: literals_def)
  then show ?thesis using vprintf_loop_renders [OF its(2), of "lit f" "[]"] i by (simp add: printf_def vprintf_def)
qed

text \<open>A sequence of calls: format and arguments of each.\<close>

fun printfs :: "mem \<Rightarrow> (string \<Rightarrow> addr) \<Rightarrow> (string \<times> u64 list) list \<Rightarrow> u32 list option" where
  "printfs m lit [] = Some []"
| "printfs m lit ((f, ap) # cs) = Option.bind (printf m (lit f) ap) (\<lambda>(_, s). map_option ((@) s) (printfs m lit cs))"

lemma append_funs: "(@) [] = (\<lambda>x. x)" "(@) (a @ b) = (\<lambda>x. a @ b @ x)"
  by auto

lemma printfs_append: "printfs m lit (cs @ ds) = Option.bind (printfs m lit cs) (\<lambda>s. map_option ((@) s) (printfs m lit ds))"
  by (induction m lit cs rule: printfs.induct) (auto simp: append_funs option.map_ident option.map_comp comp_def split: bind_splits)

definition says :: "mem \<Rightarrow> string set \<Rightarrow> string \<times> u64 list \<Rightarrow> u8 list \<Rightarrow> bool" where
  "says m L = (\<lambda>(f, ap) t. f \<in> L \<and> text_of m f ap = Some (map ucast t))"

lemma printfs_literal:
  assumes "literals m lit L" "list_all2 (says m L) cs ts"
  shows "printfs m lit cs = Some (map ucast (concat ts))"
  using assms(2)
proof (induction cs ts rule: list_all2_induct)
  case (Cons c cs t ts)
  obtain f ap where c: "c = (f, ap)" by (cases c)
  then have "printf m (lit f) ap = Some (0, map ucast t)" using Cons.hyps by (intro printf_literal [OF assms(1)]) (auto simp: says_def)
  then show ?case using Cons.IH c by simp
qed simp

text \<open>Formats with no conversion and with one.\<close>

lemma text_plain:
  assumes "items (ascii f) = Some (map Text cs)"
  shows "text_of m f [] = Some (map ucast cs)"
  using render_texts [of m cs "[]" "[]"] assms by (simp add: text_of_def)

lemma text_conv:
  assumes "items (ascii f) = Some (map Text cs @ Conv False False [] k # map Text ds)" "conv_text m 0 False k v = Some (map ucast t)"
  shows "text_of m f [v] = Some (map ucast (cs @ t @ ds))"
  using render_texts [of m ds "[]" "[]"] assms by (simp add: text_of_def render_texts parse_def del: conv_text.simps)

lemma conv_number:
  "conv_text m 0 False Clx v = Some (map ucast (digits 16 (unat v)))"
  "conv_text m 0 False Cx v = Some (map ucast (digits 16 (unat v)))"
  by (simp_all add: field_def number_text_def is_negative_def magnitude_def PRINT_0X_def Let_def)

lemma conv_string: "literals m lit L \<Longrightarrow> f \<in> L \<Longrightarrow> conv_text m 0 False Cs (lit f) = Some (map ucast (ascii f))"
  using puts_loop_cstr [of m "lit f" "ascii f" "[]"] by (simp add: literals_def Let_def)

section \<open>Formats and their arguments\<close>

text \<open>The conversions of a format; a format prints if it gets one argument each, and a string where it wants one.\<close>

fun convs :: "item list \<Rightarrow> conv list" where
  "convs [] = []"
| "convs (Conv neg zero ds k # its) = k # convs its"
| "convs (it # its) = convs its"

definition arg_ok :: "mem \<Rightarrow> conv \<Rightarrow> u64 \<Rightarrow> bool" where
  "arg_ok m k a \<longleftrightarrow> (k = Cs \<longrightarrow> a = NULL \<or> (\<exists>xs. cstr m a xs))"

lemma conv_text_total: "arg_ok m k a \<Longrightarrow> \<exists>s. conv_text m w z k a = Some s"
  using puts_loop_cstr by (cases k) (auto simp: arg_ok_def Let_def)

lemma render_total: "list_all2 (arg_ok m) (convs its) ap \<Longrightarrow> \<exists>s. render m its ap = Some s"
proof (induction m its ap rule: render.induct)
  case (5 m neg zero ds k its a ap)
  then have k: "arg_ok m k a" and r: "list_all2 (arg_ok m) (convs its) ap" by auto
  let ?w = "int (parse 10 ds)"
  obtain s1 where s1: "conv_text m (if neg then - ?w else ?w) zero k a = Some s1" using conv_text_total [OF k] by blast
  obtain s2 where "render m its ap = Some s2" using 5(1) [OF refl s1 r] by blast
  with s1 show ?case by (simp add: Let_def del: conv_text.simps)
qed auto

text \<open>Formats with their conversions, checked by parsing them.\<close>

definition formats_ok :: "(string \<times> conv list) list \<Rightarrow> bool" where
  "formats_ok fs \<longleftrightarrow> list_all (\<lambda>(f, ks). map_option convs (items (ascii f)) = Some ks) fs"

lemma text_total:
  assumes "formats_ok fs" "(f, ks) \<in> set fs" "list_all2 (arg_ok m) ks ap"
  shows "\<exists>s. text_of m f ap = Some s"
proof -
  obtain its where "items (ascii f) = Some its" "convs its = ks" using assms(1,2) by (auto simp: formats_ok_def list_all_iff)
  then show ?thesis using render_total assms(3) by (auto simp: text_of_def)
qed

definition calls_fit :: "mem \<Rightarrow> (string \<times> conv list) list \<Rightarrow> (string \<times> u64 list) list \<Rightarrow> bool" where
  "calls_fit m fs cs \<longleftrightarrow> (\<forall>(f, ap) \<in> set cs. \<exists>ks. (f, ks) \<in> set fs \<and> list_all2 (arg_ok m) ks ap)"

lemma printfs_total:
  assumes "literals m lit L" "fst ` set fs \<subseteq> L" "formats_ok fs" "calls_fit m fs cs"
  shows "\<exists>s. printfs m lit cs = Some s"
  using assms(4)
proof (induction cs)
  case (Cons c cs)
  obtain f ap where c: "c = (f, ap)" by (cases c)
  then obtain ks where "(f, ks) \<in> set fs" "list_all2 (arg_ok m) ks ap" using Cons.prems by (auto simp: calls_fit_def)
  moreover from this obtain s where "text_of m f ap = Some s" using text_total [OF assms(3)] by blast
  moreover have "f \<in> L" using assms(2) \<open>(f, ks) \<in> set fs\<close> by force
  ultimately show ?case using printf_literal [OF assms(1)] Cons c by (auto simp: calls_fit_def)
qed simp

section \<open>Numbers\<close>

lemma signed_text:
  assumes "0 \<le> r" "r < 2147483648"
  shows "number_text (scast (ucast (word_of_int r :: u64) :: u32)) 10 True 0 = digits 10 (nat r)"
proof -
  have "(scast (ucast (word_of_int r :: u64) :: u32) :: u64) = word_of_int r"
    using assms by (simp add: word_of_int_eq_iff scast_eq unsigned_of_int signed_of_int take_bit_int_eq_self signed_take_bit_int_eq_self)
  moreover have "sint (word_of_int r :: u64) = r" "uint (word_of_int r :: u64) = r"
    using assms by (simp_all add: signed_of_int unsigned_of_int take_bit_int_eq_self signed_take_bit_int_eq_self)
  moreover from this(2) have "unat (word_of_int r :: u64) = nat r" by (simp only: unat_eq_nat_uint)
  ultimately show ?thesis using assms by (simp add: number_text_def is_negative_def magnitude_def PRINT_0X_def)
qed

lemma int_text: "n < 2147483648 \<Longrightarrow> number_text (scast (ucast (of_nat n :: u64) :: u32)) 10 True 0 = digits 10 n"
  using signed_text [of "int n"] by simp

lemma low_half: "unat (x :: u64) < 4294967296 \<Longrightarrow> unat (ucast x :: u32) = unat x"
  by (simp add: unsigned_ucast_eq take_bit_nat_eq_self)

lemma pointer_text: "number_text a 16 False PRINT_0X = [48, 120] @ digits 16 (unat a)"
  by (simp add: number_text_def is_negative_def magnitude_def PRINT_0X_def)

lemma hex_text: "number_text a 16 False 0 = digits 16 (unat a)"
  by (simp add: number_text_def is_negative_def magnitude_def PRINT_0X_def)

lemma long_text: "number_text a 10 False 0 = digits 10 (unat a)"
  by (simp add: number_text_def is_negative_def magnitude_def PRINT_0X_def)

lemmas texts = signed_text int_text low_half pointer_text hex_text long_text field_def parse_def render_texts

end
