(* ===== verification/Mmio.thy ===== *)
theory Mmio
  imports Prelude
begin

text \<open>
  Device registers and system registers. The machine is not part of the sources: it is a parameter,
  a \<open>hardware\<close> that answers every read from the whole history of accesses, so that nothing is assumed
  about it unless a statement says so; the build options \<open>NR_CPU\<close> and \<open>HZ\<close> of
  \<^verbatim>\<open>src/CMakeLists.txt\<close> are part of it. The program's side is the \<open>trace\<close>, the sequence of its
  accesses in order; \<open>read32\<close> and \<open>write32\<close> are the accessors of
  \<^verbatim>\<open>src/platform/aarch64/include/aarch64_utils.h\<close>.
\<close>

datatype event =
    Rd32 addr u32
  | Wr32 addr u32
  | Rd64 addr u64
  | Wr64 addr u64
  | Mrs string u64
  | Msr string u64
  | Barrier string

type_synonym trace = "event list"

record hardware =
  mmio_rd :: "trace \<Rightarrow> addr \<Rightarrow> u32"
  mmio_rd64 :: "trace \<Rightarrow> addr \<Rightarrow> u64"
  sysreg_rd :: "trace \<Rightarrow> string \<Rightarrow> u64"
  NR_CPU :: u32
  HZ :: u32

definition read32 :: "hardware \<Rightarrow> trace \<Rightarrow> addr \<Rightarrow> u32 \<times> trace" where
  "read32 hw tr a = (mmio_rd hw tr a, tr @ [Rd32 a (mmio_rd hw tr a)])"

definition write32 :: "trace \<Rightarrow> addr \<Rightarrow> u32 \<Rightarrow> trace" where
  "write32 tr a v = tr @ [Wr32 a v]"

definition read64 :: "hardware \<Rightarrow> trace \<Rightarrow> addr \<Rightarrow> u64 \<times> trace" where
  "read64 hw tr a = (mmio_rd64 hw tr a, tr @ [Rd64 a (mmio_rd64 hw tr a)])"

definition write64 :: "trace \<Rightarrow> addr \<Rightarrow> u64 \<Rightarrow> trace" where
  "write64 tr a v = tr @ [Wr64 a v]"

definition read_sysreg :: "hardware \<Rightarrow> trace \<Rightarrow> string \<Rightarrow> u64 \<times> trace" where
  "read_sysreg hw tr r = (sysreg_rd hw tr r, tr @ [Mrs r (sysreg_rd hw tr r)])"

definition write_sysreg :: "trace \<Rightarrow> string \<Rightarrow> u64 \<Rightarrow> trace" where
  "write_sysreg tr r v = tr @ [Msr r v]"

definition isb :: "trace \<Rightarrow> trace" where
  "isb tr = tr @ [Barrier ''isb'']"

definition cpu_id :: "hardware \<Rightarrow> trace \<Rightarrow> u32 \<times> trace" where
  "cpu_id hw tr = (let (mpidr, tr) = read_sysreg hw tr ''MPIDR_EL1'' in (ucast (mpidr AND 0xFF), tr))"

definition read_esr_el2 :: "hardware \<Rightarrow> trace \<Rightarrow> u64 \<times> trace" where
  "read_esr_el2 hw tr = read_sysreg hw tr ''ESR_EL2''"

definition read_far_el2 :: "hardware \<Rightarrow> trace \<Rightarrow> u64 \<times> trace" where
  "read_far_el2 hw tr = read_sysreg hw tr ''FAR_EL2''"

definition get_current_el :: "hardware \<Rightarrow> trace \<Rightarrow> u32 \<times> trace" where
  "get_current_el hw tr =
     (let (el, tr) = read_sysreg hw tr ''CurrentEL'' in (ucast (drop_bit 2 el AND 3), tr))"

definition pstate :: "hardware \<Rightarrow> trace \<Rightarrow> u32 \<times> trace" where
  "pstate hw tr = (let (state, tr) = read_sysreg hw tr ''SPSR_EL2'' in (ucast state, tr))"

definition set_vbar_el2 :: "trace \<Rightarrow> u64 \<Rightarrow> trace" where
  "set_vbar_el2 tr a = write_sysreg tr ''VBAR_EL2'' a"

text \<open>\<open>tick_el2\<close> reads the virtual counter, whatever its variable is called.\<close>

definition tick_el2 :: "hardware \<Rightarrow> trace \<Rightarrow> u64 \<times> trace" where
  "tick_el2 hw tr = read_sysreg hw tr ''CNTVCT_EL0''"

definition irq_enable :: "hardware \<Rightarrow> trace \<Rightarrow> int \<times> trace" where
  "irq_enable hw tr =
     (let (hcr_el2, tr) = read_sysreg hw tr ''HCR_EL2'';
          hcr_el2 = hcr_el2 OR (push_bit 4 1 OR push_bit 5 1);
          tr = write_sysreg tr ''HCR_EL2'' hcr_el2;
          tr = write_sysreg tr ''DAIFClr'' 2
      in (0, isb tr))"

definition irq_disable :: "trace \<Rightarrow> int \<times> trace" where
  "irq_disable tr = (0, isb (write_sysreg tr ''DAIFSet'' 2))"

lemmas access_defs [machine_defs] = read32_def write32_def read64_def write64_def read_sysreg_def write_sysreg_def isb_def

text \<open>The writes of a trace to one register, in order.\<close>

fun writes_to :: "addr \<Rightarrow> trace \<Rightarrow> u32 list" where
  "writes_to a [] = []"
| "writes_to a (Wr32 b v # tr) = (if a = b then v # writes_to a tr else writes_to a tr)"
| "writes_to a (e # tr) = writes_to a tr"

lemma writes_to_append [simp]: "writes_to a (tr @ tr') = writes_to a tr @ writes_to a tr'"
  by (induction a tr rule: writes_to.induct) auto

section \<open>Polling\<close>

text \<open>\<open>while (busy(read32(a)));\<close>\<close>

partial_function (option) poll :: "hardware \<Rightarrow> addr \<Rightarrow> (u32 \<Rightarrow> bool) \<Rightarrow> trace \<Rightarrow> trace option" where
  "poll hw a busy tr =
     (let (v, tr) = read32 hw tr a in if busy v then poll hw a busy tr else Some tr)"

text \<open>The trace after \<open>n\<close> reads of one register, and the value the next one returns.\<close>

fun polls :: "hardware \<Rightarrow> addr \<Rightarrow> trace \<Rightarrow> nat \<Rightarrow> trace" where
  "polls hw a tr 0 = tr"
| "polls hw a tr (Suc n) = polls hw a (tr @ [Rd32 a (mmio_rd hw tr a)]) n"

definition seen :: "hardware \<Rightarrow> addr \<Rightarrow> trace \<Rightarrow> nat \<Rightarrow> u32" where
  "seen hw a tr n = mmio_rd hw (polls hw a tr n) a"

lemma seen_0 [simp]: "seen hw a tr 0 = mmio_rd hw tr a"
  by (simp add: seen_def)

lemma seen_Suc: "seen hw a tr (Suc n) = seen hw a (tr @ [Rd32 a (mmio_rd hw tr a)]) n"
  by (simp add: seen_def)

lemma polls_reads: "\<exists>vs. polls hw a tr n = tr @ map (Rd32 a) vs"
proof (induction n arbitrary: tr)
  case (Suc n)
  then obtain vs where "polls hw a tr (Suc n) = (tr @ [Rd32 a (mmio_rd hw tr a)]) @ map (Rd32 a) vs"
    by (metis polls.simps(2))
  then show ?case by (intro exI [of _ "mmio_rd hw tr a # vs"]) simp
qed (simp add: exI [of _ "[]"])

lemma polls_writes [simp]: "writes_to b (polls hw a tr n) = writes_to b tr"
  by (induction n arbitrary: tr) auto

lemma poll_step:
  "poll hw a busy tr =
     (let v = mmio_rd hw tr a; tr' = tr @ [Rd32 a v] in if busy v then poll hw a busy tr' else Some tr')"
  by (subst poll.simps) (simp add: read32_def Let_def)

lemma poll_returns:
  assumes "\<forall>k < n. busy (seen hw a tr k)" "\<not> busy (seen hw a tr n)"
  shows "poll hw a busy tr = Some (polls hw a tr (Suc n))"
  using assms
proof (induction n arbitrary: tr)
  case 0
  then show ?case by (subst poll_step) (simp add: Let_def)
next
  case (Suc n)
  let ?tr = "tr @ [Rd32 a (mmio_rd hw tr a)]"
  have "busy (seen hw a tr 0)" using Suc.prems(1) by blast
  then have "poll hw a busy tr = poll hw a busy ?tr" by (subst poll_step) (simp add: Let_def)
  also have "\<dots> = Some (polls hw a ?tr (Suc n))"
    using Suc.prems by (intro Suc.IH) (auto simp: seen_Suc [symmetric])
  finally show ?case by simp
qed

lemma poll_only:
  assumes "poll hw a busy tr = Some tr'"
  shows "\<exists>n. \<not> busy (seen hw a tr n)"
proof (rule poll.raw_induct [where P = "\<lambda>hw a busy tr tr'. \<exists>n. \<not> busy (seen hw a tr n)", OF _ assms])
  fix wait :: "hardware \<Rightarrow> addr \<Rightarrow> (u32 \<Rightarrow> bool) \<Rightarrow> trace \<Rightarrow> trace option" and hw a busy tr tr'
  assume IH: "\<And>hw a busy tr tr'. wait hw a busy tr = Some tr' \<Longrightarrow> \<exists>n. \<not> busy (seen hw a tr n)"
    and run: "(let (v, tr) = read32 hw tr a in if busy v then wait hw a busy tr else Some tr) = Some tr'"
  let ?tr = "tr @ [Rd32 a (mmio_rd hw tr a)]"
  show "\<exists>n. \<not> busy (seen hw a tr n)"
  proof (cases "busy (mmio_rd hw tr a)")
    case True
    then have "wait hw a busy ?tr = Some tr'" using run by (simp add: read32_def Let_def)
    from IH [OF this] show ?thesis by (auto simp: seen_Suc [symmetric])
  next
    case False
    then show ?thesis by (intro exI [of _ 0]) simp
  qed
qed

text \<open>A loop either ends at the first value that is not busy or sees busy values only.\<close>

lemma poll_cases:
  obtains (returns) n where "\<not> busy (seen hw a tr n)" "\<forall>k < n. busy (seen hw a tr k)"
    "poll hw a busy tr = Some (polls hw a tr (Suc n))"
  | (hangs) "\<forall>n. busy (seen hw a tr n)" "poll hw a busy tr = None"
proof (cases "\<exists>n. \<not> busy (seen hw a tr n)")
  case True
  define n where "n = (LEAST n. \<not> busy (seen hw a tr n))"
  have "\<not> busy (seen hw a tr n)" unfolding n_def using True by (rule LeastI_ex)
  moreover have "\<forall>k < n. busy (seen hw a tr k)" unfolding n_def using not_less_Least by blast
  ultimately show ?thesis using poll_returns returns by blast
next
  case False
  then show ?thesis using poll_only [of hw a busy tr] hangs by (cases "poll hw a busy tr") blast+
qed

text \<open>A device whose flag changes after finitely many reads lets the loop end.\<close>

lemma poll_ends:
  assumes "\<exists>n. \<not> busy (seen hw a tr n)"
  obtains vs where "poll hw a busy tr = Some (tr @ map (Rd32 a) vs)"
  using assms polls_reads by (cases rule: poll_cases [of busy hw a tr]) metis+

end
