(* ===== verification/App_Test.thy ===== *)
theory App_Test
  imports Text Rand Mmio
begin

text \<open>
  The small test programs of \<^verbatim>\<open>src/src/app/test.c\<close>: string functions, generator and formatter together. The
  addresses of the local arrays and of the format strings are parameters; the result is what is printed.
\<close>

section \<open>The programs\<close>

definition test_memset :: "mem \<Rightarrow> addr \<Rightarrow> addr \<Rightarrow> u32 list option" where
  "test_memset m buffer fmt =
     (let m = fst (memset m buffer 65 20);
          m = store8 m (buffer + 19) 0
      in map_option snd (printf m fmt [buffer]))"

definition test_memcpy :: "mem \<Rightarrow> addr \<Rightarrow> addr \<Rightarrow> addr \<Rightarrow> u32 list option" where
  "test_memcpy m src dest fmt =
     (let m = init_bytes m src (ascii ''Hello, World!'' @ [0])
      in Option.bind (strlen m src) (\<lambda>n.
           let m = fst (memcpy m dest src (n + 1))
           in map_option snd (printf m fmt [dest])))"

fun rand_prints :: "nat \<Rightarrow> mem \<Rightarrow> addr \<Rightarrow> u64 \<Rightarrow> (u32 list \<times> u64) option" where
  "rand_prints 0 m fmt nxt = Some ([], nxt)"
| "rand_prints (Suc n) m fmt nxt =
     (let (r, nxt) = rand nxt
      in Option.bind (printf m fmt [word_of_int r]) (\<lambda>(_, s).
         Option.bind (rand_prints n m fmt nxt) (\<lambda>(out, nxt). Some (s @ out, nxt))))"

definition test_rand :: "hardware \<Rightarrow> trace \<Rightarrow> mem \<Rightarrow> addr \<Rightarrow> addr \<Rightarrow> addr \<Rightarrow> (u32 list \<times> u64 \<times> trace) option" where
  "test_rand hw tr m fmt1 fmt2 fmt3 =
     (let (t, tr) = tick_el2 hw tr;
          nxt = srand (ucast t)
      in Option.bind (printf m fmt1 []) (\<lambda>(_, a).
         Option.bind (rand_prints 5 m fmt2 nxt) (\<lambda>(b, nxt).
         Option.bind (printf m fmt3 []) (\<lambda>(_, c). Some (a @ b @ c, nxt, tr)))))"

section \<open>What they print\<close>

text \<open>A format that is a text, a string conversion and a line feed.\<close>

lemma printf_string:
  assumes "cstr m fmt (cs @ ascii ''%s'' @ [10])" "37 \<notin> set cs" "cstr m s xs" "s \<noteq> NULL"
  shows "map_option snd (printf m fmt [s]) = Some (map ucast (cs @ xs @ [10]))"
proof -
  let ?its = "map Text cs @ [Conv False False [] Cs, Text 10]"
  have "cstr m fmt (concat (map encode ?its))" using assms(1) by (simp add: ascii_def comp_def)
  moreover have "\<forall>it \<in> set ?its. item_ok it" using assms(2) by auto
  moreover have "render m ?its [s] = Some (map ucast (cs @ xs @ [10]))"
    using puts_loop_cstr [OF assms(3), of "[]"] assms(4) by (simp add: render_texts)
  ultimately show ?thesis using vprintf_loop_renders [of m ?its] by (simp add: printf_def vprintf_def)
qed

text \<open>
  \<open>test_memset\<close> and \<open>test_memcpy\<close> print their line whatever the memory held, if the arrays, and the format string, do not overlap.
\<close>

theorem string_tests_print:
  assumes "cstr m fmt (ascii ''memset test: %s'' @ [10])" "span fmt 17 \<inter> span buffer 20 = {}" "buffer \<noteq> NULL"
    and "cstr m fmt' (ascii ''memcpy test: %s'' @ [10])" "span fmt' 17 \<inter> span src 14 = {}" "span fmt' 17 \<inter> span dest 20 = {}"
    "span dest 20 \<inter> span src 14 = {}" "dest \<noteq> NULL"
  shows "test_memset m buffer fmt = Some (map ucast (ascii ''memset test: AAAAAAAAAAAAAAAAAAA'' @ [10])) \<and>
    test_memcpy m src dest fmt' = Some (map ucast (ascii ''memcpy test: Hello, World!'' @ [10]))"
proof
  let ?m = "store8 (fst (memset m buffer 65 20)) (buffer + 19) 0"
  have "agree (span fmt 17) ?m m"
    unfolding memset_blit fst_conv by (rule agree_trans [OF c8.wr_agree blit_agree]) (use assms(2) in \<open>auto simp: span_simps span_iff [of _ buffer]\<close>)
  then have "cstr ?m fmt (ascii ''memset test: %s'' @ [10])" by (intro cstr_frame [OF assms(1)]) (simp add: ascii_def numeral_eq_Suc)
  then have f: "cstr ?m fmt (ascii ''memset test: '' @ ascii ''%s'' @ [10])" by (simp only: ascii_def list.map append.simps)
  have "cstr ?m buffer (replicate 19 65)"
  proof (rule cstr_intro)
    show "?m (buffer + of_nat i) = replicate 19 65 ! i" if "i < length (replicate 19 (65 :: u8))" for i
    proof -
      have "unat (of_nat i :: addr) \<noteq> unat (19 :: addr)" using that by (simp add: unat_of_nat64)
      then have "buffer + of_nat i \<noteq> buffer + 19" by auto
      then show ?thesis using that by (simp add: memset_blit store8_def blit_at)
    qed
  qed (simp_all add: store8_def)
  moreover have "replicate 19 65 = ascii ''AAAAAAAAAAAAAAAAAAA''" "37 \<notin> set (ascii ''memset test: '')" by code_simp+
  ultimately have "map_option snd (printf ?m fmt [buffer]) = Some (map ucast (ascii ''memset test: '' @ ascii ''AAAAAAAAAAAAAAAAAAA'' @ [10]))"
    using printf_string [OF f _ _ assms(3)] by simp
  then show "test_memset m buffer fmt = Some (map ucast (ascii ''memset test: AAAAAAAAAAAAAAAAAAA'' @ [10]))"
    by (simp only: test_memset_def Let_def ascii_def list.map append.simps)
next
  define h where "h = ascii ''Hello, World!''"
  have l: "length h = 13" "0 \<notin> set h" by (simp_all add: h_def ascii_def)
  let ?m = "init_bytes m src (h @ [0])" let ?c = "fst (memcpy ?m dest src 14)"
  have a: "agree (- span src 14) ?m m" using init_bytes_agree [of "h @ [0]" src m] l(1) by simp
  have h: "cstr ?m src h" using init_bytes_cstr [OF l(2)] l(1) by simp
  have ov: "span dest 14 \<inter> span src 14 = {}" using assms(7) span_mono [of 14 20 dest] by auto
  then have c: "?c = blit dest 14 (\<lambda>j. ?m (src + j)) ?m" using memcpy_blit [of dest 14 src ?m] by simp
  have "agree (span fmt' 17) ?c m"
    unfolding c by (rule agree_trans [OF blit_agree agree_mono [OF a]]) (use assms(5,6) span_mono [of 14 20 dest] in auto)
  then have "cstr ?c fmt' (ascii ''memcpy test: %s'' @ [10])" by (intro cstr_frame [OF assms(4)]) (simp add: ascii_def numeral_eq_Suc)
  then have f: "cstr ?c fmt' (ascii ''memcpy test: '' @ ascii ''%s'' @ [10])" by (simp only: ascii_def list.map append.simps)
  have "cstr ?c dest (take (length h) h)"
    unfolding c using cstr_end [OF h] blit_at [of 13 14 dest "\<lambda>j. ?m (src + j)" ?m]
    by (intro copied_cstr [OF h]) (simp_all add: l blit_at)
  then have d: "cstr ?c dest h" by simp
  have "strlen ?m src = Some 13" using strlen_from_cstr [of ?m src 0 h] h by (simp add: strlen_def l(1))
  then have "test_memcpy m src dest fmt' = map_option snd (printf ?c fmt' [dest])" by (simp add: test_memcpy_def h_def Let_def)
  also have "\<dots> = Some (map ucast (ascii ''memcpy test: '' @ h @ [10]))" by (rule printf_string [OF f _ d assms(8)]) (simp add: ascii_def)
  finally show "test_memcpy m src dest fmt' = Some (map ucast (ascii ''memcpy test: Hello, World!'' @ [10]))" by (simp add: h_def ascii_def)
qed

lemma rand_prints_ok:
  assumes "cstr m fmt (ascii ''%d '')"
  shows "\<exists>nxt'. rand_prints n m fmt nxt = Some (concat (map (\<lambda>r. map ucast (digits 10 (nat r)) @ [32]) (rands n nxt)), nxt')"
proof (induction n arbitrary: nxt)
  case (Suc n)
  obtain r nx where r: "rand nxt = (r, nx)" by (cases "rand nxt")
  let ?its = "[Conv False False [] Cd, Text 32]"
  have "0 \<le> r" "r < 32768" using rand_range [of nxt] r by simp_all
  then have "render m ?its [word_of_int r] = Some (map ucast (digits 10 (nat r)) @ [32])"
    by (simp add: texts Let_def)
  moreover have "cstr m fmt (concat (map encode ?its))" using assms by (simp add: ascii_def)
  ultimately have "printf m fmt [word_of_int r] = Some (0, map ucast (digits 10 (nat r)) @ [32])"
    using vprintf_loop_renders [of m ?its "[word_of_int r]"] by (simp add: printf_def vprintf_def)
  then show ?case using Suc [of nx] r by auto
qed simp

text \<open>\<open>test_rand\<close> prints the first five numbers after seeding with the low half of the counter.\<close>

theorem test_rand_prints:
  assumes "cstr m fmt1 (ascii ''rand test: '')" "cstr m fmt2 (ascii ''%d '')" "cstr m fmt3 [10]"
  shows "\<exists>nxt tr'. test_rand hw tr m fmt1 fmt2 fmt3 =
    Some (map ucast (ascii ''rand test: '') @
      concat (map (\<lambda>r. map ucast (digits 10 (nat r)) @ [32]) (rands 5 (srand (ucast (sysreg_rd hw tr ''CNTVCT_EL0''))))) @ [10], nxt, tr')"
proof -
  have t: "printf m f [] = Some (0, map ucast cs)" if "cstr m f cs" "37 \<notin> set cs" for f cs
  proof -
    have "concat (map encode (map Text cs)) = cs" by (induction cs) simp_all
    then show ?thesis using vprintf_loop_renders [of m "map Text cs" "[]" "map ucast cs" f "[]"] that render_texts [of m cs "[]" "[]"]
      by (auto simp: printf_def vprintf_def)
  qed
  show ?thesis
    using t [OF assms(1)] t [OF assms(3)] rand_prints_ok [OF assms(2), of 5 "srand (ucast (sysreg_rd hw tr ''CNTVCT_EL0''))"]
    by (auto simp: test_rand_def tick_el2_def read_sysreg_def ascii_def Let_def)
qed

end
