(* ===== verification/Heap_Frame.thy ===== *)
theory Heap_Frame
  imports Miniheap_Props
begin

text \<open>
  What clients that keep objects both inside and outside the heap rely on. The locale
  \<open>confined_allocator\<close> extends \<open>allocator\<close> with the region the heap manages: allocation and release
  change no byte outside of it, owned blocks lie in it, and any write that stays off the headers
  (the bytes of the region in no owned block) keeps the heap. The timers use it: their list has its
  head in a static structure and its nodes in heap blocks.
\<close>

locale confined_allocator = allocator +
  fixes region :: "'a \<Rightarrow> addr set"
  assumes alloc_confined: "owns h m L \<Longrightarrow> unat n \<le> max_request \<Longrightarrow> alloc h m n = Some (h', m', p) \<Longrightarrow>
      region h' = region h \<and> agree (- region h) m' m"
    and dealloc_confined: "owns h m L \<Longrightarrow> (p, c) \<in> L \<Longrightarrow> dealloc h m p = Some (Inr (h', m')) \<Longrightarrow>
      region h' = region h \<and> agree (- region h) m' m"
    and block_inside: "owns h m L \<Longrightarrow> (p, c) \<in> L \<Longrightarrow> span p c \<subseteq> region h"
    and headers_only: "owns h m L \<Longrightarrow> agree (region h - (\<Union>(p, c) \<in> L. span p c)) m m' \<Longrightarrow> owns h m' L"
begin

text \<open>Writes to owned blocks and outside the region, in any mixture, keep the heap.\<close>

lemma writes_keep:
  assumes "owns h m L" "W \<subseteq> (\<Union>(p, c) \<in> L. span p c) \<union> - region h" "agree (- W) m' m"
  shows "owns h m' L"
proof (rule headers_only [OF assms(1)])
  have "region h - (\<Union>(p, c) \<in> L. span p c) \<subseteq> - W" using assms(2) by blast
  then show "agree (region h - (\<Union>(p, c) \<in> L. span p c)) m m'"
    using assms(3) by (blast intro: agree_sym agree_mono)
qed

text \<open>Releasing a block keeps what is outside the region and in the other blocks.\<close>

lemma dealloc_keeps:
  assumes "owns h m L" "(p, c) \<in> L"
    and S: "S \<subseteq> - region h \<union> (\<Union>(b, k) \<in> L - {(p, c)}. span b k)"
  obtains h' m' where "dealloc h m p = Some (Inr (h', m'))" "owns h' m' (L - {(p, c)})" "region h' = region h"
    "agree S m' m"
proof -
  obtain h' m' where d: "dealloc h m p = Some (Inr (h', m'))" "owns h' m' (L - {(p, c)})"
    "\<forall>(b, k) \<in> L - {(p, c)}. agree (span b k) m' m" using dealloc_block [OF assms(1,2)] by blast
  moreover note dealloc_confined [OF assms(1,2) d(1)]
  moreover from this d(3) have "agree (- region h \<union> (\<Union>(b, k) \<in> L - {(p, c)}. span b k)) m' m"
    by (auto simp: agree_def)
  ultimately show ?thesis using that S agree_mono by blast
qed

end

section \<open>The region of the heap\<close>

definition heap_region :: "miniheap \<Rightarrow> addr set" where
  "heap_region h = span (mh_base h) (unat (mh_size h))"

lemma link_free_frame:
  assumes "prev = NULL \<or> S \<inter> span prev 16 = {}" "link_free h m prev b = (h', m')"
  shows "agree S m' m"
  using assms by (auto simp: link_free_def set_blk_agree split: if_splits)

lemma release_block_frame:
  assumes "S \<inter> span block 16 = {}" "prev = NULL \<or> S \<inter> span prev 16 = {}"
    and "release_block h m block rear prev cur = (h', m')"
  shows "agree S m' m" "mh_base h' = mh_base h" "mh_size h' = mh_size h"
proof -
  have st: "agree S (set_blk_magic n b v) n" "agree S (set_blk_size n b v) n" "agree S (set_blk_next n b w) n"
    if "b = block \<or> b = prev \<and> prev \<noteq> NULL" for n b v w
    using that assms(1,2) by (auto intro: set_blk_agree)
  have "agree S (snd (release_block h m block rear prev cur)) m"
    by (auto simp: release_block_def Let_def link_free_def split: prod.splits if_splits
        intro!: agree_trans [OF st(3) agree_trans [OF st(2)]] st agree_trans [OF st(1) st(1)]
          agree_trans [OF st(2) st(1)] agree_trans [OF st(3) agree_trans [OF st(2) st(1)]]
          agree_trans [OF st(3) agree_trans [OF st(3) agree_trans [OF st(2) st(1)]]])
  then show "agree S m' m" using assms(3) by simp
  show "mh_base h' = mh_base h" "mh_size h' = mh_size h"
    using assms(3) by (auto simp: release_block_def Let_def link_free_def split: prod.splits if_splits)
qed

lemma last_free_inside:
  assumes "segs_ok ys" "0 < a" "a + segs_size ys \<le> l" "l \<le> 18446744073709551616"
  shows "last_free NULL a ys = NULL \<or> span (last_free NULL a ys) 16 \<subseteq> span (of_nat a) (l - a)"
proof (cases "has_free ys")
  case True
  then obtain us f vs where y: "ys = us @ Free f # vs" "last_free NULL a ys = of_nat (a + segs_size us)"
    by (metis last_free_split)
  then have "16 \<le> f" using assms(1) by simp
  then show ?thesis unfolding y(2) using assms y(1) by (intro disjI2 span_subset_nat) auto
qed (simp add: last_free_no_free)

lemma miniheap_free_frame:
  assumes rep: "heap_rep h m (ys @ Used n # zs)"
    and call: "miniheap_free h m (mh_base h + of_nat (segs_size ys) + 16) = Some (Inr (h', m'))"
  shows "heap_region h' = heap_region h" "agree (- heap_region h) m' m"
proof -
  let ?a = "unat (mh_base h)" and ?l = "unat (mh_base h) + unat (mh_size h)"
  obtain q where q: "release_block h m (of_nat (?a + segs_size ys)) (of_nat (?a + segs_size ys + n)) (last_free NULL ?a ys) q = (h', m')"
    using miniheap_free_call [OF rep refl] call by (auto simp del: of_nat_add)
  have r: "segs_ok ys" "0 < ?a" "?a + segs_size ys + n \<le> ?l" "?l < 18446744073709551616" "16 \<le> n"
    using rep by (auto simp: heap_rep_def)
  have "span (of_nat (?a + segs_size ys)) 16 \<subseteq> span (of_nat ?a) (unat (mh_size h))"
    using r by (intro span_subset_nat) auto
  moreover have "last_free NULL ?a ys = NULL \<or> span (last_free NULL ?a ys) 16 \<subseteq> span (of_nat ?a) (unat (mh_size h))"
    using last_free_inside [OF r(1,2), of ?l] r by simp
  ultimately have "- heap_region h \<inter> span (of_nat (?a + segs_size ys)) 16 = {}"
    "last_free NULL ?a ys = NULL \<or> - heap_region h \<inter> span (last_free NULL ?a ys) 16 = {}"
    unfolding heap_region_def by auto
  note fr = release_block_frame [OF this q]
  show "agree (- heap_region h) m' m" by (rule fr(1))
  show "heap_region h' = heap_region h" by (simp add: heap_region_def fr)
qed

lemma alloc_segs_size:
  assumes "alloc_segs t xs = Some (xs', off)"
  shows "segs_size xs' = segs_size xs"
proof -
  obtain ys n zs where "xs = ys @ Free n # zs" "t \<le> n" "xs' = ys @ carve t n @ zs"
    using assms by (metis alloc_segs_Some)
  then show ?thesis by (simp add: carve_props)
qed

lemma owned_segment:
  assumes "heap_owns h m L" "(p, c) \<in> L"
  obtains ys n zs where "heap_rep h m (ys @ Used n # zs)" "p = mh_base h + of_nat (segs_size ys) + 16" "c = n - 16"
    "L = payload ` set (live (unat (mh_base h)) (ys @ Used n # zs))"
proof -
  obtain xs b n where rep: "heap_rep h m xs" and l: "(b, n) \<in> set (live (unat (mh_base h)) xs)"
    and pc: "payload (b, n) = (p, c)" and L: "L = payload ` set (live (unat (mh_base h)) xs)"
    using assms by (force simp: heap_owns_def)
  obtain ys zs where "xs = ys @ Used n # zs" "b = unat (mh_base h) + segs_size ys" using l by (metis live_split)
  with that rep pc L show ?thesis by (auto simp: payload_def)
qed

lemma owned_inside:
  assumes "heap_owns h m L" "(p, c) \<in> L"
  shows "span p c \<subseteq> heap_region h"
proof -
  obtain ys n zs where s: "heap_rep h m (ys @ Used n # zs)" "p = mh_base h + of_nat (segs_size ys) + 16" "c = n - 16"
    using owned_segment [OF assms] by metis
  then have "unat (mh_size h) = segs_size ys + n + segs_size zs" "unat (mh_base h) + unat (mh_size h) < 18446744073709551616" "16 \<le> n"
    by (auto simp: heap_rep_def)
  moreover have "p = of_nat (unat (mh_base h) + segs_size ys + 16)" using s(2) by simp
  ultimately have "span p c \<subseteq> span (of_nat (unat (mh_base h))) (unat (mh_size h))"
    unfolding s(3) by (simp only:) (rule span_subset_nat, auto)
  then show ?thesis by (simp add: heap_region_def)
qed

lemma hdrs_apart:
  assumes "heap_rep h m xs"
  shows "hdrs (unat (mh_base h)) xs \<subseteq> heap_region h - (\<Union>(p, c) \<in> payload ` set (live (unat (mh_base h)) xs). span p c)"
proof
  fix x assume x: "x \<in> hdrs (unat (mh_base h)) xs"
  have r: "segs_ok xs" "unat (mh_base h) + segs_size xs < 18446744073709551616" "unat (mh_size h) = segs_size xs"
    using assms by (auto simp: heap_rep_def)
  have "x \<in> heap_region h"
    using hdrs_region [OF r(1) _ x] r by (simp add: heap_region_def span_nowrap)
  moreover have "x \<notin> span (of_nat b + 16) (n - 16)" if "(b, n) \<in> set (live (unat (mh_base h)) xs)" for b n
    using hdrs_payload_disjoint [OF r(1,2) that] x by blast
  ultimately show "x \<in> heap_region h - (\<Union>(p, c) \<in> payload ` set (live (unat (mh_base h)) xs). span p c)"
    by (auto simp: payload_def)
qed

lemma owns_alloc_frame:
  assumes "heap_owns h m L" "unat n \<le> 4294967264" "miniheap_alloc h m n = Some (h', m', p)"
  shows "heap_region h' = heap_region h \<and> agree (- heap_region h) m' m"
proof -
  obtain xs where rep: "heap_rep h m xs" using assms(1) by (auto simp: heap_owns_def)
  show ?thesis
  proof (cases "unat n = 0")
    case True
    then have "n = 0" by (simp add: unat_eq_zero)
    then show ?thesis using assms(3) rep miniheap_alloc_zero by (auto simp: heap_rep_def)
  next
    case False
    then have "(h', m') = (h, m) \<or> (\<exists>xs'. heap_rep h' m' xs' \<and> mh_base h' = mh_base h \<and> segs_size xs' = segs_size xs \<and>
        agree (- span (mh_base h) (segs_size xs)) m' m)"
      using miniheap_alloc_refine [OF rep _ assms(2)] assms(3) alloc_segs_size
      by (fastforce split: option.splits)
    then show ?thesis using rep by (auto simp: heap_region_def heap_rep_def)
  qed
qed

interpretation region: confined_allocator miniheap_alloc miniheap_free heap_owns 4294967264 heap_region
proof
  fix h m L p c h' m'
  assume "heap_owns h m L" "(p, c) \<in> L" "miniheap_free h m p = Some (Inr (h', m'))"
  then show "heap_region h' = heap_region h \<and> agree (- heap_region h) m' m"
    by (metis owned_segment miniheap_free_frame)
next
  fix h m L m'
  assume "heap_owns h m L" and ag: "agree (heap_region h - (\<Union>(p, c) \<in> L. span p c)) m m'"
  then obtain xs where rep: "heap_rep h m xs" and L: "L = payload ` set (live (unat (mh_base h)) xs)"
    by (auto simp: heap_owns_def)
  have "agree (hdrs (unat (mh_base h)) xs) m m'" using hdrs_apart [OF rep] ag unfolding L by (rule agree_mono [rotated])
  then have "heap_rep h m' xs" using rep path_frame by (auto simp: heap_rep_def)
  then show "heap_owns h m' L" using L by (auto simp: heap_owns_def)
qed (fact owns_alloc_frame owned_inside)+

end
