(* ===== verification/CList.thy ===== *)
theory CList
  imports Memory
begin

text \<open>
  The intrusive circular lists of \<^verbatim>\<open>src/include/list/list.h\<close>. A \<open>struct list_head\<close> is sixteen bytes of
  memory, \<open>prev\<close> at 0 and \<open>next\<close> at 8, so every operation is a sequence of stores, in the order of
  the code. \<open>dlist m h xs\<close> says that the list with head \<open>h\<close> holds the nodes \<open>xs\<close>; the locale
  \<open>intrusive_list\<close> is the interface the timers and the virtual CPUs rely on, and the operations of
  the header file interpret it.
\<close>

section \<open>The operations\<close>

definition list_prev :: "mem \<Rightarrow> addr \<Rightarrow> addr" where "list_prev m p = load64 m p"
definition list_next :: "mem \<Rightarrow> addr \<Rightarrow> addr" where "list_next m p = load64 m (p + 8)"
definition set_list_prev :: "mem \<Rightarrow> addr \<Rightarrow> addr \<Rightarrow> mem" where "set_list_prev m p v = store64 m p v"
definition set_list_next :: "mem \<Rightarrow> addr \<Rightarrow> addr \<Rightarrow> mem" where "set_list_next m p v = store64 m (p + 8) v"

definition list_init :: "mem \<Rightarrow> addr \<Rightarrow> mem" where
  "list_init m l = set_list_prev (set_list_next m l l) l l"

definition list_link :: "mem \<Rightarrow> addr \<Rightarrow> addr \<Rightarrow> addr \<Rightarrow> mem" where
  "list_link m node prev nxt =
     (let m = set_list_prev m nxt node;
          m = set_list_next m node nxt;
          m = set_list_prev m node prev
      in set_list_next m prev node)"

definition list_add :: "mem \<Rightarrow> addr \<Rightarrow> addr \<Rightarrow> mem" where
  "list_add m node head = list_link m node head (list_next m head)"

definition list_add_tail :: "mem \<Rightarrow> addr \<Rightarrow> addr \<Rightarrow> mem" where
  "list_add_tail m node head = list_link m node (list_prev m head) head"

definition list_unlink :: "mem \<Rightarrow> addr \<Rightarrow> addr \<Rightarrow> mem" where
  "list_unlink m prev nxt = set_list_next (set_list_prev m nxt prev) prev nxt"

definition list_del :: "mem \<Rightarrow> addr \<Rightarrow> mem" where
  "list_del m node =
     (let m = list_unlink m (list_prev m node) (list_next m node);
          m = set_list_next m node NULL
      in set_list_prev m node NULL)"

text \<open>\<open>list_entry(ptr, type, member)\<close>: the object that has the node at offset \<open>off\<close>.\<close>

definition list_entry :: "addr \<Rightarrow> addr \<Rightarrow> addr" where "list_entry ptr off = ptr - off"

text \<open>
  \<open>list_for_each\<close> with a body that leaves the links alone, as the sequence of the nodes it visits;
  and \<open>list_for_each_safe\<close>, whose body may change the state (\<open>mem_of\<close> reads its memory): the
  successor \<open>n\<close> of the current node is read before the body runs, so the body may remove the node.
\<close>

partial_function (option) list_for_each :: "mem \<Rightarrow> addr \<Rightarrow> addr \<Rightarrow> addr list option" where
  "list_for_each m head pos =
     (if pos = head then Some []
      else Option.bind (list_for_each m head (list_next m pos)) (\<lambda>r. Some (pos # r)))"

partial_function (option) list_for_each_safe ::
  "('s \<Rightarrow> mem) \<Rightarrow> (addr \<Rightarrow> 's \<Rightarrow> 's outcome option) \<Rightarrow> addr \<Rightarrow> addr \<Rightarrow> addr \<Rightarrow> 's \<Rightarrow> 's outcome option" where
  "list_for_each_safe mem_of body head pos n s =
     (if pos = head then Some (Inr s)
      else case body pos s of
             None \<Rightarrow> None
           | Some (Inl e) \<Rightarrow> Some (Inl e)
           | Some (Inr s) \<Rightarrow> list_for_each_safe mem_of body head n (list_next (mem_of s) n) s)"

section \<open>Fields\<close>

lemma node_fields:
  "span p 8 \<subseteq> span p 16" "span (p + 8) 8 \<subseteq> span p 16" "span p 8 \<inter> span (p + 8) 8 = {}"
  "span (p + 8) 8 \<inter> span p 8 = {}"
  by (auto simp: span_simps span_iff [of _ p])

lemma link_same [simp]:
  "list_prev (set_list_prev m p v) p = v" "list_next (set_list_next m p v) p = v"
  "list_prev (set_list_next m p v) p = list_prev m p" "list_next (set_list_prev m p v) p = list_next m p"
  unfolding list_prev_def list_next_def set_list_prev_def set_list_next_def
  by (simp_all add: c64.rd_wr_same c64.rd_wr_other node_fields)

lemma set_link_agree:
  assumes "S \<inter> span p 16 = {}"
  shows "agree S (set_list_prev m p v) m" "agree S (set_list_next m p v) m"
  unfolding set_list_prev_def set_list_next_def
  using assms node_fields by (blast intro: c64.wr_agree)+

lemma link_frame:
  assumes "agree S m m'" "span p 16 \<subseteq> S"
  shows "list_prev m p = list_prev m' p" "list_next m p = list_next m' p"
  unfolding list_prev_def list_next_def using assms node_fields by (blast intro: c64.rd_frame)+

text \<open>Two nodes are apart when they share no byte.\<close>

definition apart2 :: "addr \<Rightarrow> addr \<Rightarrow> bool" where
  "apart2 p q \<longleftrightarrow> span p 16 \<inter> span q 16 = {}"

lemma apart2_sym: "apart2 p q \<Longrightarrow> apart2 q p"
  by (auto simp: apart2_def)

lemma apart2_irrefl [simp]: "\<not> apart2 p p"
proof -
  have "p \<in> span p 16" by (simp add: span_iff)
  then show ?thesis by (auto simp: apart2_def)
qed

lemma link_other:
  assumes "apart2 q p"
  shows "list_prev (set_list_prev m p v) q = list_prev m q" "list_next (set_list_prev m p v) q = list_next m q"
    "list_prev (set_list_next m p v) q = list_prev m q" "list_next (set_list_next m p v) q = list_next m q"
  using assms link_frame [OF set_link_agree(1) subset_refl] link_frame [OF set_link_agree(2) subset_refl]
  unfolding apart2_def by metis+

text \<open>A set of nodes of which no two overlap; updates at one of them are visible at that one only.\<close>

definition nodeset :: "addr set \<Rightarrow> bool" where
  "nodeset S \<longleftrightarrow> (\<forall>p \<in> S. \<forall>q \<in> S. p = q \<or> apart2 p q)"

lemma link_upd:
  assumes "nodeset S" "p \<in> S" "q \<in> S"
  shows "list_prev (set_list_prev m p v) q = (if q = p then v else list_prev m q)"
    "list_next (set_list_next m p v) q = (if q = p then v else list_next m q)"
    "list_prev (set_list_next m p v) q = list_prev m q" "list_next (set_list_prev m p v) q = list_next m q"
  using assms link_other [of q p m v] by (cases "q = p"; auto simp: nodeset_def)+

fun apart :: "addr list \<Rightarrow> bool" where
  "apart [] = True"
| "apart (p # ps) \<longleftrightarrow> (\<forall>q \<in> set ps. apart2 p q) \<and> apart ps"

lemma apart_append: "apart (ps @ qs) \<longleftrightarrow> apart ps \<and> apart qs \<and> (\<forall>p \<in> set ps. \<forall>q \<in> set qs. apart2 p q)"
  by (induction ps) auto

definition nodes :: "addr list \<Rightarrow> addr set" where
  "nodes ps = (\<Union>p \<in> set ps. span p 16)"

lemma nodes_simps [simp]:
  "nodes [] = {}" "nodes (p # ps) = span p 16 \<union> nodes ps" "nodes (ps @ qs) = nodes ps \<union> nodes qs"
  by (auto simp: nodes_def)

lemma apart_nodes: "(\<forall>q \<in> set ps. apart2 p q) \<longleftrightarrow> span p 16 \<inter> nodes ps = {}"
  by (auto simp: apart2_def nodes_def)

lemma span_in_nodes: "p \<in> set ps \<Longrightarrow> span p 16 \<subseteq> nodes ps"
  by (auto simp: nodes_def)

lemma apart_nodeset: "apart ps \<Longrightarrow> nodeset (set ps)"
  by (induction ps) (auto simp: nodeset_def intro: apart2_sym)

lemma apart_distinct: "apart ps \<Longrightarrow> distinct ps"
  by (induction ps) auto

lemma apart_perm: "set ps = set qs \<Longrightarrow> distinct qs \<Longrightarrow> apart ps \<Longrightarrow> apart qs"
proof -
  assume eq: "set ps = set qs" and d: "distinct qs" and ap: "apart ps"
  have "nodeset (set qs)" using apart_nodeset [OF ap] eq by simp
  then show "apart qs" using d by (induction qs) (auto simp: nodeset_def)
qed

section \<open>The list a head holds\<close>

text \<open>
  The consecutive pairs of a sequence; \<open>linked\<close> says that \<open>next\<close> and \<open>prev\<close> join each pair. A list
  is its head, the nodes and the head again.
\<close>

fun pairs :: "addr list \<Rightarrow> (addr \<times> addr) set" where
  "pairs (p # q # r) = insert (p, q) (pairs (q # r))"
| "pairs _ = {}"

definition linked :: "mem \<Rightarrow> (addr \<times> addr) set \<Rightarrow> bool" where
  "linked m S \<longleftrightarrow> (\<forall>(p, q) \<in> S. list_next m p = q \<and> list_prev m q = p)"

definition dlist :: "mem \<Rightarrow> addr \<Rightarrow> addr list \<Rightarrow> bool" where
  "dlist m h xs \<longleftrightarrow> linked m (pairs (h # xs @ [h])) \<and> apart (h # xs)"

lemma linked_simps [simp]:
  "linked m {}" "linked m (insert (p, q) S) \<longleftrightarrow> list_next m p = q \<and> list_prev m q = p \<and> linked m S"
  "linked m (S \<union> T) \<longleftrightarrow> linked m S \<and> linked m T"
  by (simp_all add: linked_def ball_Un)

lemma linked_keep:
  assumes "linked m S" "\<And>p q. (p, q) \<in> S \<Longrightarrow> list_next m' p = list_next m p \<and> list_prev m' q = list_prev m q"
  shows "linked m' S"
  using assms by (auto simp: linked_def)

lemma pairs_ends: "(p, q) \<in> pairs l \<Longrightarrow> p \<in> set (butlast l) \<and> q \<in> set (tl l)"
  by (induction l rule: pairs.induct) auto

lemma pairs_append:
  "xs \<noteq> [] \<Longrightarrow> ys \<noteq> [] \<Longrightarrow> pairs (xs @ ys) = insert (last xs, hd ys) (pairs xs \<union> pairs ys)"
  by (induction xs rule: pairs.induct) (auto simp: neq_Nil_conv)

text \<open>The pairs of a list around the place where a node is put or taken.\<close>

lemma pairs_around:
  "pairs (h # xs @ ys @ [h]) = insert (last (h # xs), hd (ys @ [h])) (pairs (h # xs) \<union> pairs (ys @ [h]))"
  "pairs (h # (xs @ n # ys) @ [h]) =
     insert (last (h # xs), n) (insert (n, hd (ys @ [h])) (pairs (h # xs) \<union> pairs (ys @ [h])))"
  using pairs_append [of "h # xs" "ys @ [h]"] pairs_append [of "h # xs" "n # ys @ [h]"] pairs_append [of "[n]" "ys @ [h]"]
  by auto

lemma pairs_off_place:
  assumes "distinct (h # xs @ ys)" "(p, q) \<in> pairs (h # xs) \<union> pairs (ys @ [h])"
  shows "p \<in> set (h # xs @ ys) \<and> q \<in> set (h # xs @ ys) \<and> p \<noteq> last (h # xs) \<and> q \<noteq> hd (ys @ [h])"
proof -
  have d: "distinct (h # xs)" "distinct (ys @ [h])" using assms(1) by auto
  consider "p \<in> set (butlast (h # xs))" "q \<in> set xs" | "p \<in> set ys" "q \<in> set (tl (ys @ [h]))"
    using assms(2) pairs_ends [of p q "h # xs"] pairs_ends [of p q "ys @ [h]"] by auto
  then show ?thesis
  proof cases
    case 1
    have "distinct (butlast (h # xs) @ [last (h # xs)])"
      using d(1) by (subst append_butlast_last_id) auto
    then have "last (h # xs) \<notin> set (butlast (h # xs))" by simp
    moreover have "p \<in> set (h # xs)" using 1(1) by (rule in_set_butlastD)
    ultimately show ?thesis using 1 assms(1) by (cases ys) auto
  next
    case 2
    have "last (h # xs) \<in> set (h # xs)" by (rule last_in_set) simp
    then show ?thesis using 2 assms(1) by (cases ys) auto
  qed
qed

section \<open>What the operations do to a list\<close>

lemma list_link_effect:
  assumes "nodeset S" "{a, b, n, q} \<subseteq> S" "n \<noteq> a" "n \<noteq> b"
  shows "list_next (list_link m n a b) q = (if q = a then n else if q = n then b else list_next m q)"
    "list_prev (list_link m n a b) q = (if q = n then a else if q = b then n else list_prev m q)"
  using assms(2-4) by (auto simp: list_link_def Let_def link_upd [OF assms(1)])

lemma list_link_agree: "agree (- nodes [a, b, n]) (list_link m n a b) m"
  unfolding list_link_def Let_def nodes_simps
  by (intro agree_trans [OF set_link_agree(2) agree_trans [OF set_link_agree(1)
        agree_trans [OF set_link_agree(2) set_link_agree(1)]]]) auto

lemma list_del_effect:
  assumes "nodeset S" "{list_prev m n, list_next m n, n, q} \<subseteq> S" "n \<noteq> list_prev m n" "n \<noteq> list_next m n"
  shows "list_next (list_del m n) q = (if q = n then NULL else if q = list_prev m n then list_next m n else list_next m q)"
    "list_prev (list_del m n) q = (if q = n then NULL else if q = list_next m n then list_prev m n else list_prev m q)"
  using assms(2-4) by (auto simp: list_del_def list_unlink_def Let_def link_upd [OF assms(1)])

lemma list_del_agree: "agree (- nodes [list_prev m n, list_next m n, n]) (list_del m n) m"
  unfolding list_del_def list_unlink_def Let_def nodes_simps
  by (intro agree_trans [OF set_link_agree(1) agree_trans [OF set_link_agree(2)
        agree_trans [OF set_link_agree(2) set_link_agree(1)]]]) auto

lemma list_init_dlist: "dlist (list_init m h) h []" "agree (- span h 16) (list_init m h) m"
proof -
  show "dlist (list_init m h) h []" by (simp add: dlist_def list_init_def)
  show "agree (- span h 16) (list_init m h) m"
    unfolding list_init_def by (intro agree_trans [OF set_link_agree(1) set_link_agree(2)]) auto
qed

text \<open>The head or a node of the list on each side of a place.\<close>

lemma place_in_list: "last (h # xs) \<in> set (h # xs @ ys)" "hd (ys @ [h]) \<in> set (h # xs @ ys)"
  by (cases xs rule: rev_cases; simp) (cases ys; simp)

lemma link_between:
  assumes d: "dlist m h (xs @ ys)" and ap: "apart (n # h # xs @ ys)"
  shows "dlist (list_link m n (last (h # xs)) (hd (ys @ [h]))) h (xs @ n # ys)"
proof -
  let ?a = "last (h # xs)" and ?b = "hd (ys @ [h])" and ?S = "set (n # h # xs @ ys)"
  define m' where "m' = list_link m n ?a ?b"
  have S: "nodeset ?S" using ap by (rule apart_nodeset)
  have dn: "distinct (n # h # xs @ ys)" using ap by (rule apart_distinct)
  have ab: "?a \<in> set (h # xs @ ys)" "?b \<in> set (h # xs @ ys)" by (rule place_in_list)+
  with dn have ne: "n \<noteq> ?a" "n \<noteq> ?b" by fastforce+
  have eff: "list_next m' q = (if q = ?a then n else if q = n then ?b else list_next m q)"
    "list_prev m' q = (if q = n then ?a else if q = ?b then n else list_prev m q)" if "q \<in> ?S" for q
    unfolding m'_def using that ab ne by (intro list_link_effect [OF S]; auto)+
  have "linked m' (pairs (h # xs) \<union> pairs (ys @ [h]))"
  proof (rule linked_keep)
    show "linked m (pairs (h # xs) \<union> pairs (ys @ [h]))"
      using d pairs_around(1) [of h xs ys] by (simp add: dlist_def)
    fix p q assume "(p, q) \<in> pairs (h # xs) \<union> pairs (ys @ [h])"
    from pairs_off_place [OF _ this] dn show "list_next m' p = list_next m p \<and> list_prev m' q = list_prev m q"
      by (auto simp: eff)
  qed
  moreover have "apart (h # xs @ n # ys)"
    using ap by (auto simp: apart_append intro: apart2_sym)
  ultimately show ?thesis
    unfolding m'_def [symmetric] dlist_def pairs_around(2) using ab ne by (simp add: eff)
qed

lemma dlist_ends:
  assumes "dlist m h xs"
  shows "list_next m h = hd (xs @ [h])" "list_prev m h = last (h # xs)"
proof -
  have l: "linked m (pairs (h # xs @ [h]))" using assms by (simp add: dlist_def)
  show "list_next m h = hd (xs @ [h])" using l pairs_around(1) [of h "[]" xs] by simp
  show "list_prev m h = last (h # xs)" using l pairs_around(1) [of h xs "[]"] by simp
qed

lemma dlist_next:
  assumes "dlist m h (xs @ n # ys)"
  shows "list_next m n = hd (ys @ [h])" "n \<noteq> h"
proof -
  show "list_next m n = hd (ys @ [h])" using assms pairs_around(2) [of h xs n ys] by (simp add: dlist_def)
  show "n \<noteq> h" using assms apart_distinct [of "h # xs @ n # ys"] by (auto simp: dlist_def)
qed

lemma dlist_frame:
  assumes "dlist m h xs" "agree (nodes (h # xs)) m' m"
  shows "dlist m' h xs"
proof -
  have keep: "list_next m' p = list_next m p \<and> list_prev m' p = list_prev m p" if "p \<in> set (h # xs)" for p
    using link_frame [OF assms(2) span_in_nodes [OF that]] by simp
  have "list_next m' p = list_next m p \<and> list_prev m' q = list_prev m q" if "(p, q) \<in> pairs (h # xs @ [h])" for p q
  proof -
    have "p \<in> set (h # xs)" "q \<in> set (h # xs)"
      using pairs_ends [OF that] by (auto simp: butlast_append)
    then show ?thesis using keep by blast
  qed
  then show ?thesis using assms(1) linked_keep by (auto simp: dlist_def)
qed

lemma list_add_dlist:
  assumes "dlist m h xs" "apart (n # h # xs)"
  shows "dlist (list_add m n h) h (n # xs)" "agree (- nodes (n # h # xs)) (list_add m n h) m"
proof -
  have e: "list_add m n h = list_link m n (last (h # [])) (hd (xs @ [h]))"
    using dlist_ends(1) [OF assms(1)] by (simp add: list_add_def)
  show "dlist (list_add m n h) h (n # xs)"
    unfolding e using link_between [of m h "[]" xs n] assms by simp
  show "agree (- nodes (n # h # xs)) (list_add m n h) m"
    unfolding e by (rule agree_mono [OF list_link_agree]) (cases xs; auto)
qed

lemma list_add_tail_dlist:
  assumes "dlist m h xs" "apart (n # h # xs)"
  shows "dlist (list_add_tail m n h) h (xs @ [n])" "agree (- nodes (n # h # xs)) (list_add_tail m n h) m"
proof -
  have e: "list_add_tail m n h = list_link m n (last (h # xs)) (hd ([] @ [h]))"
    using dlist_ends(2) [OF assms(1)] by (simp add: list_add_tail_def)
  show "dlist (list_add_tail m n h) h (xs @ [n])"
    unfolding e using link_between [of m h xs "[]" n] assms by simp
  have "span (last (h # xs)) 16 \<subseteq> nodes (h # xs)" by (intro span_in_nodes last_in_set) simp
  then show "agree (- nodes (n # h # xs)) (list_add_tail m n h) m"
    unfolding e by (intro agree_mono [OF list_link_agree]) auto
qed

lemma list_del_dlist:
  assumes d: "dlist m h (xs @ n # ys)"
  shows "dlist (list_del m n) h (xs @ ys)" "list_next (list_del m n) n = NULL" "list_prev (list_del m n) n = NULL"
    "agree (- nodes (h # xs @ n # ys)) (list_del m n) m"
proof -
  let ?a = "last (h # xs)" and ?b = "hd (ys @ [h])" and ?S = "set (n # h # xs @ ys)"
  have ap: "apart (h # xs @ n # ys)" using d by (simp add: dlist_def)
  then have ap': "apart (n # h # xs @ ys)" by (auto simp: apart_append intro: apart2_sym)
  have S: "nodeset ?S" using ap' by (rule apart_nodeset)
  have dn: "distinct (n # h # xs @ ys)" using ap' by (rule apart_distinct)
  have ab: "?a \<in> set (h # xs @ ys)" "?b \<in> set (h # xs @ ys)" by (rule place_in_list)+
  with dn have ne: "n \<noteq> ?a" "n \<noteq> ?b" by fastforce+
  have nb: "list_prev m n = ?a" "list_next m n = ?b" and l: "linked m (pairs (h # xs) \<union> pairs (ys @ [h]))"
    using d unfolding dlist_def pairs_around(2) by auto
  have eff: "list_next (list_del m n) q = (if q = n then NULL else if q = ?a then ?b else list_next m q)"
    "list_prev (list_del m n) q = (if q = n then NULL else if q = ?b then ?a else list_prev m q)" if "q \<in> ?S" for q
    using list_del_effect [OF S, of m n q] that ab ne unfolding nb by auto
  show "list_next (list_del m n) n = NULL" "list_prev (list_del m n) n = NULL" by (simp_all add: eff)
  have "linked (list_del m n) (pairs (h # xs) \<union> pairs (ys @ [h]))"
  proof (rule linked_keep [OF l])
    fix p q assume "(p, q) \<in> pairs (h # xs) \<union> pairs (ys @ [h])"
    from pairs_off_place [OF _ this] dn
    show "list_next (list_del m n) p = list_next m p \<and> list_prev (list_del m n) q = list_prev m q"
      by (auto simp: eff)
  qed
  moreover have "list_next (list_del m n) ?a = ?b" "list_prev (list_del m n) ?b = ?a" using ab ne by (auto simp: eff)
  ultimately show "dlist (list_del m n) h (xs @ ys)"
    using ap' pairs_around(1) [of h xs ys] by (simp add: dlist_def)
  have "span ?a 16 \<subseteq> nodes (h # xs @ ys)" "span ?b 16 \<subseteq> nodes (h # xs @ ys)"
    using span_in_nodes [OF ab(1)] span_in_nodes [OF ab(2)] by blast+
  then show "agree (- nodes (h # xs @ n # ys)) (list_del m n) m"
    by (intro agree_mono [OF list_del_agree]) (auto simp: nb)
qed

lemma walk:
  "linked m (pairs (a # xs @ [h])) \<Longrightarrow> h \<notin> set xs \<Longrightarrow> list_for_each m h (list_next m a) = Some xs"
proof (induction xs arbitrary: a)
  case (Cons x xs)
  then have "list_next m a = x" "list_for_each m h (list_next m x) = Some xs" "x \<noteq> h" by auto
  then show ?case by (subst list_for_each.simps) simp
qed (simp add: list_for_each.simps)

lemma list_for_each_dlist:
  assumes "dlist m h xs"
  shows "list_for_each m h (list_next m h) = Some xs"
  using assms apart_distinct [of "h # xs"] by (intro walk) (auto simp: dlist_def)

section \<open>The interface\<close>

text \<open>
  What the users of the lists rely on: which nodes a head holds, that only the nodes of a list
  matter to it, and what initialising, adding at either end and removing do, each without touching
  memory outside the nodes involved.
\<close>

locale intrusive_list =
  fixes holds :: "mem \<Rightarrow> addr \<Rightarrow> addr list \<Rightarrow> bool"
    and init :: "mem \<Rightarrow> addr \<Rightarrow> mem"
    and push :: "mem \<Rightarrow> addr \<Rightarrow> addr \<Rightarrow> mem"
    and enqueue :: "mem \<Rightarrow> addr \<Rightarrow> addr \<Rightarrow> mem"
    and remove :: "mem \<Rightarrow> addr \<Rightarrow> mem"
  assumes holds_apart: "holds m h xs \<Longrightarrow> apart (h # xs)"
    and holds_frame: "holds m h xs \<Longrightarrow> agree (nodes (h # xs)) m' m \<Longrightarrow> holds m' h xs"
    and init_holds: "holds (init m h) h []"
    and init_frame: "agree (- nodes [h]) (init m h) m"
    and push_holds: "holds m h xs \<Longrightarrow> apart (n # h # xs) \<Longrightarrow> holds (push m n h) h (n # xs)"
    and push_frame: "holds m h xs \<Longrightarrow> apart (n # h # xs) \<Longrightarrow> agree (- nodes (n # h # xs)) (push m n h) m"
    and enqueue_holds: "holds m h xs \<Longrightarrow> apart (n # h # xs) \<Longrightarrow> holds (enqueue m n h) h (xs @ [n])"
    and enqueue_frame: "holds m h xs \<Longrightarrow> apart (n # h # xs) \<Longrightarrow> agree (- nodes (n # h # xs)) (enqueue m n h) m"
    and remove_holds: "holds m h (xs @ n # ys) \<Longrightarrow> holds (remove m n) h (xs @ ys)"
    and remove_frame: "holds m h (xs @ n # ys) \<Longrightarrow> agree (- nodes (h # xs @ n # ys)) (remove m n) m"
begin

text \<open>A list apart from the nodes an operation touches is kept.\<close>

lemma holds_outside:
  assumes "holds m g zs" "agree (- nodes ps) m' m" "apart (g # zs @ ps)"
  shows "holds m' g zs"
proof (rule holds_frame [OF assms(1)])
  have "nodes (g # zs) \<inter> nodes ps = {}"
    using assms(3) unfolding apart_nodes [symmetric]
    by (simp add: apart_append) (simp add: nodes_def apart2_def, blast)
  then show "agree (nodes (g # zs)) m' m" using agree_mono [OF assms(2)] by blast
qed

text \<open>Moving a node from one list to the end of another one.\<close>

lemma remove_enqueue:
  assumes h: "holds m h (xs @ n # ys)" and g: "holds m g zs" and ap: "apart (g # zs @ h # xs @ n # ys)"
  defines "m' \<equiv> enqueue (remove m n) n g"
  shows "holds m' h (xs @ ys)" "holds m' g (zs @ [n])" "agree (- nodes (g # zs @ h # xs @ n # ys)) m' m"
proof -
  have g1: "holds (remove m n) g zs" by (rule holds_outside [OF g remove_frame [OF h] ap])
  have ap1: "apart (n # g # zs)" using ap by (auto simp: apart_append intro: apart2_sym)
  show "holds m' g (zs @ [n])" unfolding m'_def by (rule enqueue_holds [OF g1 ap1])
  have fr: "agree (- nodes (n # g # zs)) m' (remove m n)" unfolding m'_def by (rule enqueue_frame [OF g1 ap1])
  show "holds m' h (xs @ ys)"
    by (rule holds_outside [OF remove_holds [OF h] fr]) (use ap in \<open>auto simp: apart_append intro: apart2_sym\<close>)
  show "agree (- nodes (g # zs @ h # xs @ n # ys)) m' m"
    by (rule agree_trans [OF agree_mono [OF fr] agree_mono [OF remove_frame [OF h]]]) auto
qed

text \<open>Nodes added at the end come out in the order they went in.\<close>

lemma enqueue_all:
  assumes "holds m h xs" "apart (h # xs @ ns)"
  shows "holds (fold (\<lambda>n m. enqueue m n h) ns m) h (xs @ ns)"
  using assms
proof (induction ns arbitrary: m xs)
  case (Cons n ns)
  then have "holds (enqueue m n h) h (xs @ [n])"
    by (intro enqueue_holds) (auto simp: apart_append intro: apart2_sym)
  with Cons.IH [of "enqueue m n h" "xs @ [n]"] Cons.prems(2) show ?case by simp
qed simp

end

interpretation cl: intrusive_list dlist list_init list_add list_add_tail list_del
proof
  show "dlist m h xs \<Longrightarrow> apart (h # xs)" for m h xs by (simp add: dlist_def)
  show "agree (- nodes [h]) (list_init m h) m" for m h using list_init_dlist(2) by simp
qed (fact dlist_frame list_init_dlist(1) list_add_dlist list_add_tail_dlist list_del_dlist(1,4))+

section \<open>Properties\<close>

text \<open>
  The circular lists behave as sequences: from an initialised head, nodes added with
  \<open>list_add_tail\<close> are visited by \<open>list_for_each\<close>, which ends, in the order they were added.
\<close>

theorem list_fifo:
  assumes "apart (h # ns)"
  shows "(let m' = fold (\<lambda>n m. list_add_tail m n h) ns (list_init m h)
    in list_for_each m' h (list_next m' h)) = Some ns"
proof -
  have "dlist (fold (\<lambda>n m. list_add_tail m n h) ns (list_init m h)) h ([] @ ns)"
    using assms by (intro cl.enqueue_all cl.init_holds) simp
  then show ?thesis using list_for_each_dlist by (simp add: Let_def)
qed

theorem list_fifo_witness:
  "apart [0x100, 0x200, 0x300] \<and>
   (let m' = fold (\<lambda>n m. list_add_tail m n 0x100) [0x200, 0x300] (list_init (\<lambda>_. 0) 0x100)
    in list_for_each m' 0x100 (list_next m' 0x100)) = Some [0x200, 0x300]"
proof -
  have "apart [0x100, 0x200, 0x300]"
    by (auto simp: apart2_def span_nowrap)
  then show ?thesis using list_fifo [of "0x100" "[0x200, 0x300]" "\<lambda>_. 0"] by simp
qed

text \<open>
  \<open>list_del\<close> takes exactly its node out of the list it is on: the list keeps the other nodes in
  their order, the node is left with \<open>NULL\<close> links, and no byte outside the nodes of that list
  changes; adding the node to the front of the list again restores it there.
\<close>

theorem list_del_removes:
  assumes "dlist m h (xs @ n # ys)"
  shows "dlist (list_del m n) h (xs @ ys) \<and>
    list_next (list_del m n) n = NULL \<and> list_prev (list_del m n) n = NULL \<and>
    agree (- nodes (h # xs @ n # ys)) (list_del m n) m \<and>
    dlist (list_add (list_del m n) n h) h (n # xs @ ys)"
proof -
  have "apart (n # h # xs @ ys)"
    using cl.holds_apart [OF assms] by (auto simp: apart_append intro: apart2_sym)
  then show ?thesis using list_del_dlist [OF assms] by (simp add: cl.push_holds)
qed

theorem list_del_removes_witness:
  "\<exists>m. dlist m 0x100 ([0x200] @ 0x300 # []) \<and> dlist (list_del m 0x300) 0x100 [0x200]"
proof -
  let ?m = "list_add_tail (list_add_tail (list_init (\<lambda>_. 0) 0x100) 0x200 0x100) 0x300 0x100"
  have "apart [0x100, 0x200, 0x300]"
    by (auto simp: apart2_def span_nowrap)
  then have "dlist ?m 0x100 ([0x200] @ 0x300 # [])"
    using cl.enqueue_all [OF cl.init_holds, of "0x100" "[0x200, 0x300]" "\<lambda>_. 0"] by simp
  then show ?thesis using list_del_removes [of ?m "0x100" "[0x200]" "0x300" "[]"] by auto
qed

end
