(* ===== verification/Gic.thy ===== *)
theory Gic
  imports Gic_Regs
begin

text \<open>
  The GICv3 driver: the distributor (\<^verbatim>\<open>gicd.c\<close>), the redistributors (\<^verbatim>\<open>gicr.c\<close>), the operations on
  shared, private and software generated interrupts (\<^verbatim>\<open>intr/spi.c\<close>, \<^verbatim>\<open>intr/ppi.c\<close>, \<^verbatim>\<open>intr/sgi.c\<close>) and
  the platform initialisation (\<^verbatim>\<open>gicv3.c\<close>), all under \<^verbatim>\<open>src/platform/aarch64/driver/gic/common/\<close>.
  The state is the \<open>gicd_context\<close> the linker places at \<^verbatim>\<open>__gic_context_start\<close> with the contexts of
  all interrupts in it, the flag of \<open>run_once\<close>, and the trace of device accesses. Bit fields of the
  structures have their width as their type; arrays are functions of their index. A pointer to an
  interrupt context is an \<open>irq_ref option\<close> where \<open>None\<close> is the null pointer. Messages printed on the
  console are left out, and so are the members no function reads (\<open>reserved\<close>, \<open>implementer_ops\<close>,
  \<open>implementer_private_data\<close> and the identifier of a redistributor). The context of the distributor is
  at the address of a linker symbol, so the null tests on it never fire.
\<close>

section \<open>State\<close>

text \<open>The three tables of operations, \<open>g_spi_intr_ops\<close>, \<open>g_sgi_intr_ops\<close> and \<open>g_ppi_intr_ops\<close>, by their address.\<close>

datatype intr_ops = Spi_ops | Sgi_ops | Ppi_ops

record irq_context =
  intid :: "10 word"
  group :: bool
  security :: bool
  irm :: bool
  trigger :: bool
  priority :: u8
  nsac :: "2 word"
  affinity :: u32
  handle :: addr
  arg :: addr
  ops :: "intr_ops option"

text \<open>An interrupt of group 0 is signalled as a fast interrupt.\<close>

definition intr_fiq :: "irq_context \<Rightarrow> bool" where "intr_fiq ctx \<longleftrightarrow> \<not> group ctx"

record gicr_context =
  gicr_cpu_id :: u32
  enable_lpi :: bool
  dpg0 :: bool
  dpg1s :: bool
  dpg1ns :: bool
  plpis :: bool
  vlpis :: bool
  direct_lpis :: bool
  gicr_last :: bool
  dpgs :: bool
  processor_number :: u16
  common_lpi_aff :: "2 word"
  gicr_affinity :: u32
  gicr_reserved2 :: "9 word"
  gicr_regs :: addr
  gicr_sgi_regs :: addr
  sgi_ctxs :: "u32 \<Rightarrow> irq_context"
  ppi_ctxs :: "u32 \<Rightarrow> irq_context"

record gicd_context =
  spi_count :: "10 word"
  enable_grp0 :: bool
  enable_grp1 :: bool
  are :: bool
  e1nwf :: bool
  ds :: bool
  itlinesnumber :: "5 word"
  cpunumber :: "3 word"
  securityextn :: bool
  mbis :: bool
  lpis :: bool
  num_lpis :: "5 word"
  a3v :: bool
  no1n :: bool
  implementer :: "12 word"
  revision :: "4 word"
  variant :: "4 word"
  productid :: u8
  gicd_regs :: addr
  gicr_ctxs :: "u32 \<Rightarrow> gicr_context"
  spi_ctxs :: "u32 \<Rightarrow> irq_context"

record gic =
  gicd_ctx :: gicd_context
  gicd_init_once :: u32
  gic_trace :: trace

datatype irq_ref = Spi_ref u32 | Sgi_ref u32 u32 | Ppi_ref u32 u32

fun irq_ctx :: "irq_ref \<Rightarrow> gic \<Rightarrow> irq_context" where
  "irq_ctx (Spi_ref i) g = spi_ctxs (gicd_ctx g) i"
| "irq_ctx (Sgi_ref c i) g = sgi_ctxs (gicr_ctxs (gicd_ctx g) c) i"
| "irq_ctx (Ppi_ref c i) g = ppi_ctxs (gicr_ctxs (gicd_ctx g) c) i"

definition upd_gicd :: "(gicd_context \<Rightarrow> gicd_context) \<Rightarrow> gic \<Rightarrow> gic" where
  "upd_gicd f g = g\<lparr>gicd_ctx := f (gicd_ctx g)\<rparr>"

definition upd_gicr :: "u32 \<Rightarrow> (gicr_context \<Rightarrow> gicr_context) \<Rightarrow> gic \<Rightarrow> gic" where
  "upd_gicr c f = upd_gicd (\<lambda>d. d\<lparr>gicr_ctxs := (gicr_ctxs d)(c := f (gicr_ctxs d c))\<rparr>)"

fun set_irq_ctx :: "irq_ref \<Rightarrow> (irq_context \<Rightarrow> irq_context) \<Rightarrow> gic \<Rightarrow> gic" where
  "set_irq_ctx (Spi_ref i) f g = upd_gicd (\<lambda>d. d\<lparr>spi_ctxs := (spi_ctxs d)(i := f (spi_ctxs d i))\<rparr>) g"
| "set_irq_ctx (Sgi_ref c i) f g = upd_gicr c (\<lambda>r. r\<lparr>sgi_ctxs := (sgi_ctxs r)(i := f (sgi_ctxs r i))\<rparr>) g"
| "set_irq_ctx (Ppi_ref c i) f g = upd_gicr c (\<lambda>r. r\<lparr>ppi_ctxs := (ppi_ctxs r)(i := f (ppi_ctxs r i))\<rparr>) g"

type_synonym 'a run = "gic \<Rightarrow> ('a \<times> gic) outcome option"

definition ret :: "'a \<Rightarrow> 'a run" where "ret v g = Some (Inr (v, g))"
definition panic :: "string \<Rightarrow> 'a run" where "panic msg g = Some (Inl (Panic (msg @ newline)))"

definition rd :: "hardware \<Rightarrow> addr \<Rightarrow> gic \<Rightarrow> u32 \<times> gic" where
  "rd hw a g = (let (v, tr) = read32 hw (gic_trace g) a in (v, g\<lparr>gic_trace := tr\<rparr>))"

definition wr :: "addr \<Rightarrow> u32 \<Rightarrow> gic \<Rightarrow> gic" where
  "wr a v g = g\<lparr>gic_trace := write32 (gic_trace g) a v\<rparr>"

definition wr64 :: "addr \<Rightarrow> u64 \<Rightarrow> gic \<Rightarrow> gic" where
  "wr64 a v g = g\<lparr>gic_trace := write64 (gic_trace g) a v\<rparr>"

definition gisb :: "gic \<Rightarrow> gic" where "gisb g = g\<lparr>gic_trace := isb (gic_trace g)\<rparr>"

definition wait_while :: "hardware \<Rightarrow> addr \<Rightarrow> (u32 \<Rightarrow> bool) \<Rightarrow> unit run" where
  "wait_while hw a busy g =
     (case poll hw a busy (gic_trace g) of None \<Rightarrow> None | Some tr \<Rightarrow> ret () (g\<lparr>gic_trace := tr\<rparr>))"

section \<open>Constants\<close>

definition GICD_BASE :: addr where "GICD_BASE = 0x8000000"
definition GICR_BASE :: addr where "GICR_BASE = 0x80a0000"
definition GICR_STRIDE :: u32 where "GICR_STRIDE = 0x20000"
definition MAX_SUPPORTED_CPUS :: u32 where "MAX_SUPPORTED_CPUS = 8"
definition SGI_LAST_INTID :: u32 where "SGI_LAST_INTID = 15"
definition PPI_FIRST_INTID :: u32 where "PPI_FIRST_INTID = 16"
definition PPI_LAST_INTID :: u32 where "PPI_LAST_INTID = 31"
definition SPI_FIRST_INTID :: u32 where "SPI_FIRST_INTID = 32"
definition SPI_LAST_INTID :: u32 where "SPI_LAST_INTID = 1019"
definition PPI_TIMER_INTID_EL2 :: u32 where "PPI_TIMER_INTID_EL2 = 26"
definition GICD_CTLR_RWP :: u32 where "GICD_CTLR_RWP = push_bit 31 1"
definition GICR_CTLR_RWP :: u32 where "GICR_CTLR_RWP = push_bit 3 1"
definition GICR_WAKER_PROCESSORSLEEP :: u32 where "GICR_WAKER_PROCESSORSLEEP = push_bit 1 1"
definition GICR_WAKER_CHILDRENASLEEP :: u32 where "GICR_WAKER_CHILDRENASLEEP = push_bit 2 1"
definition GICD_STATUS_MASK :: u32 where "GICD_STATUS_MASK = push_bit 4 1 - 1"
definition GICD_ICFGR_LEVEL_SENSITIVE :: u32 where "GICD_ICFGR_LEVEL_SENSITIVE = 0"
definition GICD_ICFGR_EDGE_TRIGGERED :: u32 where "GICD_ICFGR_EDGE_TRIGGERED = 2"

lemmas gic_consts = GICD_BASE_def GICR_BASE_def GICR_STRIDE_def SGI_LAST_INTID_def PPI_FIRST_INTID_def
  PPI_LAST_INTID_def SPI_FIRST_INTID_def SPI_LAST_INTID_def PPI_TIMER_INTID_EL2_def
  GICD_ICFGR_LEVEL_SENSITIVE_def GICD_ICFGR_EDGE_TRIGGERED_def

text \<open>The guards \<open>CHECK_SPI_INTID\<close>, \<open>CHECK_SGI_INTID\<close> and \<open>CHECK_PPI_INTID\<close>: true for a number out of range.\<close>

definition CHECK_SPI_INTID :: "u32 \<Rightarrow> bool" where
  "CHECK_SPI_INTID i \<longleftrightarrow> i < SPI_FIRST_INTID \<or> i > SPI_LAST_INTID"

definition CHECK_SGI_INTID :: "u32 \<Rightarrow> bool" where
  "CHECK_SGI_INTID i \<longleftrightarrow> i > SGI_LAST_INTID"

definition CHECK_PPI_INTID :: "u32 \<Rightarrow> bool" where
  "CHECK_PPI_INTID i \<longleftrightarrow> i < PPI_FIRST_INTID \<or> i > PPI_LAST_INTID"

section \<open>The distributor\<close>

text \<open>
  \<open>gicd_rwp\<close> polls the pending flag in \<open>statusr\<close>. \<open>gicd_wait_rwp\<close> repeats it; the pointer its guard
  tests does not change while it waits.
\<close>

definition rwp_set :: "u32 \<Rightarrow> bool" where "rwp_set status \<longleftrightarrow> status AND GICD_CTLR_RWP \<noteq> 0"

definition no_gicd :: "gic \<Rightarrow> bool" where "no_gicd g \<longleftrightarrow> gicd_regs (gicd_ctx g) = NULL"

definition gicd_rwp :: "hardware \<Rightarrow> bool run" where
  "gicd_rwp hw g =
     (if no_gicd g then panic ''Failed to get GICD context'' g
      else let (status, g) = rd hw (gicd_reg (gicd_regs (gicd_ctx g)) ''statusr'' 0) g in ret (rwp_set status) g)"

definition gicd_wait_rwp :: "hardware \<Rightarrow> unit run" where
  "gicd_wait_rwp hw g =
     (if no_gicd g then panic ''Failed to get GICD context'' g
      else wait_while hw (gicd_reg (gicd_regs (gicd_ctx g)) ''statusr'' 0) rwp_set (gisb g))"

definition gicd_status :: "hardware \<Rightarrow> u32 run" where
  "gicd_status hw g =
     (if no_gicd g then panic ''Failed to get GICD context'' g
      else let (status, g) = rd hw (gicd_reg (gicd_regs (gicd_ctx g)) ''statusr'' 0) g in ret status g)"

definition gicd_reset_status :: "u32 \<Rightarrow> u32 run" where
  "gicd_reset_status status g =
     (if no_gicd g then panic ''Failed to get GICD context'' g
      else ret 0 (gisb (wr (gicd_reg (gicd_regs (gicd_ctx g)) ''statusr'' 0) (status AND GICD_STATUS_MASK) g)))"

text \<open>The attributes read from \<open>typer\<close>, \<open>iidr\<close> and, after the write, from \<open>ctlr\<close>.\<close>

definition read_typer :: "u32 \<Rightarrow> gicd_context \<Rightarrow> gicd_context" where
  "read_typer typer d = (let lines = ucast (typer AND 0x1F) :: 5 word in
     d\<lparr>itlinesnumber := lines,
       spi_count := ucast ((ucast lines + 1) * 32 - SPI_FIRST_INTID),
       cpunumber := ucast (drop_bit 5 typer AND 7),
       securityextn := typer AND push_bit 10 1 \<noteq> 0,
       mbis := typer AND push_bit 16 1 \<noteq> 0,
       lpis := typer AND push_bit 17 1 \<noteq> 0,
       num_lpis := ucast (drop_bit 11 typer AND 0x1F),
       a3v := typer AND push_bit 11 1 \<noteq> 0,
       no1n := typer AND push_bit 25 1 \<noteq> 0\<rparr>)"

definition read_iidr :: "u32 \<Rightarrow> gicd_context \<Rightarrow> gicd_context" where
  "read_iidr iidr d =
     d\<lparr>implementer := ucast (iidr AND 0xFFF),
       revision := ucast (drop_bit 12 iidr AND 0xF),
       variant := ucast (drop_bit 16 iidr AND 0xF),
       productid := ucast (drop_bit 24 iidr AND 0xFF)\<rparr>"

definition read_ctlr :: "u32 \<Rightarrow> gicd_context \<Rightarrow> gicd_context" where
  "read_ctlr ctrl d =
     d\<lparr>ds := ctrl AND push_bit 6 1 \<noteq> 0,
       enable_grp0 := ctrl AND 1 \<noteq> 0,
       enable_grp1 := ctrl AND push_bit 1 1 \<noteq> 0,
       are := ctrl AND push_bit 4 1 \<noteq> 0,
       e1nwf := ctrl AND push_bit 7 1 \<noteq> 0\<rparr>"

text \<open>One round of the loop that disables the shared interrupts.\<close>

definition reset_line :: "hardware \<Rightarrow> nat \<Rightarrow> gic \<Rightarrow> gic outcome option" where
  "reset_line hw i g =
     (let g = wr (gicd_reg GICD_BASE ''icpendr'' (of_nat i + 1)) 0xFFFFFFFF g;
          g = wr (gicd_reg GICD_BASE ''icactiver'' (of_nat i + 1)) 0xFFFFFFFF g;
          g = wr (gicd_reg GICD_BASE ''icenabler'' (of_nat i + 1)) 0xFFFFFFFF g
      in andthen (gicd_wait_rwp hw g) (\<lambda>(_, g). Some (Inr g)))"

definition gicd_init :: "hardware \<Rightarrow> int run" where
  "gicd_init hw g =
     (let g = upd_gicd (\<lambda>d. d\<lparr>gicd_regs := GICD_BASE\<rparr>) g;
          (typer, g) = rd hw (gicd_reg GICD_BASE ''typer'' 0) g;
          g = upd_gicd (read_typer typer) g;
          (iidr, g) = rd hw (gicd_reg GICD_BASE ''iidr'' 0) g;
          g = upd_gicd (read_iidr iidr) g;
          g = upd_gicd (\<lambda>d. d\<lparr>enable_grp0 := False, enable_grp1 := True, are := False, e1nwf := False\<rparr>) g;
          d = gicd_ctx g;
          ctrl = push_bit 0 (of_bool (enable_grp0 d)) OR push_bit 1 (of_bool (enable_grp1 d))
                 OR push_bit 4 (of_bool (are d));
          g = wr (gicd_reg GICD_BASE ''ctlr'' 0) ctrl g
      in andthen (gicd_wait_rwp hw g) (\<lambda>(_, g).
        let (ctrl, g) = rd hw (gicd_reg GICD_BASE ''ctlr'' 0) g;
            g = upd_gicd (read_ctlr ctrl) g
        in andthen (for_each (reset_line hw) [0..<unat (itlinesnumber (gicd_ctx g))] g) (\<lambda>g.
          ret 0 (gisb g))))"

section \<open>The redistributors\<close>

definition get_gicr :: "hardware \<Rightarrow> u32 \<Rightarrow> u32 run" where
  "get_gicr hw cpu g =
     (if cpu \<ge> NR_CPU hw then panic ''Invalid CPU ID for GICR context'' g else ret cpu g)"

definition get_this_gicr :: "hardware \<Rightarrow> u32 run" where
  "get_this_gicr hw g =
     (let (cpu, tr) = cpu_id hw (gic_trace g) in get_gicr hw cpu (g\<lparr>gic_trace := tr\<rparr>))"

abbreviation gicr_of :: "u32 \<Rightarrow> gic \<Rightarrow> gicr_context" where
  "gicr_of c g \<equiv> gicr_ctxs (gicd_ctx g) c"

definition gicr_rwp_set :: "u32 \<Rightarrow> bool" where "gicr_rwp_set ctlr \<longleftrightarrow> ctlr AND GICR_CTLR_RWP \<noteq> 0"

definition gicr_rwp :: "hardware \<Rightarrow> u32 \<Rightarrow> bool run" where
  "gicr_rwp hw c g =
     (let (ctlr, g) = rd hw (gicr_reg (gicr_regs (gicr_of c g)) ''ctlr'') g in ret (gicr_rwp_set ctlr) g)"

text \<open>\<open>gicr_uwp\<close> tests the same bit as \<open>gicr_rwp\<close>.\<close>

definition gicr_uwp :: "hardware \<Rightarrow> u32 \<Rightarrow> bool run" where
  "gicr_uwp hw c g =
     (let (ctlr, g) = rd hw (gicr_reg (gicr_regs (gicr_of c g)) ''ctlr'') g in ret (ctlr AND GICR_CTLR_RWP \<noteq> 0) g)"

definition gicr_wait_rwp :: "hardware \<Rightarrow> unit run" where
  "gicr_wait_rwp hw g =
     andthen (get_this_gicr hw g) (\<lambda>(c, g).
       if gicr_regs (gicr_of c g) = NULL then panic ''Failed to get GICR context'' g
       else wait_while hw (gicr_reg (gicr_regs (gicr_of c g)) ''ctlr'') gicr_rwp_set (gisb g))"

text \<open>The 64-bit \<open>typer\<close> is read with \<open>read32\<close>, so its upper half is always zero.\<close>

definition read_gicr_typer :: "u64 \<Rightarrow> gicr_context \<Rightarrow> gicr_context" where
  "read_gicr_typer typer r =
     r\<lparr>plpis := typer AND push_bit 7 1 \<noteq> 0,
       vlpis := typer AND push_bit 6 1 \<noteq> 0,
       direct_lpis := typer AND push_bit 7 1 \<noteq> 0,
       gicr_last := typer AND push_bit 4 1 \<noteq> 0,
       dpgs := typer AND push_bit 12 1 \<noteq> 0,
       processor_number := ucast (drop_bit 8 typer AND 0xFFFF),
       common_lpi_aff := ucast (drop_bit 32 typer AND 0xFFFFFFFF),
       gicr_affinity := ucast (drop_bit 32 typer AND 0xFFFFFFFF),
       gicr_reserved2 := ucast (drop_bit 55 typer AND 0x1FF)\<rparr>"

definition asleep :: "u32 \<Rightarrow> bool" where "asleep waker \<longleftrightarrow> waker AND GICR_WAKER_CHILDRENASLEEP \<noteq> 0"

definition wake_gicr :: "hardware \<Rightarrow> addr \<Rightarrow> unit run" where
  "wake_gicr hw base g =
     (let (waker, g) = rd hw (gicr_reg base ''waker'') g
      in if waker AND GICR_WAKER_PROCESSORSLEEP \<noteq> 0
         then wait_while hw (gicr_reg base ''waker'') asleep
           (gisb (wr (gicr_reg base ''waker'') (waker AND NOT GICR_WAKER_PROCESSORSLEEP) g))
         else ret () g)"

definition gicr_init :: "hardware \<Rightarrow> u32 \<Rightarrow> u32 \<Rightarrow> int run" where
  "gicr_init hw c cpu g =
     (let base = GICR_BASE + ucast (GICR_STRIDE * cpu);
          g = upd_gicr c (\<lambda>r. r\<lparr>gicr_regs := base, gicr_sgi_regs := base + 0x10000\<rparr>) g;
          (typer, g) = rd hw (gicr_reg base ''typer'') g;
          g = upd_gicr c (read_gicr_typer (ucast typer)) g;
          g = upd_gicr c (\<lambda>r. r\<lparr>gicr_cpu_id := cpu, enable_lpi := False, dpg0 := False, dpg1s := False, dpg1ns := False\<rparr>) g
      in andthen (wake_gicr hw base g) (\<lambda>(_, g).
         andthen (gicr_wait_rwp hw (wr (gicr_reg base ''ctlr'') 0 g)) (\<lambda>(_, g).
           let sgi = gicr_sgi_regs (gicr_of c g);
               g = wr (gicr_sgi_reg sgi ''icpendr0'' 0) 0xFFFFFFFF g;
               g = wr (gicr_sgi_reg sgi ''icactiver0'' 0) 0xFFFFFFFF g;
               g = wr (gicr_sgi_reg sgi ''icenabler0'' 0) 0xFFFFFFFF g
           in andthen (gicr_wait_rwp hw g) (\<lambda>(_, g). ret 0 g))))"

section \<open>Shared peripheral interrupts\<close>

abbreviation gicd_at :: "string \<Rightarrow> u32 \<Rightarrow> gic \<Rightarrow> addr" where
  "gicd_at f i g \<equiv> gicd_reg (gicd_regs (gicd_ctx g)) f i"

text \<open>The guards every operation on a shared interrupt starts with.\<close>

definition spi_guard :: "u32 \<Rightarrow> int run \<Rightarrow> int run" where
  "spi_guard i body g =
     (if no_gicd g then panic ''Failed to get GICD context'' g
      else if CHECK_SPI_INTID i then ret (- EINVAL) g else body g)"

definition gicd_set_clear_spi :: "hardware \<Rightarrow> u32 \<Rightarrow> bool \<Rightarrow> int run" where
  "gicd_set_clear_spi hw i on = spi_guard i (\<lambda>g.
     let reg_offset = drop_bit 5 i; bit_offset = unat (i AND 0x1F)
     in if on then ret 0 (wr (gicd_at ''isenabler'' reg_offset g) (push_bit bit_offset 1) g)
        else andthen (gicd_wait_rwp hw (wr (gicd_at ''icenabler'' reg_offset g) (push_bit bit_offset 1) g))
               (\<lambda>(_, g). ret 0 g))"

definition gicd_spi_set_trigger :: "hardware \<Rightarrow> u32 \<Rightarrow> bool \<Rightarrow> int run" where
  "gicd_spi_set_trigger hw i is_edge = spi_guard i (\<lambda>g.
     let reg_offset = drop_bit 4 i; bit_offset = unat (push_bit 1 (i AND 0xF));
         (cfg_value, g) = rd hw (gicd_at ''icfgr'' reg_offset g) g;
         cfg_value = cfg_value AND NOT (push_bit bit_offset 3);
         cfg_value = cfg_value OR
           push_bit bit_offset (if is_edge then GICD_ICFGR_EDGE_TRIGGERED else GICD_ICFGR_LEVEL_SENSITIVE)
     in ret 0 (wr (gicd_at ''icfgr'' reg_offset g) cfg_value g))"

definition route_value :: "bool \<Rightarrow> u32 \<Rightarrow> u64" where
  "route_value one_of_n aff =
     (if \<not> one_of_n
      then let aff0 = ucast (aff AND 0xFF) :: u8;
               aff1 = ucast (drop_bit 8 aff AND 0xFF) :: u8;
               aff2 = ucast (drop_bit 16 aff AND 0xFF) :: u8;
               aff3 = ucast (drop_bit 24 aff AND 0xFF) :: u8
           in push_bit 0 (ucast aff0) OR push_bit 8 (ucast aff1) OR push_bit 16 (ucast aff2) OR push_bit 32 (ucast aff3)
      else push_bit 31 1)"

definition gicd_spi_config_router :: "u32 \<Rightarrow> bool \<Rightarrow> u32 \<Rightarrow> int run" where
  "gicd_spi_config_router i one_of_n aff = spi_guard i (\<lambda>g.
     if \<not> are (gicd_ctx g) \<and> \<not> one_of_n then ret (- ENOTSUP) g
     else ret 0 (wr64 (gicd_reg64 (gicd_regs (gicd_ctx g)) ''irouter'' i) (route_value one_of_n aff) g))"

definition gicd_spi_set_priority :: "hardware \<Rightarrow> u32 \<Rightarrow> u8 \<Rightarrow> int run" where
  "gicd_spi_set_priority hw i prio = spi_guard i (\<lambda>g.
     let reg_offset = drop_bit 2 i; byte_offset = i AND 3;
         (priority_value, g) = rd hw (gicd_at ''ipriorityr'' reg_offset g) g;
         priority_value = priority_value AND NOT (push_bit (unat (byte_offset * 8)) 0xFF);
         priority_value = priority_value OR push_bit (unat (byte_offset * 8)) (ucast prio)
     in ret 0 (wr (gicd_at ''ipriorityr'' reg_offset g) priority_value g))"

definition gicd_spi_set_security :: "hardware \<Rightarrow> u32 \<Rightarrow> bool \<Rightarrow> bool \<Rightarrow> int run" where
  "gicd_spi_set_security hw i grp secure = spi_guard i (\<lambda>g.
     let reg = (if grp then ''igroupr'' else ''igrpmodr'');
         reg_offset = drop_bit 5 i; bit_offset = unat (i AND 0x1F);
         (value, g) = rd hw (gicd_at reg reg_offset g) g;
         value = (if secure then value AND NOT (push_bit bit_offset 1) else value OR push_bit bit_offset 1)
     in ret 0 (wr (gicd_at reg reg_offset g) value g))"

text \<open>
  The operations of a table take a pointer to a context; what they read of it does not change
  while they run, so they take the context itself, and \<open>None\<close> for the null pointer.
\<close>

definition with_ctx :: "string \<Rightarrow> irq_context option \<Rightarrow> (u32 \<Rightarrow> int run) \<Rightarrow> int run" where
  "with_ctx msg ctx f = (case ctx of None \<Rightarrow> panic msg | Some c \<Rightarrow> f (ucast (intid c)))"

definition gicd_set_spi :: "hardware \<Rightarrow> irq_context option \<Rightarrow> int run" where
  "gicd_set_spi hw ctx = with_ctx ''Invalid context for setting SPI'' ctx (\<lambda>i. gicd_set_clear_spi hw i True)"

definition gicd_clear_spi :: "hardware \<Rightarrow> irq_context option \<Rightarrow> int run" where
  "gicd_clear_spi hw ctx = with_ctx ''Invalid context for clearing SPI'' ctx (\<lambda>i. gicd_set_clear_spi hw i False)"

definition gicd_set_spi_priority :: "hardware \<Rightarrow> irq_context option \<Rightarrow> u8 \<Rightarrow> int run" where
  "gicd_set_spi_priority hw ctx prio =
     with_ctx ''Invalid context for setting SPI priority'' ctx (\<lambda>i. gicd_spi_set_priority hw i prio)"

definition gicd_set_spi_trigger :: "hardware \<Rightarrow> irq_context option \<Rightarrow> bool \<Rightarrow> int run" where
  "gicd_set_spi_trigger hw ctx is_edge =
     with_ctx ''Invalid context for setting SPI trigger'' ctx (\<lambda>i. gicd_spi_set_trigger hw i is_edge)"

definition gicd_set_spi_group :: "hardware \<Rightarrow> irq_context option \<Rightarrow> u8 \<Rightarrow> int run" where
  "gicd_set_spi_group hw ctx grp =
     with_ctx ''Invalid context for setting SPI group'' ctx (\<lambda>i. gicd_spi_set_security hw i (grp \<noteq> 0) False)"

section \<open>Private peripheral interrupts\<close>

text \<open>
  A context is dereferenced without a test: a null pointer faults. \<open>(paddr_t)&reg + reg_offset\<close>
  adds bytes, not registers; \<open>reg_offset\<close> is 0 for the numbers the guard lets through.
\<close>

definition deref :: "irq_context option \<Rightarrow> (irq_context \<Rightarrow> int run) \<Rightarrow> int run" where
  "deref ctx f = (case ctx of None \<Rightarrow> (\<lambda>g. Some (Inl Fault)) | Some c \<Rightarrow> f c)"

abbreviation sgi_at :: "u32 \<Rightarrow> string \<Rightarrow> u32 \<Rightarrow> gic \<Rightarrow> addr" where
  "sgi_at c f i g \<equiv> gicr_sgi_reg (gicr_sgi_regs (gicr_of c g)) f i"

definition gicr_guard :: "hardware \<Rightarrow> (u32 \<Rightarrow> bool) \<Rightarrow> irq_context option \<Rightarrow> (u32 \<Rightarrow> u32 \<Rightarrow> int run) \<Rightarrow> int run" where
  "gicr_guard hw bad ctx body g =
     andthen (get_this_gicr hw g) (\<lambda>(c, g). deref ctx (\<lambda>x g.
       if bad (ucast (intid x)) then ret (- EINVAL) g else body c (ucast (intid x)) g) g)"

definition gicr_ppi_set_trigger :: "hardware \<Rightarrow> irq_context option \<Rightarrow> bool \<Rightarrow> int run" where
  "gicr_ppi_set_trigger hw ctx is_edge = gicr_guard hw CHECK_PPI_INTID ctx (\<lambda>c i g.
     let i = i - PPI_FIRST_INTID;
         reg_offset = drop_bit 4 i; bit_offset = unat (push_bit 1 (i AND 0xF));
         a = sgi_at c ''icfgr1'' 0 g + ucast reg_offset;
         (icfgr_value, g) = rd hw a g;
         icfgr_value = icfgr_value AND NOT (push_bit bit_offset 3);
         icfgr_value = icfgr_value OR push_bit bit_offset (if is_edge then 1 else 0)
     in ret 0 (wr a icfgr_value g))"

definition gicr_set_clear_ppi :: "hardware \<Rightarrow> irq_context option \<Rightarrow> bool \<Rightarrow> int run" where
  "gicr_set_clear_ppi hw ctx on = gicr_guard hw CHECK_PPI_INTID ctx (\<lambda>c i g.
     let reg_offset = drop_bit 5 i; bit_offset = unat (i AND 0x1F)
     in if on then ret 0 (wr (sgi_at c ''isenabler0'' 0 g + ucast reg_offset) (push_bit bit_offset 1) g)
        else andthen (gicr_wait_rwp hw (wr (sgi_at c ''icenabler0'' 0 g + ucast reg_offset) (push_bit bit_offset 1) g))
               (\<lambda>(_, g). ret 0 g))"

definition gicr_set_ppi :: "hardware \<Rightarrow> irq_context option \<Rightarrow> int run" where
  "gicr_set_ppi hw ctx = gicr_set_clear_ppi hw ctx True"

definition gicr_clear_ppi :: "hardware \<Rightarrow> irq_context option \<Rightarrow> int run" where
  "gicr_clear_ppi hw ctx = gicr_set_clear_ppi hw ctx False"

text \<open>The bodies that private and software generated interrupts have in common.\<close>

definition put_priority :: "hardware \<Rightarrow> u8 \<Rightarrow> u32 \<Rightarrow> u32 \<Rightarrow> int run" where
  "put_priority hw prio c i g =
     (let reg_offset = drop_bit 2 i; byte_offset = i AND 3;
          (priority_value, g) = rd hw (sgi_at c ''ipriorityr'' reg_offset g) g;
          priority_value = priority_value AND NOT (push_bit (unat (byte_offset * 8)) 0xFF);
          priority_value = priority_value OR push_bit (unat (byte_offset * 8)) (ucast prio)
      in ret 0 (wr (sgi_at c ''ipriorityr'' reg_offset g) priority_value g))"

definition put_group :: "hardware \<Rightarrow> u8 \<Rightarrow> u32 \<Rightarrow> u32 \<Rightarrow> int run" where
  "put_group hw grp c i g =
     (let bit_offset = unat (i AND 0x1F);
          (value, g) = rd hw (sgi_at c ''igroupr0'' 0 g) g;
          value = (if grp \<noteq> 0 then value OR push_bit bit_offset 1 else value AND NOT (push_bit bit_offset 1))
      in ret 0 (wr (sgi_at c ''igroupr0'' 0 g) value g))"

definition gicr_ppi_set_priority :: "hardware \<Rightarrow> irq_context option \<Rightarrow> u8 \<Rightarrow> int run" where
  "gicr_ppi_set_priority hw ctx prio = gicr_guard hw CHECK_PPI_INTID ctx (put_priority hw prio)"

definition gicr_ppi_set_group :: "hardware \<Rightarrow> irq_context option \<Rightarrow> u8 \<Rightarrow> int run" where
  "gicr_ppi_set_group hw ctx grp = gicr_guard hw CHECK_PPI_INTID ctx (put_group hw grp)"

section \<open>Software generated interrupts\<close>

definition gicr_sgi_set_trigger :: "hardware \<Rightarrow> irq_context option \<Rightarrow> bool \<Rightarrow> int run" where
  "gicr_sgi_set_trigger hw ctx is_edge = gicr_guard hw CHECK_SGI_INTID ctx (\<lambda>c i g.
     let reg_offset = drop_bit 4 i; bit_offset = unat (push_bit 1 (i AND 0xF));
         a = sgi_at c ''icfgr0'' 0 g + ucast reg_offset;
         (icfgr_value, g) = rd hw a g;
         icfgr_value = icfgr_value AND NOT (push_bit bit_offset 3);
         icfgr_value = icfgr_value OR push_bit bit_offset (if is_edge then 1 else 0)
     in ret 0 (wr a icfgr_value g))"

definition gicr_set_clear_sgi :: "hardware \<Rightarrow> u32 \<Rightarrow> bool \<Rightarrow> int run" where
  "gicr_set_clear_sgi hw i on g =
     andthen (get_this_gicr hw g) (\<lambda>(c, g).
       if CHECK_SGI_INTID i then ret (- EINVAL) g
       else
         let reg_offset = drop_bit 5 i; bit_offset = unat (i AND 0x1F)
         in if on then ret 0 (wr (sgi_at c ''isenabler0'' 0 g + ucast reg_offset) (push_bit bit_offset 1) g)
            else andthen (gicr_wait_rwp hw (wr (sgi_at c ''icenabler0'' 0 g + ucast reg_offset) (push_bit bit_offset 1) g))
                   (\<lambda>(_, g). ret 0 g))"

definition gicr_set_sgi :: "hardware \<Rightarrow> irq_context option \<Rightarrow> int run" where
  "gicr_set_sgi hw ctx = with_ctx ''Invalid context for setting SGI'' ctx (\<lambda>i.
     if CHECK_SGI_INTID i then panic ''Invalid SGI intid'' else gicr_set_clear_sgi hw i True)"

definition gicr_clear_sgi :: "hardware \<Rightarrow> irq_context option \<Rightarrow> int run" where
  "gicr_clear_sgi hw ctx = with_ctx ''Invalid context for clearing SGI'' ctx (\<lambda>i.
     if CHECK_SGI_INTID i then panic ''Invalid SGI intid'' else gicr_set_clear_sgi hw i False)"

definition gicr_sgi_set_priority :: "hardware \<Rightarrow> irq_context option \<Rightarrow> u8 \<Rightarrow> int run" where
  "gicr_sgi_set_priority hw ctx prio = gicr_guard hw CHECK_SGI_INTID ctx (put_priority hw prio)"

text \<open>Here the number is tested before the redistributor is looked up.\<close>

definition gicr_sgi_set_group :: "hardware \<Rightarrow> irq_context option \<Rightarrow> u8 \<Rightarrow> int run" where
  "gicr_sgi_set_group hw ctx grp = deref ctx (\<lambda>x g.
     if CHECK_SGI_INTID (ucast (intid x)) then ret (- EINVAL) g
     else andthen (get_this_gicr hw g) (\<lambda>(c, g). put_group hw grp c (ucast (intid x)) g))"

section \<open>Interrupt contexts\<close>

record gic_intr_operations =
  set_intr :: "irq_context option \<Rightarrow> int run"
  clear_intr :: "irq_context option \<Rightarrow> int run"
  set_priority :: "irq_context option \<Rightarrow> u8 \<Rightarrow> int run"
  set_trigger :: "irq_context option \<Rightarrow> bool \<Rightarrow> int run"
  set_group :: "irq_context option \<Rightarrow> u8 \<Rightarrow> int run"

definition g_spi_intr_ops :: "hardware \<Rightarrow> gic_intr_operations" where
  "g_spi_intr_ops hw = \<lparr>set_intr = gicd_set_spi hw, clear_intr = gicd_clear_spi hw,
     set_priority = gicd_set_spi_priority hw, set_trigger = gicd_set_spi_trigger hw, set_group = gicd_set_spi_group hw\<rparr>"

definition g_sgi_intr_ops :: "hardware \<Rightarrow> gic_intr_operations" where
  "g_sgi_intr_ops hw = \<lparr>set_intr = gicr_set_sgi hw, clear_intr = gicr_clear_sgi hw,
     set_priority = gicr_sgi_set_priority hw, set_trigger = gicr_sgi_set_trigger hw, set_group = gicr_sgi_set_group hw\<rparr>"

definition g_ppi_intr_ops :: "hardware \<Rightarrow> gic_intr_operations" where
  "g_ppi_intr_ops hw = \<lparr>set_intr = gicr_set_ppi hw, clear_intr = gicr_clear_ppi hw,
     set_priority = gicr_ppi_set_priority hw, set_trigger = gicr_ppi_set_trigger hw, set_group = gicr_ppi_set_group hw\<rparr>"

fun ops_at :: "hardware \<Rightarrow> intr_ops \<Rightarrow> gic_intr_operations" where
  "ops_at hw Spi_ops = g_spi_intr_ops hw"
| "ops_at hw Sgi_ops = g_sgi_intr_ops hw"
| "ops_at hw Ppi_ops = g_ppi_intr_ops hw"

definition get_spi_context :: "u32 \<Rightarrow> irq_ref option run" where
  "get_spi_context i g =
     (if CHECK_SPI_INTID i then ret None g
      else let r = Spi_ref (i - SPI_FIRST_INTID) in ret (Some r) (set_irq_ctx r (\<lambda>x. x\<lparr>ops := Some Spi_ops\<rparr>) g))"

definition get_sgi_context :: "hardware \<Rightarrow> u32 \<Rightarrow> irq_ref option run" where
  "get_sgi_context hw i g =
     andthen (get_this_gicr hw g) (\<lambda>(c, g).
       if CHECK_SGI_INTID i then ret None g
       else let r = Sgi_ref c i in ret (Some r) (set_irq_ctx r (\<lambda>x. x\<lparr>ops := Some Sgi_ops\<rparr>) g))"

text \<open>A private interrupt's context that is not set up yet is cleared and gets its defaults.\<close>

definition zero_ctx :: irq_context where
  "zero_ctx = \<lparr>intid = 0, group = False, security = False, irm = False, trigger = False, priority = 0,
     nsac = 0, affinity = 0, handle = NULL, arg = NULL, ops = None\<rparr>"

definition get_ppi_context :: "hardware \<Rightarrow> u32 \<Rightarrow> irq_ref option run" where
  "get_ppi_context hw i g =
     andthen (get_this_gicr hw g) (\<lambda>(c, g).
       if CHECK_PPI_INTID i then ret None g
       else
         let r = Ppi_ref c (i - PPI_FIRST_INTID); ppi = irq_ctx r g
         in ret (Some r)
           (if ucast (intid ppi) \<noteq> i \<or> ops ppi \<noteq> Some Ppi_ops
            then set_irq_ctx r (\<lambda>_. zero_ctx\<lparr>intid := ucast i, group := True, priority := 0x80,
                   trigger := False, ops := Some Ppi_ops\<rparr>) g
            else g))"

definition get_irq_context :: "hardware \<Rightarrow> u32 \<Rightarrow> irq_ref option run" where
  "get_irq_context hw i g =
     (if i \<le> SGI_LAST_INTID then get_sgi_context hw i g
      else if i \<le> PPI_LAST_INTID then get_ppi_context hw i g
      else if i \<le> SPI_LAST_INTID then get_spi_context i g
      else ret None g)"

text \<open>
  \<open>gic_irq_enable\<close>: a call of an operation through the table of the context; a negative result
  ends it. A context without a table is a null pointer dereference.
\<close>

definition on_success :: "(int \<times> gic) outcome option \<Rightarrow> int run \<Rightarrow> (int \<times> gic) outcome option" where
  "on_success x f = andthen x (\<lambda>(r, g). if r < 0 then ret r g else f g)"

definition gic_irq_enable :: "hardware \<Rightarrow> irq_ref option \<Rightarrow> int run" where
  "gic_irq_enable hw intr g =
     (case intr of None \<Rightarrow> ret (- ENOENT) g
      | Some r \<Rightarrow>
          case ops (irq_ctx r g) of None \<Rightarrow> Some (Inl Fault)
          | Some t \<Rightarrow>
              let o1 = ops_at hw t; c = (\<lambda>g. Some (irq_ctx r g))
              in on_success (clear_intr o1 (c g) g) (\<lambda>g.
                 on_success (set_priority o1 (c g) (priority (irq_ctx r g)) g) (\<lambda>g.
                 on_success (set_group o1 (c g) (of_bool (group (irq_ctx r g))) g) (\<lambda>g.
                 on_success (set_trigger o1 (c g) (trigger (irq_ctx r g)) g) (\<lambda>g.
                   set_intr o1 (c g) g)))))"

section \<open>Initialisation\<close>

definition gic_sysreg :: "string \<Rightarrow> u64 \<Rightarrow> gic \<Rightarrow> gic" where
  "gic_sysreg r v g = g\<lparr>gic_trace := write_sysreg (gic_trace g) r v\<rparr>"

definition gicv3_init :: "hardware \<Rightarrow> int run" where
  "gicv3_init hw g =
     (let (_, tr) = irq_enable hw (gic_trace g)
      in andthen (gicd_init hw (g\<lparr>gic_trace := tr\<rparr>)) (\<lambda>(_, g). ret 0 g))"

text \<open>
  \<open>run_once\<close> on a flag of the state, by one processor: the lock around the second test of the flag is
  free, and the barriers order nothing.
\<close>

definition run_once :: "('s \<Rightarrow> u32) \<Rightarrow> ((u32 \<Rightarrow> u32) \<Rightarrow> 's \<Rightarrow> 's) \<Rightarrow> ('s \<Rightarrow> (int \<times> 's) outcome option) \<Rightarrow>
    's \<Rightarrow> (int \<times> 's) outcome option" where
  "run_once flag set_flag func s =
     (if flag s = 0
      then andthen (func s) (\<lambda>(r, s). Some (Inr (r, if r = 0 then set_flag (\<lambda>_. 1) s else s)))
      else Some (Inr (0, s)))"

definition plat_gicv3_init :: "hardware \<Rightarrow> int run" where
  "plat_gicv3_init hw g =
     andthen (run_once gicd_init_once gicd_init_once_update (gicv3_init hw) g) (\<lambda>(r, g).
       if r < 0 then panic ''GICD initialization failed'' g
       else andthen (get_this_gicr hw g) (\<lambda>(c, g).
         on_success (gicr_init hw c (gicr_cpu_id (gicr_of c g)) g) (\<lambda>g.
           let g = gic_sysreg ''ICC_SRE_EL2'' (push_bit 0 1 OR push_bit 1 1 OR push_bit 2 1 OR push_bit 3 1) g;
               g = gisb g;
               g = gic_sysreg ''ICC_BPR1_EL1'' 7 g;
               g = gic_sysreg ''ICC_PMR_EL1'' 0xFF g;
               (v, tr) = read_sysreg hw (gic_trace g) ''ICC_CTLR_EL1'';
               g = g\<lparr>gic_trace := tr\<rparr>;
               ctlr = ucast v :: u32;
               ctlr = ctlr AND NOT (push_bit 1 1 OR push_bit 0 1 OR push_bit 6 1);
               g = gic_sysreg ''ICC_CTLR_EL1'' (ucast ctlr) g
           in ret 0 (gic_sysreg ''ICC_IGRPEN1_EL1'' 1 g))))"

end
