(* ===== verification/Gic_Config.thy ===== *)
theory Gic_Config
  imports Gic
begin

text \<open>
  What the operations on interrupts achieve. The specification is a table \<open>u32 \<Rightarrow> irq_config\<close>: for
  every interrupt whether it is enabled, its priority, trigger and group. The table is read off the
  registers the driver wrote, with their documented behaviour: a configuration register holds what
  was last written to it, and the enable registers set and clear lines. The locale \<open>irq_operations\<close>
  is the contract between a table of operations and \<open>gic_irq_enable\<close>: each operation returns 0
  and changes one entry in one field. It is interpreted for the shared, the private and the software
  generated interrupts; \<open>known\<close> are the interrupts of the table, \<open>valid\<close> those the operations accept.
\<close>

section \<open>Fields of a register\<close>

definition put_field :: "nat \<Rightarrow> nat \<Rightarrow> u32 \<Rightarrow> u32 \<Rightarrow> u32" where
  "put_field w k x v = (v AND NOT (push_bit (w * k) (mask w))) OR push_bit (w * k) x"

definition get_field :: "nat \<Rightarrow> nat \<Rightarrow> u32 \<Rightarrow> u32" where
  "get_field w k v = take_bit w (drop_bit (w * k) v)"

lemma get_put_same:
  assumes "w * k + w \<le> 32" "take_bit w x = x"
  shows "get_field w k (put_field w k x v) = x"
proof (rule bit_word_eqI)
  fix n assume "n < LENGTH(32)"
  have "bit x n \<Longrightarrow> n < w" using assms(2) by (metis bit_take_bit_iff)
  moreover have "n < w \<Longrightarrow> w * k + n < 32" using assms(1) by linarith
  ultimately show "bit (get_field w k (put_field w k x v)) n = bit x n"
    by (auto simp: get_field_def put_field_def bit_simps)
qed

lemma get_put_other:
  assumes "j \<noteq> k" "take_bit w x = x"
  shows "get_field w j (put_field w k x v) = get_field w j v"
proof (rule bit_word_eqI)
  fix n assume "n < LENGTH(32)"
  have far: "w * j + n < w * k \<or> w * k + w \<le> w * j + n" if "n < w"
  proof (cases "j < k")
    case True
    then have "w * Suc j \<le> w * k" by (intro mult_le_mono2) simp
    then show ?thesis using that by simp
  next
    case False
    then have "w * Suc k \<le> w * j" using assms(1) by (intro mult_le_mono2) simp
    then show ?thesis by simp
  qed
  have narrow: "\<not> bit x m" if "w \<le> m" for m using assms(2) that by (metis bit_take_bit_iff leD)
  show "bit (get_field w j (put_field w k x v)) n = bit (get_field w j v) n"
  proof (cases "n < w")
    case True
    then have out: "\<not> (w * k \<le> w * j + n \<and> w * j + n - w * k < w)" using far by linarith
    have "\<not> bit x (w * j + n - w * k)" if "w * k \<le> w * j + n"
      by (rule narrow) (use out that in linarith)
    then show ?thesis using True out
      by (auto simp: get_field_def put_field_def bit_simps dest: bit_imp_le_length)
  qed (simp add: get_field_def bit_simps)
qed

lemma put_field_bit:
  assumes "b < 32"
  shows "bit (v OR push_bit b (1 :: u32)) n = (n = b \<or> bit v n)"
    "bit (v AND NOT (push_bit b (1 :: u32))) n = (n \<noteq> b \<and> bit v n)"
  using assms by (auto simp: bit_simps dest: bit_imp_le_length)

text \<open>The offsets the drivers compute from an interrupt number, and the place they stand for.\<close>

lemma and_low: "(i :: u32) AND 0x1F = take_bit 5 i" "i AND 0xF = take_bit 4 i" "i AND 3 = take_bit 2 i"
  by (simp_all add: take_bit_eq_mask mask_eq_exp_minus_1)

lemma unat_take: "unat (take_bit n (i :: u32)) = unat i mod 2 ^ n"
  by (subst unsigned_take_bit_eq) (simp add: take_bit_eq_mod)

lemma unat_drop: "unat (drop_bit n (i :: u32)) = unat i div 2 ^ n"
  by (subst unsigned_drop_bit_eq) (simp add: drop_bit_eq_div take_bit_nat_eq_self)

lemma slot_bit: "unat ((i :: u32) AND 0x1F) = unat i mod 32"
  by (simp add: and_low unat_take)

lemma slot_two: "unat (push_bit 1 ((i :: u32) AND 0xF)) = 2 * (unat i mod 16)"
proof -
  have "unat (i AND 0xF) = unat i mod 16" by (simp add: and_low unat_take)
  moreover have "unat (push_bit 1 (i AND 0xF)) = unat (i AND 0xF) * 2 mod 4294967296"
    by (simp add: push_bit_eq_mult unat_word_ariths)
  ultimately show ?thesis by simp
qed

lemma slot_byte: "unat (((i :: u32) AND 3) * 8) = 8 * (unat i mod 4)"
proof -
  have "unat (i AND 3) = unat i mod 4" by (simp add: and_low unat_take)
  then show ?thesis by (simp add: unat_word_ariths)
qed

lemmas slot_simps = slot_bit slot_two slot_two [simplified] slot_byte

text \<open>A register number and a place in the register determine the interrupt.\<close>

lemma same_slot:
  "drop_bit n (i :: u32) = drop_bit n j \<Longrightarrow> unat i mod 2 ^ n = unat j mod 2 ^ n \<Longrightarrow> i = j"
  by (metis div_mult_mod_eq unat_drop word_unat_eq_iff)

lemma two_bits: "(push_bit b (3 :: u32)) = push_bit b (mask 2)" "push_bit b (0xFF :: u32) = push_bit b (mask 8)"
  by (simp_all add: mask_eq_exp_minus_1)

section \<open>Registers\<close>

definition shadow :: "(addr \<Rightarrow> u32) \<Rightarrow> trace \<Rightarrow> addr \<Rightarrow> u32" where
  "shadow rst tr a = last (rst a # writes_to a tr)"

lemma shadow_append [simp]:
  "shadow rst (tr @ [Wr32 b v]) a = (if a = b then v else shadow rst tr a)"
  "shadow rst (tr @ [Rd32 c x, Wr32 b v]) a = (if a = b then v else shadow rst tr a)"
  by (auto simp: shadow_def)

lemma writes_to_reads [simp]: "writes_to a (map (Rd32 b) vs) = []"
  by (induction vs) auto

lemma shadow_quiet [simp]: "writes_to a tr' = [] \<Longrightarrow> shadow rst (tr @ tr') a = shadow rst tr a"
  by (simp add: shadow_def)

text \<open>Writing ones to the set-enable register turns lines on, to the clear-enable register off.\<close>

fun line_on :: "addr \<Rightarrow> addr \<Rightarrow> nat \<Rightarrow> bool \<Rightarrow> trace \<Rightarrow> bool" where
  "line_on s c b on [] = on"
| "line_on s c b on (Wr32 a v # tr) =
     line_on s c b (if a = s \<and> bit v b then True else if a = c \<and> bit v b then False else on) tr"
| "line_on s c b on (e # tr) = line_on s c b on tr"

lemma line_on_append [simp]: "line_on s c b on (tr @ tr') = line_on s c b (line_on s c b on tr) tr'"
  by (induction s c b on tr rule: line_on.induct) auto

lemma line_on_reads [simp]: "line_on s c b on (map (Rd32 a) vs) = on"
  by (induction vs) auto

text \<open>Reads and barriers change neither.\<close>

definition quiet :: "event \<Rightarrow> bool" where
  "quiet e \<longleftrightarrow> (case e of Wr32 a v \<Rightarrow> False | _ \<Rightarrow> True)"

lemma quiet_simps [simp]:
  "quiet (Rd32 a v)" "quiet (Mrs r x)" "quiet (Msr r x)" "quiet (Barrier r)" "\<not> quiet (Wr32 a v)"
  by (simp_all add: quiet_def)

lemma writes_to_quiet: "\<forall>e \<in> set tr. quiet e \<Longrightarrow> writes_to a tr = []"
  by (induction a tr rule: writes_to.induct) (auto simp: quiet_def)

lemma line_on_quiet: "\<forall>e \<in> set tr. quiet e \<Longrightarrow> line_on s c b on tr = on"
  by (induction s c b on tr rule: line_on.induct) (auto simp: quiet_def)

text \<open>The registers in \<open>A\<close> read back what was last written to them.\<close>

definition plain :: "hardware \<Rightarrow> (addr \<Rightarrow> u32) \<Rightarrow> addr set \<Rightarrow> bool" where
  "plain hw rst A \<longleftrightarrow> (\<forall>tr. \<forall>a \<in> A. mmio_rd hw tr a = shadow rst tr a)"

text \<open>A flag that goes away after finitely many reads, whatever happened before.\<close>

definition settles :: "hardware \<Rightarrow> addr \<Rightarrow> (u32 \<Rightarrow> bool) \<Rightarrow> bool" where
  "settles hw a busy \<longleftrightarrow> (\<forall>tr. \<exists>n. \<not> busy (seen hw a tr n))"

lemma wait_while_ends:
  assumes "settles hw a busy"
  obtains vs where "wait_while hw a busy g = ret () (g\<lparr>gic_trace := gic_trace g @ map (Rd32 a) vs\<rparr>)"
proof -
  obtain vs where "poll hw a busy (gic_trace g) = Some (gic_trace g @ map (Rd32 a) vs)"
    using assms poll_ends unfolding settles_def by metis
  then show ?thesis using that by (simp add: wait_while_def)
qed

section \<open>The contract of a table of operations\<close>

record irq_config =
  cf_enabled :: bool
  cf_priority :: u32
  cf_trigger :: u32
  cf_group :: bool
  cf_mod :: bool

definition does :: "(gic \<Rightarrow> bool) \<Rightarrow> (u32 \<Rightarrow> bool) \<Rightarrow> (gic \<Rightarrow> u32 \<Rightarrow> irq_config) \<Rightarrow>
    u32 \<Rightarrow> (irq_config \<Rightarrow> irq_config) \<Rightarrow> int run \<Rightarrow> bool" where
  "does ready valid config i f op \<longleftrightarrow> (\<forall>g. ready g \<longrightarrow>
     (\<exists>g'. op g = Some (Inr (0, g')) \<and> gicd_ctx g' = gicd_ctx g \<and> ready g' \<and>
       (\<forall>j. valid j \<longrightarrow> config g' j = (if j = i then f (config g j) else config g j))))"

lemma doesI:
  assumes "\<And>g. ready g \<Longrightarrow> \<exists>g'. op g = Some (Inr (0, g')) \<and> gicd_ctx g' = gicd_ctx g \<and> ready g' \<and>
       (\<forall>j. valid j \<longrightarrow> config g' j = (if j = i then f (config g j) else config g j))"
  shows "does ready valid config i f op"
  using assms by (simp add: does_def)

lemma doesE:
  assumes "does ready valid config i f op" "ready g"
  obtains g' where "op g = Some (Inr (0, g'))" "gicd_ctx g' = gicd_ctx g" "ready g'"
    "\<And>j. valid j \<Longrightarrow> config g' j = (if j = i then f (config g j) else config g j)"
  using assms unfolding does_def by blast

lemma irq_ctx_cong: "gicd_ctx g' = gicd_ctx g \<Longrightarrow> irq_ctx r g' = irq_ctx r g"
  by (cases r) auto

locale irq_operations =
  fixes hw :: hardware and tab :: intr_ops
    and valid :: "u32 \<Rightarrow> bool" and known :: "u32 \<Rightarrow> bool" and ready :: "gic \<Rightarrow> bool" and config :: "gic \<Rightarrow> u32 \<Rightarrow> irq_config"
    and grouped :: "bool \<Rightarrow> irq_config \<Rightarrow> irq_config" and trigger_code :: "bool \<Rightarrow> u32"
  assumes clear: "valid (ucast (intid x)) \<Longrightarrow>
      does ready known config (ucast (intid x)) (\<lambda>c. c\<lparr>cf_enabled := False\<rparr>) (clear_intr (ops_at hw tab) (Some x))"
    and prio: "valid (ucast (intid x)) \<Longrightarrow>
      does ready known config (ucast (intid x)) (\<lambda>c. c\<lparr>cf_priority := ucast p\<rparr>) (set_priority (ops_at hw tab) (Some x) p)"
    and grp: "valid (ucast (intid x)) \<Longrightarrow>
      does ready known config (ucast (intid x)) (grouped b) (set_group (ops_at hw tab) (Some x) (of_bool b))"
    and trig: "valid (ucast (intid x)) \<Longrightarrow>
      does ready known config (ucast (intid x)) (\<lambda>c. c\<lparr>cf_trigger := trigger_code e\<rparr>) (set_trigger (ops_at hw tab) (Some x) e)"
    and enab: "valid (ucast (intid x)) \<Longrightarrow>
      does ready known config (ucast (intid x)) (\<lambda>c. c\<lparr>cf_enabled := True\<rparr>) (set_intr (ops_at hw tab) (Some x))"
begin

text \<open>The entry of an interrupt that is enabled with a context.\<close>

definition configured :: "irq_context \<Rightarrow> irq_config \<Rightarrow> irq_config" where
  "configured x c = (grouped (group x) (c\<lparr>cf_enabled := False, cf_priority := ucast (priority x)\<rparr>))
     \<lparr>cf_trigger := trigger_code (trigger x), cf_enabled := True\<rparr>"

lemma enable_configures:
  assumes "ready g" "ops (irq_ctx r g) = Some tab" "valid (ucast (intid (irq_ctx r g)))"
  shows "\<exists>g'. gic_irq_enable hw (Some r) g = Some (Inr (0, g')) \<and> gicd_ctx g' = gicd_ctx g \<and>
    (\<forall>j. known j \<longrightarrow> config g' j =
       (if j = ucast (intid (irq_ctx r g)) then configured (irq_ctx r g) (config g j) else config g j))"
proof -
  let ?x = "irq_ctx r g" and ?o = "ops_at hw tab"
  obtain g1 where 1: "clear_intr ?o (Some ?x) g = Some (Inr (0, g1))" "gicd_ctx g1 = gicd_ctx g" "ready g1"
    "\<And>j. known j \<Longrightarrow> config g1 j = (if j = ucast (intid ?x) then (config g j)\<lparr>cf_enabled := False\<rparr> else config g j)"
    using doesE [OF clear [OF assms(3)] assms(1)] by blast
  obtain g2 where 2: "set_priority ?o (Some ?x) (priority ?x) g1 = Some (Inr (0, g2))" "gicd_ctx g2 = gicd_ctx g1" "ready g2"
    "\<And>j. known j \<Longrightarrow> config g2 j = (if j = ucast (intid ?x) then (config g1 j)\<lparr>cf_priority := ucast (priority ?x)\<rparr> else config g1 j)"
    using doesE [OF prio [OF assms(3)] 1(3)] by blast
  obtain g3 where 3: "set_group ?o (Some ?x) (of_bool (group ?x)) g2 = Some (Inr (0, g3))" "gicd_ctx g3 = gicd_ctx g2" "ready g3"
    "\<And>j. known j \<Longrightarrow> config g3 j = (if j = ucast (intid ?x) then grouped (group ?x) (config g2 j) else config g2 j)"
    using doesE [OF grp [OF assms(3)] 2(3)] by blast
  obtain g4 where 4: "set_trigger ?o (Some ?x) (trigger ?x) g3 = Some (Inr (0, g4))" "gicd_ctx g4 = gicd_ctx g3" "ready g4"
    "\<And>j. known j \<Longrightarrow> config g4 j = (if j = ucast (intid ?x) then (config g3 j)\<lparr>cf_trigger := trigger_code (trigger ?x)\<rparr> else config g3 j)"
    using doesE [OF trig [OF assms(3)] 3(3)] by blast
  obtain g5 where 5: "set_intr ?o (Some ?x) g4 = Some (Inr (0, g5))" "gicd_ctx g5 = gicd_ctx g4" "ready g5"
    "\<And>j. known j \<Longrightarrow> config g5 j = (if j = ucast (intid ?x) then (config g4 j)\<lparr>cf_enabled := True\<rparr> else config g4 j)"
    using doesE [OF enab [OF assms(3)] 4(3)] by blast
  have ctx: "irq_ctx r g1 = ?x" "irq_ctx r g2 = ?x" "irq_ctx r g3 = ?x" "irq_ctx r g4 = ?x"
    using 1(2) 2(2) 3(2) 4(2) by (metis irq_ctx_cong)+
  have "gic_irq_enable hw (Some r) g = Some (Inr (0, g5))"
    by (simp add: gic_irq_enable_def on_success_def Let_def assms(2) ctx 1(1) 2(1) 3(1) 4(1) 5(1))
  moreover have "\<forall>j. known j \<longrightarrow> config g5 j = (if j = ucast (intid ?x) then configured ?x (config g j) else config g j)"
    by (simp add: 1(4) 2(4) 3(4) 4(4) 5(4) configured_def)
  ultimately show ?thesis using 1(2) 2(2) 3(2) 4(2) 5(2) by auto
qed

end

end
