(* ===== verification/Gic_Spi.thy ===== *)
theory Gic_Spi
  imports Gic_Config
begin

text \<open>
  The shared peripheral interrupts implement the contract \<open>irq_operations\<close>: their registers lie apart
  for the interrupt numbers the guards let through, and each operation changes the field of its
  own interrupt.
\<close>

section \<open>Addresses\<close>

definition valid_spi :: "u32 \<Rightarrow> bool" where "valid_spi i \<longleftrightarrow> \<not> CHECK_SPI_INTID i"

lemma valid_spi_unat: "valid_spi i \<longleftrightarrow> 32 \<le> unat i \<and> unat i \<le> 1019"
  by (simp add: valid_spi_def CHECK_SPI_INTID_def gic_consts word_less_nat_alt not_less)

lemmas gicd_offset_simps [simp] = gicd_offsets(2-) [simplified]

lemma gicd_reg_eq:
  assumes "0 \<le> offset_in gicv3_distributor_regs f" "offset_in gicv3_distributor_regs f < 65536"
    "0 \<le> offset_in gicv3_distributor_regs f'" "offset_in gicv3_distributor_regs f' < 65536"
  shows "gicd_reg b f i = gicd_reg b f' j \<longleftrightarrow>
    offset_in gicv3_distributor_regs f + 4 * uint i = offset_in gicv3_distributor_regs f' + 4 * uint j"
proof -
  define x where "x h k = offset_in gicv3_distributor_regs h + 4 * uint k" for h and k :: u32
  have *: "of_int (offset_in gicv3_distributor_regs h) + 4 * ucast k = (of_int (x h k) :: addr)" for h and k :: u32
    by (simp add: x_def)
  have small: "0 \<le> x h k \<and> x h k < 18446744073709551616"
    if "0 \<le> offset_in gicv3_distributor_regs h" "offset_in gicv3_distributor_regs h < 65536" for h k
    using that uint_lt2p [of k] unfolding x_def by simp
  have "gicd_reg b f i = gicd_reg b f' j \<longleftrightarrow> (of_int (x f i) :: addr) = of_int (x f' j)"
    by (simp add: gicd_reg_def add.assoc *)
  also have "\<dots> \<longleftrightarrow> x f i = x f' j"
    using small [OF assms(1,2), of i] small [OF assms(3,4), of j] by (simp add: word_of_int_eq_iff take_bit_eq_mod)
  finally show ?thesis by (simp add: x_def)
qed

lemma valid_index:
  assumes "valid_spi i"
  shows "uint (drop_bit 5 i) \<le> 31" "uint (drop_bit 4 i) \<le> 63" "uint (drop_bit 2 i) \<le> 254"
proof -
  have "unat (drop_bit 5 i) \<le> 31" "unat (drop_bit 4 i) \<le> 63" "unat (drop_bit 2 i) \<le> 254"
    using assms by (auto simp: valid_spi_unat unat_drop)
  then show "uint (drop_bit 5 i) \<le> 31" "uint (drop_bit 4 i) \<le> 63" "uint (drop_bit 2 i) \<le> 254"
    by (metis of_nat_le_iff of_nat_numeral of_nat_unat)+
qed

text \<open>The registers of the shared interrupts with the number of interrupts each serves, as a power of 2.\<close>

definition spi_files :: "(string \<times> nat) set" where
  "spi_files = {(''isenabler'', 5), (''icenabler'', 5), (''igroupr'', 5), (''igrpmodr'', 5), (''icfgr'', 4), (''ipriorityr'', 2)}"

lemma spi_files_simps [simp]:
  "(''isenabler'', 5) \<in> spi_files" "(''icenabler'', 5) \<in> spi_files" "(''igroupr'', 5) \<in> spi_files"
  "(''igrpmodr'', 5) \<in> spi_files" "(''icfgr'', 4) \<in> spi_files" "(''ipriorityr'', 2) \<in> spi_files"
  by (simp_all add: spi_files_def)

definition file_len :: "nat \<Rightarrow> int" where
  "file_len n = 4 * (1024 div 2 ^ n)"

lemma spi_range:
  assumes "(f, n) \<in> spi_files" "valid_spi i"
  shows "4 * uint (drop_bit n i) < file_len n"
  using assms(1) valid_index [OF assms(2)] by (auto simp: spi_files_def file_len_def)

lemma spi_offsets:
  "(f, n) \<in> spi_files \<Longrightarrow>
    (offset_in gicv3_distributor_regs f, n) \<in> {(0x100, 5), (0x180, 5), (0x80, 5), (0xD00, 5), (0xC00, 4), (0x400, 2)}"
  by (auto simp: spi_files_def)

lemma spi_disjoint:
  assumes "(x, n) \<in> {(0x100, 5), (0x180, 5), (0x80, 5), (0xD00, 5), (0xC00, 4), (0x400, 2)}"
    "(y, k) \<in> {(0x100, 5), (0x180, 5), (0x80, 5), (0xD00, 5), (0xC00, 4), (0x400, 2)}" "x \<noteq> y"
  shows "x + file_len n \<le> y \<or> y + file_len k \<le> x"
  using assms by (auto simp: file_len_def)

lemma spi_offset_range:
  "(f, n) \<in> spi_files \<Longrightarrow> 0 \<le> offset_in gicv3_distributor_regs f \<and> offset_in gicv3_distributor_regs f < 65536"
  using spi_offsets by fastforce

lemma spi_apart:
  assumes "(f, n) \<in> spi_files" "(f', n') \<in> spi_files" "valid_spi i" "valid_spi j"
    "offset_in gicv3_distributor_regs f \<noteq> offset_in gicv3_distributor_regs f'"
  shows "gicd_reg b f (drop_bit n i) \<noteq> gicd_reg b f' (drop_bit n' j)"
proof -
  have "0 \<le> uint (drop_bit n i)" "0 \<le> uint (drop_bit n' j)" by simp_all
  then have "offset_in gicv3_distributor_regs f + 4 * uint (drop_bit n i) \<noteq>
      offset_in gicv3_distributor_regs f' + 4 * uint (drop_bit n' j)"
    using spi_disjoint [OF spi_offsets [OF assms(1)] spi_offsets [OF assms(2)] assms(5)]
      spi_range [OF assms(1,3)] spi_range [OF assms(2,4)] by linarith
  then show ?thesis
    using spi_offset_range [OF assms(1)] spi_offset_range [OF assms(2)] by (simp add: gicd_reg_eq)
qed

lemma spi_same:
  assumes "(f, n) \<in> spi_files"
  shows "gicd_reg b f (drop_bit n i) = gicd_reg b f (drop_bit n j) \<longleftrightarrow> drop_bit n i = drop_bit n j"
  using spi_offset_range [OF assms] by (simp add: gicd_reg_eq) (metis word_uint_eq_iff)

section \<open>The table of shared interrupts\<close>

definition spi_config :: "(addr \<Rightarrow> u32) \<Rightarrow> (u32 \<Rightarrow> bool) \<Rightarrow> gic \<Rightarrow> u32 \<Rightarrow> irq_config" where
  "spi_config rst en g i =
     (let reg = gicd_reg (gicd_regs (gicd_ctx g)); tr = gic_trace g in
      \<lparr>cf_enabled = line_on (reg ''isenabler'' (drop_bit 5 i)) (reg ''icenabler'' (drop_bit 5 i)) (unat i mod 32) (en i) tr,
       cf_priority = get_field 8 (unat i mod 4) (shadow rst tr (reg ''ipriorityr'' (drop_bit 2 i))),
       cf_trigger = get_field 2 (unat i mod 16) (shadow rst tr (reg ''icfgr'' (drop_bit 4 i))),
       cf_group = bit (shadow rst tr (reg ''igroupr'' (drop_bit 5 i))) (unat i mod 32),
       cf_mod = bit (shadow rst tr (reg ''igrpmodr'' (drop_bit 5 i))) (unat i mod 32)\<rparr>)"

definition spi_plain :: "addr \<Rightarrow> addr set" where
  "spi_plain b = {gicd_reg b f k | f k.
     (f = ''ipriorityr'' \<and> k < 255) \<or> (f = ''icfgr'' \<and> k < 64) \<or> (f \<in> {''igroupr'', ''igrpmodr''} \<and> k < 32)}"

text \<open>The distributor is mapped, its configuration registers hold their values and writes complete.\<close>

definition spi_ready :: "hardware \<Rightarrow> (addr \<Rightarrow> u32) \<Rightarrow> gic \<Rightarrow> bool" where
  "spi_ready hw rst g \<longleftrightarrow> (let b = gicd_regs (gicd_ctx g) in
     b \<noteq> NULL \<and> plain hw rst (spi_plain b) \<and> settles hw (gicd_reg b ''statusr'' 0) rwp_set)"

definition spi_grouped :: "bool \<Rightarrow> irq_config \<Rightarrow> irq_config" where
  "spi_grouped b c = (if b then c\<lparr>cf_group := True\<rparr> else c\<lparr>cf_mod := True\<rparr>)"

definition spi_trigger :: "bool \<Rightarrow> u32" where
  "spi_trigger e = (if e then 2 else 0)"

lemma spi_ready_trace [simp]: "spi_ready hw rst (g\<lparr>gic_trace := tr\<rparr>) = spi_ready hw rst g"
  by (simp add: spi_ready_def)

lemma spi_ready_wr [simp]: "spi_ready hw rst (wr a v g) = spi_ready hw rst g"
  by (simp add: wr_def)

lemma spi_ready_gicd: "spi_ready hw rst g \<Longrightarrow> \<not> no_gicd g"
  by (auto simp: spi_ready_def no_gicd_def Let_def)

lemma spi_guard_passes:
  "spi_ready hw rst g \<Longrightarrow> valid_spi i \<Longrightarrow> spi_guard i body g = body g"
  by (simp add: spi_guard_def valid_spi_def spi_ready_gicd)

text \<open>Reads and barriers change no entry; a write changes what its register holds.\<close>

lemma spi_config_silent:
  "spi_config rst en (g\<lparr>gic_trace := gic_trace g @ [Rd32 a v]\<rparr>) = spi_config rst en g"
  "spi_config rst en (g\<lparr>gic_trace := (gic_trace g @ [Barrier s]) @ map (Rd32 a) vs\<rparr>) = spi_config rst en g"
  by (rule ext, simp add: spi_config_def Let_def)+

lemma slot_iff:
  "drop_bit 5 j = drop_bit 5 i \<and> unat j mod 32 = unat i mod 32 \<longleftrightarrow> j = i"
  "drop_bit 4 j = drop_bit 4 i \<and> unat j mod 16 = unat i mod 16 \<longleftrightarrow> j = i"
  "drop_bit 2 j = drop_bit 2 i \<and> unat j mod 4 = unat i mod 4 \<longleftrightarrow> j = i" for i j :: u32
  using same_slot [of 5 j i] same_slot [of 4 j i] same_slot [of 2 j i] by auto

lemma wr_enable:
  assumes "valid_spi i" "valid_spi j"
  shows "spi_config rst en (wr (gicd_at ''isenabler'' (drop_bit 5 i) g) (push_bit (unat i mod 32) 1) g) j =
      (if j = i then (spi_config rst en g j)\<lparr>cf_enabled := True\<rparr> else spi_config rst en g j)" (is ?on)
    "spi_config rst en (wr (gicd_at ''icenabler'' (drop_bit 5 i) g) (push_bit (unat i mod 32) 1) g) j =
      (if j = i then (spi_config rst en g j)\<lparr>cf_enabled := False\<rparr> else spi_config rst en g j)" (is ?off)
proof -
  have bit: "bit (push_bit (unat i mod 32) (1 :: u32)) n \<longleftrightarrow> n = unat i mod 32" for n
    by (auto simp: bit_simps)
  show ?on using slot_iff(1) [of j i]
    by (cases "j = i") (auto simp: spi_config_def Let_def wr_def write32_def bit spi_apart spi_same assms simp del: push_bit_of_1)
  show ?off using slot_iff(1) [of j i]
    by (cases "j = i") (auto simp: spi_config_def Let_def wr_def write32_def bit spi_apart spi_same assms simp del: push_bit_of_1)
qed

lemma wr_priority:
  assumes "valid_spi i" "valid_spi j" "take_bit 8 x = x"
  shows "spi_config rst en (wr (gicd_at ''ipriorityr'' (drop_bit 2 i) g)
      (put_field 8 (unat i mod 4) x (shadow rst (gic_trace g) (gicd_at ''ipriorityr'' (drop_bit 2 i) g))) g) j =
    (if j = i then (spi_config rst en g j)\<lparr>cf_priority := x\<rparr> else spi_config rst en g j)"
proof -
  have "8 * (unat i mod 4) + 8 \<le> 32" by presburger
  then show ?thesis
    using slot_iff(3) [of j i]
    by (cases "j = i") (auto simp: spi_config_def Let_def wr_def write32_def spi_apart spi_same get_put_same get_put_other assms)
qed

lemma wr_trigger:
  assumes "valid_spi i" "valid_spi j" "take_bit 2 x = x"
  shows "spi_config rst en (wr (gicd_at ''icfgr'' (drop_bit 4 i) g)
      (put_field 2 (unat i mod 16) x (shadow rst (gic_trace g) (gicd_at ''icfgr'' (drop_bit 4 i) g))) g) j =
    (if j = i then (spi_config rst en g j)\<lparr>cf_trigger := x\<rparr> else spi_config rst en g j)"
proof -
  have "2 * (unat i mod 16) + 2 \<le> 32" by presburger
  then show ?thesis
    using slot_iff(2) [of j i]
    by (cases "j = i") (auto simp: spi_config_def Let_def wr_def write32_def spi_apart spi_same get_put_same get_put_other assms)
qed

lemma wr_group:
  assumes "valid_spi i" "valid_spi j"
  shows "spi_config rst en (wr (gicd_at ''igroupr'' (drop_bit 5 i) g)
      (shadow rst (gic_trace g) (gicd_at ''igroupr'' (drop_bit 5 i) g) OR push_bit (unat i mod 32) 1) g) j =
    (if j = i then (spi_config rst en g j)\<lparr>cf_group := True\<rparr> else spi_config rst en g j)" (is ?grp)
    "spi_config rst en (wr (gicd_at ''igrpmodr'' (drop_bit 5 i) g)
      (shadow rst (gic_trace g) (gicd_at ''igrpmodr'' (drop_bit 5 i) g) OR push_bit (unat i mod 32) 1) g) j =
    (if j = i then (spi_config rst en g j)\<lparr>cf_mod := True\<rparr> else spi_config rst en g j)" (is ?mod)
proof -
  have lt: "unat i mod 32 < 32" by simp
  note field = put_field_bit(1) [OF lt]
  show ?grp using slot_iff(1) [of j i]
    by (cases "j = i") (auto simp: spi_config_def Let_def wr_def write32_def spi_apart spi_same field assms simp del: push_bit_of_1)
  show ?mod using slot_iff(1) [of j i]
    by (cases "j = i") (auto simp: spi_config_def Let_def wr_def write32_def spi_apart spi_same field assms simp del: push_bit_of_1)
qed

section \<open>The operations keep the contract\<close>

lemma spi_read:
  assumes "spi_ready hw rst g" "valid_spi i" "(f, n) \<in> {(''igroupr'', 5), (''igrpmodr'', 5), (''icfgr'', 4), (''ipriorityr'', 2)}"
  shows "mmio_rd hw (gic_trace g) (gicd_at f (drop_bit n i) g) = shadow rst (gic_trace g) (gicd_at f (drop_bit n i) g)"
proof -
  have "unat (drop_bit 5 i) < 32" "unat (drop_bit 4 i) < 64" "unat (drop_bit 2 i) < 255"
    using assms(2) by (auto simp: valid_spi_unat unat_drop)
  then have "gicd_at f (drop_bit n i) g \<in> spi_plain (gicd_regs (gicd_ctx g))"
    using assms(3) unfolding spi_plain_def by (auto simp: word_less_nat_alt)
  then show ?thesis using assms(1) by (simp add: spi_ready_def plain_def Let_def)
qed

lemma spi_wait:
  assumes "spi_ready hw rst g"
  obtains g' where "gicd_wait_rwp hw g = Some (Inr ((), g'))" "gicd_ctx g' = gicd_ctx g" "spi_ready hw rst g'"
    "spi_config rst en g' = spi_config rst en g"
proof -
  let ?a = "gicd_at ''statusr'' 0 g"
  obtain vs where "wait_while hw ?a rwp_set (gisb g) =
      ret () ((gisb g)\<lparr>gic_trace := gic_trace (gisb g) @ map (Rd32 ?a) vs\<rparr>)"
    using wait_while_ends assms unfolding spi_ready_def Let_def by metis
  then have "gicd_wait_rwp hw g = Some (Inr ((), g\<lparr>gic_trace := (gic_trace g @ [Barrier ''isb'']) @ map (Rd32 ?a) vs\<rparr>))"
    using spi_ready_gicd [OF assms] by (simp add: gicd_wait_rwp_def gisb_def isb_def ret_def)
  then show ?thesis using that spi_config_silent(2) assms by fastforce
qed

lemma spi_clear:
  assumes "valid_spi i"
  shows "does (spi_ready hw rst) valid_spi (spi_config rst en) i (\<lambda>c. c\<lparr>cf_enabled := False\<rparr>) (gicd_set_clear_spi hw i False)"
proof (rule doesI)
  fix g assume r: "spi_ready hw rst g"
  let ?g = "wr (gicd_at ''icenabler'' (drop_bit 5 i) g) (push_bit (unat i mod 32) 1) g"
  obtain g' where g': "gicd_wait_rwp hw ?g = Some (Inr ((), g'))" "gicd_ctx g' = gicd_ctx ?g" "spi_ready hw rst g'"
    "spi_config rst en g' = spi_config rst en ?g"
    using spi_wait [of hw rst ?g] r by auto
  have "gicd_set_clear_spi hw i False g = andthen (gicd_wait_rwp hw ?g) (\<lambda>(_, g). ret 0 g)"
    using spi_guard_passes [OF r assms] by (simp add: gicd_set_clear_spi_def slot_simps Let_def del: push_bit_of_1)
  then have "gicd_set_clear_spi hw i False g = Some (Inr (0, g'))" by (simp add: g'(1) ret_def del: push_bit_of_1)
  then show "\<exists>g'. gicd_set_clear_spi hw i False g = Some (Inr (0, g')) \<and> gicd_ctx g' = gicd_ctx g \<and> spi_ready hw rst g' \<and>
      (\<forall>j. valid_spi j \<longrightarrow> spi_config rst en g' j =
        (if j = i then (spi_config rst en g j)\<lparr>cf_enabled := False\<rparr> else spi_config rst en g j))"
    using g' wr_enable(2) [OF assms] by (simp add: wr_def)
qed

text \<open>An operation that reads a configuration register and writes it back.\<close>

lemma spi_write_back:
  assumes "\<And>g. spi_ready hw rst g \<Longrightarrow> op g = ret 0 (wr (a g) (v g) (g\<lparr>gic_trace := gic_trace g @ [Rd32 (a g) (x g)]\<rparr>))"
    "\<And>g j. valid_spi j \<Longrightarrow> spi_config rst en (wr (a g) (v g) g) j = (if j = i then f (spi_config rst en g j) else spi_config rst en g j)"
  shows "does (spi_ready hw rst) valid_spi (spi_config rst en) i f op"
proof (rule doesI)
  fix g assume r: "spi_ready hw rst g"
  let ?g = "wr (a g) (v g) (g\<lparr>gic_trace := gic_trace g @ [Rd32 (a g) (x g)]\<rparr>)"
  have "spi_config rst en ?g = spi_config rst en (wr (a g) (v g) g)"
    by (rule ext) (simp add: spi_config_def Let_def wr_def write32_def)
  then show "\<exists>g'. op g = Some (Inr (0, g')) \<and> gicd_ctx g' = gicd_ctx g \<and> spi_ready hw rst g' \<and>
      (\<forall>j. valid_spi j \<longrightarrow> spi_config rst en g' j = (if j = i then f (spi_config rst en g j) else spi_config rst en g j))"
    using r assms(2) by (intro exI [of _ ?g]) (simp add: assms(1) ret_def wr_def)
qed

lemma spi_enable:
  assumes "valid_spi i"
  shows "does (spi_ready hw rst) valid_spi (spi_config rst en) i (\<lambda>c. c\<lparr>cf_enabled := True\<rparr>) (gicd_set_clear_spi hw i True)"
proof (rule doesI)
  fix g assume r: "spi_ready hw rst g"
  let ?g = "wr (gicd_at ''isenabler'' (drop_bit 5 i) g) (push_bit (unat i mod 32) 1) g"
  have "gicd_set_clear_spi hw i True g = Some (Inr (0, ?g))"
    using spi_guard_passes [OF r assms] by (simp add: gicd_set_clear_spi_def slot_simps Let_def ret_def del: push_bit_of_1)
  then show "\<exists>g'. gicd_set_clear_spi hw i True g = Some (Inr (0, g')) \<and> gicd_ctx g' = gicd_ctx g \<and> spi_ready hw rst g' \<and>
      (\<forall>j. valid_spi j \<longrightarrow> spi_config rst en g' j =
        (if j = i then (spi_config rst en g j)\<lparr>cf_enabled := True\<rparr> else spi_config rst en g j))"
    using r wr_enable(1) [OF assms] by (simp add: wr_def)
qed

lemma spi_priority:
  assumes "valid_spi i"
  shows "does (spi_ready hw rst) valid_spi (spi_config rst en) i (\<lambda>c. c\<lparr>cf_priority := ucast p\<rparr>) (gicd_spi_set_priority hw i p)"
proof (rule spi_write_back)
  let ?a = "\<lambda>g. gicd_at ''ipriorityr'' (drop_bit 2 i) g"
  have "take_bit 8 (ucast p :: u32) = ucast p" by (rule bit_word_eqI) (auto simp: bit_simps dest: bit_imp_le_length)
  then show "spi_config rst en (wr (?a g) (put_field 8 (unat i mod 4) (ucast p) (shadow rst (gic_trace g) (?a g))) g) j =
      (if j = i then (spi_config rst en g j)\<lparr>cf_priority := ucast p\<rparr> else spi_config rst en g j)" if "valid_spi j" for g j
    using wr_priority [OF assms that] by simp
  fix g assume r: "spi_ready hw rst g"
  show "gicd_spi_set_priority hw i p g = ret 0 (wr (?a g) (put_field 8 (unat i mod 4) (ucast p) (shadow rst (gic_trace g) (?a g)))
      (g\<lparr>gic_trace := gic_trace g @ [Rd32 (?a g) (shadow rst (gic_trace g) (?a g))]\<rparr>))"
    using spi_guard_passes [OF r assms] spi_read [OF r assms, of "''ipriorityr''" 2]
    by (simp add: gicd_spi_set_priority_def slot_simps Let_def rd_def read32_def put_field_def two_bits(2))
qed

lemma spi_trigger:
  assumes "valid_spi i"
  shows "does (spi_ready hw rst) valid_spi (spi_config rst en) i (\<lambda>c. c\<lparr>cf_trigger := spi_trigger e\<rparr>) (gicd_spi_set_trigger hw i e)"
proof (rule spi_write_back)
  let ?a = "\<lambda>g. gicd_at ''icfgr'' (drop_bit 4 i) g"
  have "take_bit 2 (spi_trigger e) = spi_trigger e" by (simp add: spi_trigger_def take_bit_eq_mod)
  then show "spi_config rst en (wr (?a g) (put_field 2 (unat i mod 16) (spi_trigger e) (shadow rst (gic_trace g) (?a g))) g) j =
      (if j = i then (spi_config rst en g j)\<lparr>cf_trigger := spi_trigger e\<rparr> else spi_config rst en g j)" if "valid_spi j" for g j
    using wr_trigger [OF assms that] by simp
  fix g assume r: "spi_ready hw rst g"
  show "gicd_spi_set_trigger hw i e g = ret 0 (wr (?a g) (put_field 2 (unat i mod 16) (spi_trigger e) (shadow rst (gic_trace g) (?a g)))
      (g\<lparr>gic_trace := gic_trace g @ [Rd32 (?a g) (shadow rst (gic_trace g) (?a g))]\<rparr>))"
    using spi_guard_passes [OF r assms] spi_read [OF r assms, of "''icfgr''" 4]
    by (simp add: gicd_spi_set_trigger_def slot_simps Let_def rd_def read32_def put_field_def two_bits(1) spi_trigger_def gic_consts)
qed

lemma spi_group:
  assumes "valid_spi i"
  shows "does (spi_ready hw rst) valid_spi (spi_config rst en) i (spi_grouped b) (gicd_spi_set_security hw i b False)"
proof (rule spi_write_back)
  let ?f = "if b then ''igroupr'' else ''igrpmodr''"
  let ?a = "\<lambda>g. gicd_at ?f (drop_bit 5 i) g"
  show "spi_config rst en (wr (?a g) (shadow rst (gic_trace g) (?a g) OR push_bit (unat i mod 32) 1) g) j =
      (if j = i then spi_grouped b (spi_config rst en g j) else spi_config rst en g j)" if "valid_spi j" for g j
    by (simp add: wr_group assms that spi_grouped_def del: push_bit_of_1)
  fix g assume r: "spi_ready hw rst g"
  show "gicd_spi_set_security hw i b False g = ret 0 (wr (?a g) (shadow rst (gic_trace g) (?a g) OR push_bit (unat i mod 32) 1)
      (g\<lparr>gic_trace := gic_trace g @ [Rd32 (?a g) (shadow rst (gic_trace g) (?a g))]\<rparr>))"
    using spi_guard_passes [OF r assms] spi_read [OF r assms, of ?f 5]
    by (simp add: gicd_spi_set_security_def slot_simps Let_def rd_def read32_def del: push_bit_of_1)
qed

interpretation spi: irq_operations hw Spi_ops valid_spi valid_spi "spi_ready hw rst" "spi_config rst en" spi_grouped spi_trigger
  for hw rst en
  by unfold_locales
    (simp_all add: g_spi_intr_ops_def gicd_clear_spi_def gicd_set_spi_def gicd_set_spi_priority_def gicd_set_spi_group_def
      gicd_set_spi_trigger_def with_ctx_def spi_clear spi_enable spi_priority spi_group spi_trigger)

section \<open>Properties\<close>

text \<open>
  C29. \<open>gic_irq_enable\<close> on the context of a shared interrupt returns 0 and leaves that interrupt enabled
  with the priority, trigger and group of its context, and every other shared interrupt as it was,
  although four to thirty-two of them share each register. A context of group 0 sets the group
  modifier bit and leaves the group bit alone.
\<close>

theorem spi_irq_enable_configures:
  assumes "spi_ready hw rst g" "ops (irq_ctx r g) = Some Spi_ops" "valid_spi (ucast (intid (irq_ctx r g)))"
  shows "\<exists>g'. gic_irq_enable hw (Some r) g = Some (Inr (0, g')) \<and> gicd_ctx g' = gicd_ctx g \<and>
    (\<forall>j. valid_spi j \<longrightarrow> spi_config rst en g' j =
      (if j = ucast (intid (irq_ctx r g))
       then (let x = irq_ctx r g; c = spi_config rst en g j in
         \<lparr>cf_enabled = True, cf_priority = ucast (priority x), cf_trigger = (if trigger x then 2 else 0),
          cf_group = (group x \<or> cf_group c), cf_mod = (\<not> group x \<or> cf_mod c)\<rparr>)
       else spi_config rst en g j))"
  using spi.enable_configures [OF assms, of en]
  by (auto simp: spi.configured_def spi_grouped_def spi_trigger_def Let_def)

text \<open>Devices whose registers hold their values, with a status register that reads 0.\<close>

definition mem_hw :: "addr \<Rightarrow> hardware" where
  "mem_hw st = \<lparr>mmio_rd = (\<lambda>tr a. if a = st then 0 else shadow (\<lambda>_. 0) tr a), mmio_rd64 = (\<lambda>_ _. 0), sysreg_rd = (\<lambda>_ _. 0), NR_CPU = 1, HZ = 250\<rparr>"

definition zero_gicr :: gicr_context where
  "zero_gicr = \<lparr>gicr_cpu_id = 0, enable_lpi = False, dpg0 = False, dpg1s = False, dpg1ns = False, plpis = False,
     vlpis = False, direct_lpis = False, gicr_last = False, dpgs = False, processor_number = 0, common_lpi_aff = 0,
     gicr_affinity = 0, gicr_reserved2 = 0, gicr_regs = NULL, gicr_sgi_regs = NULL,
     sgi_ctxs = (\<lambda>_. zero_ctx), ppi_ctxs = (\<lambda>_. zero_ctx)\<rparr>"

definition zero_gicd :: gicd_context where
  "zero_gicd = \<lparr>spi_count = 0, enable_grp0 = False, enable_grp1 = False, are = False, e1nwf = False, ds = False,
     itlinesnumber = 0, cpunumber = 0, securityextn = False, mbis = False, lpis = False, num_lpis = 0, a3v = False,
     no1n = False, implementer = 0, revision = 0, variant = 0, productid = 0, gicd_regs = NULL,
     gicr_ctxs = (\<lambda>_. zero_gicr), spi_ctxs = (\<lambda>_. zero_ctx)\<rparr>"

definition zero_gic :: gic where
  "zero_gic = \<lparr>gicd_ctx = zero_gicd, gicd_init_once = 0, gic_trace = []\<rparr>"

definition demo_gic :: gic where
  "demo_gic = set_irq_ctx (Spi_ref 1) (\<lambda>_. zero_ctx\<lparr>intid := 33, group := True, trigger := True, priority := 0xA0, ops := Some Spi_ops\<rparr>)
     (upd_gicd (\<lambda>d. d\<lparr>gicd_regs := GICD_BASE\<rparr>) zero_gic)"

lemma mem_hw_settles: "\<not> busy 0 \<Longrightarrow> settles (mem_hw st) st busy"
  by (auto simp: settles_def seen_def mem_hw_def)

lemma mem_hw_plain: "st \<notin> A \<Longrightarrow> plain (mem_hw st) (\<lambda>_. 0) A"
  by (auto simp: plain_def mem_hw_def)

lemma mem_hw_spi:
  assumes "gicd_regs (gicd_ctx g) = GICD_BASE"
  shows "spi_ready (mem_hw (gicd_reg GICD_BASE ''statusr'' 0)) (\<lambda>_. 0) g"
proof -
  have "0 < n \<Longrightarrow> n + 4 * uint k \<noteq> 0" for n and k :: u32 using uint_ge_0 [of k] by linarith
  then have "gicd_reg b ''statusr'' 0 \<notin> spi_plain b" for b by (auto simp: spi_plain_def gicd_reg_eq)
  moreover have "\<not> rwp_set 0" by (simp add: rwp_set_def)
  ultimately show ?thesis
    using assms by (simp add: spi_ready_def mem_hw_settles mem_hw_plain) (simp add: GICD_BASE_def)
qed

theorem spi_irq_enable_configures_witness:
  "\<exists>g'. gic_irq_enable (mem_hw (gicd_reg GICD_BASE ''statusr'' 0)) (Some (Spi_ref 1)) demo_gic = Some (Inr (0, g')) \<and>
    spi_config (\<lambda>_. 0) (\<lambda>_. False) g' 33 = \<lparr>cf_enabled = True, cf_priority = 0xA0, cf_trigger = 2, cf_group = True, cf_mod = False\<rparr> \<and>
    \<not> cf_enabled (spi_config (\<lambda>_. 0) (\<lambda>_. False) g' 34)"
proof -
  let ?hw = "mem_hw (gicd_reg GICD_BASE ''statusr'' 0)" and ?x = "irq_ctx (Spi_ref 1) demo_gic"
  have x: "?x = zero_ctx\<lparr>intid := 33, group := True, trigger := True, priority := 0xA0, ops := Some Spi_ops\<rparr>"
    and base: "gicd_regs (gicd_ctx demo_gic) = GICD_BASE" and tr: "gic_trace demo_gic = []"
    by (simp_all add: demo_gic_def upd_gicd_def zero_gic_def zero_gicd_def)
  have i: "ucast (intid ?x) = (33 :: u32)" unfolding x by simp
  have v: "valid_spi 33" "valid_spi 34" by (simp_all add: valid_spi_unat)
  obtain g' where "gic_irq_enable ?hw (Some (Spi_ref 1)) demo_gic = Some (Inr (0, g'))"
    "\<And>j. valid_spi j \<Longrightarrow> spi_config (\<lambda>_. 0) (\<lambda>_. False) g' j =
      (if j = 33
       then (let c = spi_config (\<lambda>_. 0) (\<lambda>_. False) demo_gic j in
         \<lparr>cf_enabled = True, cf_priority = ucast (priority ?x), cf_trigger = (if trigger ?x then 2 else 0),
          cf_group = (group ?x \<or> cf_group c), cf_mod = (\<not> group ?x \<or> cf_mod c)\<rparr>)
       else spi_config (\<lambda>_. 0) (\<lambda>_. False) demo_gic j)"
    using spi_irq_enable_configures [OF mem_hw_spi [OF base], of "Spi_ref 1" "\<lambda>_. False"] v(1) x i by (auto simp: Let_def)
  moreover have "\<not> cf_mod (spi_config (\<lambda>_. 0) (\<lambda>_. False) demo_gic 33)" "\<not> cf_enabled (spi_config (\<lambda>_. 0) (\<lambda>_. False) demo_gic 34)"
    by (simp_all add: spi_config_def tr shadow_def)
  ultimately show ?thesis using v by (intro exI [of _ g']) (simp add: x [simplified] zero_ctx_def)
qed

text \<open>
  C31. The ways enabling an interrupt fails, all without a device access: a null pointer gives \<open>-ENOENT\<close>; a
  context of a shared interrupt whose number is out of range gives \<open>-EINVAL\<close>. The second happens for
  every context that \<open>get_spi_context\<close> returns for the first time, because it sets the table of
  operations but not the number.
\<close>

theorem irq_enable_errors:
  assumes "\<not> no_gicd g" "valid_spi i" "spi_ctxs (gicd_ctx g) (i - SPI_FIRST_INTID) = zero_ctx"
  shows "gic_irq_enable hw None g = Some (Inr (- ENOENT, g)) \<and>
    (\<exists>g'. get_spi_context i g = Some (Inr (Some (Spi_ref (i - SPI_FIRST_INTID)), g')) \<and>
      gic_irq_enable hw (Some (Spi_ref (i - SPI_FIRST_INTID))) g' = Some (Inr (- EINVAL, g')))"
proof -
  let ?r = "Spi_ref (i - SPI_FIRST_INTID)"
  define g' where "g' = set_irq_ctx ?r (\<lambda>x. x\<lparr>ops := Some Spi_ops\<rparr>) g"
  have "irq_ctx ?r g' = zero_ctx\<lparr>ops := Some Spi_ops\<rparr>" "\<not> no_gicd g'"
    using assms by (simp_all add: g'_def upd_gicd_def no_gicd_def)
  then have "gic_irq_enable hw (Some ?r) g' = Some (Inr (- EINVAL, g'))"
    by (simp add: gic_irq_enable_def g_spi_intr_ops_def gicd_clear_spi_def with_ctx_def zero_ctx_def gicd_set_clear_spi_def
        spi_guard_def CHECK_SPI_INTID_def gic_consts on_success_def ret_def EINVAL_def Let_def)
  then show ?thesis
    using assms(2) by (simp add: gic_irq_enable_def get_spi_context_def ret_def valid_spi_def g'_def Let_def)
qed

theorem irq_enable_errors_witness:
  "\<exists>g'. get_spi_context 40 demo_gic = Some (Inr (Some (Spi_ref 8), g')) \<and>
    gic_irq_enable (mem_hw 0) (Some (Spi_ref 8)) g' = Some (Inr (- 22, g'))"
proof -
  have "\<not> no_gicd demo_gic" "spi_ctxs (gicd_ctx demo_gic) (40 - SPI_FIRST_INTID) = zero_ctx"
    by (simp_all add: demo_gic_def upd_gicd_def no_gicd_def zero_gic_def zero_gicd_def GICD_BASE_def SPI_FIRST_INTID_def)
  then show ?thesis
    using irq_enable_errors [of demo_gic 40 "mem_hw 0"] by (simp add: valid_spi_unat SPI_FIRST_INTID_def EINVAL_def)
qed

end
