(* ===== verification/Gic_Private.thy ===== *)
theory Gic_Private
  imports Gic_Spi
begin

text \<open>
  The private and the software generated interrupts implement the contract \<open>irq_operations\<close>. Their
  registers are in the second frame of the redistributor of the processor that runs; one table
  holds the thirty-two interrupts of that processor.
\<close>

section \<open>Addresses\<close>

lemmas sgi_offset_simps [simp] = gicr_sgi_offsets(2-) [simplified]

definition is_private :: "u32 \<Rightarrow> bool" where "is_private i \<longleftrightarrow> i < 32"
definition valid_ppi :: "u32 \<Rightarrow> bool" where "valid_ppi i \<longleftrightarrow> \<not> CHECK_PPI_INTID i"
definition valid_sgi :: "u32 \<Rightarrow> bool" where "valid_sgi i \<longleftrightarrow> \<not> CHECK_SGI_INTID i"

lemma private_unat: "is_private i \<longleftrightarrow> unat i < 32"
  by (simp add: is_private_def word_less_nat_alt)

lemma valid_ppi_unat: "valid_ppi i \<longleftrightarrow> 16 \<le> unat i \<and> unat i \<le> 31"
  by (simp add: valid_ppi_def CHECK_PPI_INTID_def gic_consts word_less_nat_alt not_less)

lemma valid_sgi_unat: "valid_sgi i \<longleftrightarrow> unat i \<le> 15"
  by (simp add: valid_sgi_def CHECK_SGI_INTID_def gic_consts word_less_nat_alt not_less)

lemma valid_private: "valid_ppi i \<Longrightarrow> is_private i" "valid_sgi i \<Longrightarrow> is_private i"
  by (simp_all add: valid_ppi_unat valid_sgi_unat private_unat)

lemma sgi_reg_eq:
  assumes "0 \<le> offset_in gicv3_redistributor_sgi_regs f" "offset_in gicv3_redistributor_sgi_regs f < 65536"
    "0 \<le> offset_in gicv3_redistributor_sgi_regs f'" "offset_in gicv3_redistributor_sgi_regs f' < 65536"
  shows "gicr_sgi_reg b f i = gicr_sgi_reg b f' j \<longleftrightarrow>
    offset_in gicv3_redistributor_sgi_regs f + 4 * uint i = offset_in gicv3_redistributor_sgi_regs f' + 4 * uint j"
proof -
  define x where "x h k = offset_in gicv3_redistributor_sgi_regs h + 4 * uint k" for h and k :: u32
  have *: "of_int (offset_in gicv3_redistributor_sgi_regs h) + 4 * ucast k = (of_int (x h k) :: addr)" for h and k :: u32
    by (simp add: x_def)
  have small: "0 \<le> x h k \<and> x h k < 18446744073709551616"
    if "0 \<le> offset_in gicv3_redistributor_sgi_regs h" "offset_in gicv3_redistributor_sgi_regs h < 65536" for h k
    using that uint_lt2p [of k] unfolding x_def by simp
  have "gicr_sgi_reg b f i = gicr_sgi_reg b f' j \<longleftrightarrow> (of_int (x f i) :: addr) = of_int (x f' j)"
    by (simp add: gicr_sgi_reg_def add.assoc *)
  also have "\<dots> \<longleftrightarrow> x f i = x f' j"
    using small [OF assms(1,2), of i] small [OF assms(3,4), of j] by (simp add: word_of_int_eq_iff take_bit_eq_mod)
  finally show ?thesis by (simp add: x_def)
qed

lemma private_index:
  assumes "is_private i"
  shows "0 \<le> uint (drop_bit 2 i)" "uint (drop_bit 2 i) < 8" "drop_bit 5 i = 0" "unat i mod 32 = unat i"
proof -
  have "unat (drop_bit 2 i) < 8" using assms by (auto simp: private_unat unat_drop)
  then show "uint (drop_bit 2 i) < 8" by (metis of_nat_less_iff of_nat_numeral of_nat_unat)
  show "drop_bit 5 i = 0" using assms by (auto simp: private_unat unat_drop word_unat_eq_iff)
qed (use assms in \<open>simp_all add: private_unat\<close>)

definition icfgr_of :: "u32 \<Rightarrow> string" where
  "icfgr_of i = (if i < 16 then ''icfgr0'' else ''icfgr1'')"

section \<open>The table of private interrupts\<close>

definition private_config :: "(addr \<Rightarrow> u32) \<Rightarrow> (u32 \<Rightarrow> bool) \<Rightarrow> u32 \<Rightarrow> gic \<Rightarrow> u32 \<Rightarrow> irq_config" where
  "private_config rst en cpu g i =
     (let reg = gicr_sgi_reg (gicr_sgi_regs (gicr_of cpu g)); tr = gic_trace g in
      \<lparr>cf_enabled = line_on (reg ''isenabler0'' 0) (reg ''icenabler0'' 0) (unat i) (en i) tr,
       cf_priority = get_field 8 (unat i mod 4) (shadow rst tr (reg ''ipriorityr'' (drop_bit 2 i))),
       cf_trigger = get_field 2 (unat i mod 16) (shadow rst tr (reg (icfgr_of i) 0)),
       cf_group = bit (shadow rst tr (reg ''igroupr0'' 0)) (unat i),
       cf_mod = bit (shadow rst tr (reg ''igrpmodr0'' 0)) (unat i)\<rparr>)"

definition private_plain :: "addr \<Rightarrow> addr set" where
  "private_plain b = {gicr_sgi_reg b f k | f k.
     (f = ''ipriorityr'' \<and> k < 8) \<or> (f \<in> {''icfgr0'', ''icfgr1'', ''igroupr0''} \<and> k = 0)}"

text \<open>
  The program runs on the processor \<open>cpu\<close>, its redistributor is mapped, the configuration registers
  hold their values and writes complete.
\<close>

definition private_ready :: "hardware \<Rightarrow> (addr \<Rightarrow> u32) \<Rightarrow> u32 \<Rightarrow> gic \<Rightarrow> bool" where
  "private_ready hw rst cpu g \<longleftrightarrow> (let r = gicr_of cpu g in
     (\<forall>tr. ucast (sysreg_rd hw tr ''MPIDR_EL1'' AND 0xFF) = cpu) \<and> cpu < NR_CPU hw \<and>
     gicr_regs r \<noteq> NULL \<and> plain hw rst (private_plain (gicr_sgi_regs r)) \<and>
     settles hw (gicr_reg (gicr_regs r) ''ctlr'') gicr_rwp_set)"

definition private_grouped :: "bool \<Rightarrow> irq_config \<Rightarrow> irq_config" where
  "private_grouped b c = c\<lparr>cf_group := b\<rparr>"

definition private_trigger :: "bool \<Rightarrow> u32" where
  "private_trigger e = (if e then 1 else 0)"

lemma private_ready_trace [simp]: "private_ready hw rst cpu (g\<lparr>gic_trace := tr\<rparr>) = private_ready hw rst cpu g"
  by (simp add: private_ready_def)

lemma private_ready_wr [simp]: "private_ready hw rst cpu (wr a v g) = private_ready hw rst cpu g"
  by (simp add: wr_def)

text \<open>Finding the redistributor reads the processor number and nothing else.\<close>

lemma this_gicr:
  assumes "private_ready hw rst cpu g"
  obtains x where "get_this_gicr hw g = Some (Inr (cpu, g\<lparr>gic_trace := gic_trace g @ [Mrs ''MPIDR_EL1'' x]\<rparr>))"
proof (rule that)
  show "get_this_gicr hw g =
      Some (Inr (cpu, g\<lparr>gic_trace := gic_trace g @ [Mrs ''MPIDR_EL1'' (sysreg_rd hw (gic_trace g) ''MPIDR_EL1'')]\<rparr>))"
    using assms
    by (auto simp: private_ready_def get_this_gicr_def cpu_id_def read_sysreg_def get_gicr_def ret_def Let_def)
qed

lemma private_config_quiet:
  assumes "\<forall>e \<in> set tr. quiet e"
  shows "private_config rst en cpu (g\<lparr>gic_trace := gic_trace g @ tr\<rparr>) = private_config rst en cpu g"
  using assms by (intro ext) (simp add: private_config_def Let_def writes_to_quiet line_on_quiet)

lemma private_wait:
  assumes "private_ready hw rst cpu g"
  obtains g' where "gicr_wait_rwp hw g = Some (Inr ((), g'))" "gicd_ctx g' = gicd_ctx g" "private_ready hw rst cpu g'"
    "private_config rst en cpu g' = private_config rst en cpu g"
proof -
  let ?a = "gicr_reg (gicr_regs (gicr_of cpu g)) ''ctlr''"
  obtain x where x: "get_this_gicr hw g = Some (Inr (cpu, g\<lparr>gic_trace := gic_trace g @ [Mrs ''MPIDR_EL1'' x]\<rparr>))"
    using this_gicr [OF assms] .
  let ?g = "gisb (g\<lparr>gic_trace := gic_trace g @ [Mrs ''MPIDR_EL1'' x]\<rparr>)"
  obtain vs where "wait_while hw ?a gicr_rwp_set ?g = ret () (?g\<lparr>gic_trace := gic_trace ?g @ map (Rd32 ?a) vs\<rparr>)"
    using wait_while_ends assms unfolding private_ready_def Let_def by metis
  then have w: "gicr_wait_rwp hw g =
      Some (Inr ((), g\<lparr>gic_trace := gic_trace g @ [Mrs ''MPIDR_EL1'' x, Barrier ''isb''] @ map (Rd32 ?a) vs\<rparr>))"
    using assms x by (simp add: gicr_wait_rwp_def gisb_def isb_def ret_def private_ready_def Let_def)
  have "\<forall>e \<in> set ([Mrs ''MPIDR_EL1'' x, Barrier ''isb''] @ map (Rd32 ?a) vs). quiet e" by auto
  from that [OF w _ _ private_config_quiet [OF this]] assms show ?thesis by simp
qed

section \<open>Writes\<close>

lemma offset_not_zero [simp]: "numeral n + 4 * uint (k :: u32) \<noteq> 0"
  using uint_ge_0 [of k] zero_less_numeral [of n, where 'a = int] by linarith

lemma private_bit: "is_private i \<Longrightarrow> bit (push_bit (unat i) (1 :: u32)) n \<longleftrightarrow> n = unat i"
  by (auto simp: bit_simps private_unat)

lemma private_enable:
  assumes "is_private i" "is_private j"
  shows "private_config rst en cpu (wr (sgi_at cpu ''isenabler0'' 0 g) (push_bit (unat i) 1) g) j =
      (if j = i then (private_config rst en cpu g j)\<lparr>cf_enabled := True\<rparr> else private_config rst en cpu g j)"
    "private_config rst en cpu (wr (sgi_at cpu ''icenabler0'' 0 g) (push_bit (unat i) 1) g) j =
      (if j = i then (private_config rst en cpu g j)\<lparr>cf_enabled := False\<rparr> else private_config rst en cpu g j)"
  using private_index [OF assms(2)] assms
  by (auto simp: private_config_def Let_def wr_def write32_def private_bit sgi_reg_eq icfgr_of_def
      simp flip: word_unat_eq_iff simp del: push_bit_of_1)

lemma private_group:
  assumes "is_private i" "is_private j"
  shows "private_config rst en cpu (wr (sgi_at cpu ''igroupr0'' 0 g)
      (let v = shadow rst (gic_trace g) (sgi_at cpu ''igroupr0'' 0 g) in
       if b then v OR push_bit (unat i) 1 else v AND NOT (push_bit (unat i) 1)) g) j =
    (if j = i then (private_config rst en cpu g j)\<lparr>cf_group := b\<rparr> else private_config rst en cpu g j)"
proof -
  have lt: "unat i < 32" using assms by (simp add: private_unat)
  show ?thesis
    using private_index [OF assms(2)]
    by (auto simp: private_config_def Let_def wr_def write32_def put_field_bit [OF lt] sgi_reg_eq icfgr_of_def
        simp flip: word_unat_eq_iff simp del: push_bit_of_1)
qed

lemma private_priority:
  assumes "is_private i" "is_private j" "take_bit 8 x = x"
  shows "private_config rst en cpu (wr (sgi_at cpu ''ipriorityr'' (drop_bit 2 i) g)
      (put_field 8 (unat i mod 4) x (shadow rst (gic_trace g) (sgi_at cpu ''ipriorityr'' (drop_bit 2 i) g))) g) j =
    (if j = i then (private_config rst en cpu g j)\<lparr>cf_priority := x\<rparr> else private_config rst en cpu g j)"
proof -
  have "8 * (unat i mod 4) + 8 \<le> 32" by presburger
  moreover have "drop_bit 2 j = drop_bit 2 i \<longleftrightarrow> uint (drop_bit 2 j) = uint (drop_bit 2 i)" by (metis word_uint_eq_iff)
  ultimately show ?thesis
    using slot_iff(3) [of j i] private_index [OF assms(1)] private_index [OF assms(2)]
    by (cases "j = i") (auto simp: private_config_def Let_def wr_def write32_def sgi_reg_eq icfgr_of_def get_put_same get_put_other assms)
qed

lemma icfgr_iff:
  assumes "is_private i" "is_private j"
  shows "icfgr_of j = icfgr_of i \<and> unat j mod 16 = unat i mod 16 \<longleftrightarrow> j = i"
proof -
  have d: "unat k div 16 = (if icfgr_of k = ''icfgr0'' then 0 else 1)" if "is_private k" for k
  proof -
    have "n < 32 \<Longrightarrow> n div 16 = (if n < 16 then 0 else 1)" for n :: nat by auto
    then show ?thesis using that by (simp add: icfgr_of_def private_unat word_less_nat_alt)
  qed
  have "unat j div 16 = unat i div 16 \<Longrightarrow> unat j mod 16 = unat i mod 16 \<Longrightarrow> j = i"
    by (metis div_mult_mod_eq word_unat_eq_iff)
  then show ?thesis using d [OF assms(1)] d [OF assms(2)] by auto
qed

lemma private_trigger_write:
  assumes "is_private i" "is_private j" "take_bit 2 x = x"
  shows "private_config rst en cpu (wr (sgi_at cpu (icfgr_of i) 0 g)
      (put_field 2 (unat i mod 16) x (shadow rst (gic_trace g) (sgi_at cpu (icfgr_of i) 0 g))) g) j =
    (if j = i then (private_config rst en cpu g j)\<lparr>cf_trigger := x\<rparr> else private_config rst en cpu g j)"
proof -
  have fits: "2 * (unat i mod 16) + 2 \<le> 32" by presburger
  have same: "gicr_sgi_reg b (icfgr_of j) 0 = gicr_sgi_reg b (icfgr_of i) 0 \<longleftrightarrow> icfgr_of j = icfgr_of i" for b
    by (auto simp: icfgr_of_def sgi_reg_eq)
  have apart: "gicr_sgi_reg b (icfgr_of i) 0 \<noteq> gicr_sgi_reg b ''isenabler0'' 0"
    "gicr_sgi_reg b (icfgr_of i) 0 \<noteq> gicr_sgi_reg b ''icenabler0'' 0"
    "gicr_sgi_reg b ''igroupr0'' 0 \<noteq> gicr_sgi_reg b (icfgr_of i) 0"
    "gicr_sgi_reg b ''igrpmodr0'' 0 \<noteq> gicr_sgi_reg b (icfgr_of i) 0"
    "gicr_sgi_reg b ''ipriorityr'' (drop_bit 2 j) \<noteq> gicr_sgi_reg b (icfgr_of i) 0" for b
    using private_index [OF assms(2)] by (auto simp: icfgr_of_def sgi_reg_eq)
  have "get_field 2 (unat j mod 16) (put_field 2 (unat i mod 16) x v) =
      (if unat j mod 16 = unat i mod 16 then x else get_field 2 (unat j mod 16) v)" for v
    using get_put_same [OF fits assms(3)] get_put_other [OF _ assms(3), of "unat j mod 16" "unat i mod 16"] by auto
  then show ?thesis
    using icfgr_iff [OF assms(1,2)]
    by (auto simp: private_config_def Let_def wr_def write32_def same apart)
qed

section \<open>The operations keep the contract\<close>

lemma private_read:
  assumes "private_ready hw rst cpu g" "is_private i"
  shows "mmio_rd hw tr (sgi_at cpu ''ipriorityr'' (drop_bit 2 i) g) = shadow rst tr (sgi_at cpu ''ipriorityr'' (drop_bit 2 i) g)"
    "mmio_rd hw tr (sgi_at cpu ''igroupr0'' 0 g) = shadow rst tr (sgi_at cpu ''igroupr0'' 0 g)"
    "mmio_rd hw tr (sgi_at cpu ''icfgr0'' 0 g) = shadow rst tr (sgi_at cpu ''icfgr0'' 0 g)"
    "mmio_rd hw tr (sgi_at cpu ''icfgr1'' 0 g) = shadow rst tr (sgi_at cpu ''icfgr1'' 0 g)"
proof -
  have "unat (drop_bit 2 i) < 8" using assms(2) by (auto simp: private_unat unat_drop)
  then have "gicr_sgi_reg b ''ipriorityr'' (drop_bit 2 i) \<in> private_plain b" "gicr_sgi_reg b ''igroupr0'' 0 \<in> private_plain b"
    "gicr_sgi_reg b ''icfgr0'' 0 \<in> private_plain b" "gicr_sgi_reg b ''icfgr1'' 0 \<in> private_plain b" for b
    unfolding private_plain_def by (auto simp: word_less_nat_alt)
  then show "mmio_rd hw tr (sgi_at cpu ''ipriorityr'' (drop_bit 2 i) g) = shadow rst tr (sgi_at cpu ''ipriorityr'' (drop_bit 2 i) g)"
    "mmio_rd hw tr (sgi_at cpu ''igroupr0'' 0 g) = shadow rst tr (sgi_at cpu ''igroupr0'' 0 g)"
    "mmio_rd hw tr (sgi_at cpu ''icfgr0'' 0 g) = shadow rst tr (sgi_at cpu ''icfgr0'' 0 g)"
    "mmio_rd hw tr (sgi_at cpu ''icfgr1'' 0 g) = shadow rst tr (sgi_at cpu ''icfgr1'' 0 g)"
    using assms(1) by (auto simp: private_ready_def plain_def Let_def)
qed

text \<open>
  An operation looks up the redistributor, which reads the processor number, and then runs a body
  that keeps the contract.
\<close>

abbreviation keeps :: "hardware \<Rightarrow> (addr \<Rightarrow> u32) \<Rightarrow> (u32 \<Rightarrow> bool) \<Rightarrow> u32 \<Rightarrow> u32 \<Rightarrow> (irq_config \<Rightarrow> irq_config) \<Rightarrow> int run \<Rightarrow> bool" where
  "keeps hw rst en cpu \<equiv> does (private_ready hw rst cpu) is_private (private_config rst en cpu)"

lemma keeps_lookup:
  assumes "keeps hw rst en cpu i f body" "\<And>g g'. private_ready hw rst cpu g \<Longrightarrow> get_this_gicr hw g = Some (Inr (cpu, g')) \<Longrightarrow> op g = body g'"
  shows "keeps hw rst en cpu i f op"
proof (rule doesI)
  fix g assume r: "private_ready hw rst cpu g"
  obtain x where x: "get_this_gicr hw g = Some (Inr (cpu, g\<lparr>gic_trace := gic_trace g @ [Mrs ''MPIDR_EL1'' x]\<rparr>))" (is "_ = Some (Inr (_, ?g))")
    using this_gicr [OF r] .
  have q: "private_config rst en cpu ?g = private_config rst en cpu g" by (rule private_config_quiet) simp
  obtain g' where "body ?g = Some (Inr (0, g'))" "gicd_ctx g' = gicd_ctx ?g" "private_ready hw rst cpu g'"
    "\<And>j. is_private j \<Longrightarrow> private_config rst en cpu g' j = (if j = i then f (private_config rst en cpu ?g j) else private_config rst en cpu ?g j)"
    using doesE [OF assms(1), of ?g] r by auto
  then show "\<exists>g'. op g = Some (Inr (0, g')) \<and> gicd_ctx g' = gicd_ctx g \<and> private_ready hw rst cpu g' \<and>
      (\<forall>j. is_private j \<longrightarrow> private_config rst en cpu g' j = (if j = i then f (private_config rst en cpu g j) else private_config rst en cpu g j))"
    using assms(2) [OF r x] by (auto simp: q)
qed

lemma keeps_write_back:
  assumes "\<And>g. private_ready hw rst cpu g \<Longrightarrow> op g = ret 0 (wr (a g) (v g) (g\<lparr>gic_trace := gic_trace g @ [Rd32 (a g) (x g)]\<rparr>))"
    "\<And>g j. is_private j \<Longrightarrow> private_config rst en cpu (wr (a g) (v g) g) j =
      (if j = i then f (private_config rst en cpu g j) else private_config rst en cpu g j)"
  shows "keeps hw rst en cpu i f op"
proof (rule doesI)
  fix g assume r: "private_ready hw rst cpu g"
  let ?g = "wr (a g) (v g) (g\<lparr>gic_trace := gic_trace g @ [Rd32 (a g) (x g)]\<rparr>)"
  have "private_config rst en cpu ?g = private_config rst en cpu (wr (a g) (v g) g)"
    by (rule ext) (simp add: private_config_def Let_def wr_def write32_def)
  then show "\<exists>g'. op g = Some (Inr (0, g')) \<and> gicd_ctx g' = gicd_ctx g \<and> private_ready hw rst cpu g' \<and>
      (\<forall>j. is_private j \<longrightarrow> private_config rst en cpu g' j = (if j = i then f (private_config rst en cpu g j) else private_config rst en cpu g j))"
    using r assms(2) by (intro exI [of _ ?g]) (simp add: assms(1) ret_def wr_def)
qed

lemma put_priority_keeps:
  assumes "is_private i"
  shows "keeps hw rst en cpu i (\<lambda>c. c\<lparr>cf_priority := ucast p\<rparr>) (put_priority hw p cpu i)"
proof (rule keeps_write_back)
  let ?a = "\<lambda>g. sgi_at cpu ''ipriorityr'' (drop_bit 2 i) g"
  have "take_bit 8 (ucast p :: u32) = ucast p" by (rule bit_word_eqI) (auto simp: bit_simps dest: bit_imp_le_length)
  then show "private_config rst en cpu (wr (?a g) (put_field 8 (unat i mod 4) (ucast p) (shadow rst (gic_trace g) (?a g))) g) j =
      (if j = i then (private_config rst en cpu g j)\<lparr>cf_priority := ucast p\<rparr> else private_config rst en cpu g j)" if "is_private j" for g j
    using private_priority [OF assms that] by simp
  show "put_priority hw p cpu i g = ret 0 (wr (?a g) (put_field 8 (unat i mod 4) (ucast p) (shadow rst (gic_trace g) (?a g)))
      (g\<lparr>gic_trace := gic_trace g @ [Rd32 (?a g) (shadow rst (gic_trace g) (?a g))]\<rparr>))" if "private_ready hw rst cpu g" for g
    using private_read(1) [OF that assms]
    by (simp add: put_priority_def slot_simps Let_def rd_def read32_def put_field_def two_bits(2))
qed

lemma put_group_keeps:
  assumes "is_private i"
  shows "keeps hw rst en cpu i (private_grouped b) (put_group hw (of_bool b) cpu i)"
proof (rule keeps_write_back)
  let ?a = "\<lambda>g. sgi_at cpu ''igroupr0'' 0 g"
  let ?v = "\<lambda>g. let v = shadow rst (gic_trace g) (?a g) in if b then v OR push_bit (unat i) 1 else v AND NOT (push_bit (unat i) 1)"
  show "private_config rst en cpu (wr (?a g) (?v g) g) j =
      (if j = i then private_grouped b (private_config rst en cpu g j) else private_config rst en cpu g j)" if "is_private j" for g j
    using private_group [OF assms that] by (simp add: private_grouped_def del: push_bit_of_1)
  show "put_group hw (of_bool b) cpu i g = ret 0 (wr (?a g) (?v g)
      (g\<lparr>gic_trace := gic_trace g @ [Rd32 (?a g) (shadow rst (gic_trace g) (?a g))]\<rparr>))" if "private_ready hw rst cpu g" for g
    using private_read(2) [OF that assms] private_index [OF assms]
    by (simp add: put_group_def slot_simps Let_def rd_def read32_def del: push_bit_of_1)
qed

text \<open>The bodies that turn a line on and off, and that set the trigger.\<close>

definition line_body :: "hardware \<Rightarrow> bool \<Rightarrow> u32 \<Rightarrow> u32 \<Rightarrow> int run" where
  "line_body hw on c i g =
     (if on then ret 0 (wr (sgi_at c ''isenabler0'' 0 g) (push_bit (unat i) 1) g)
      else andthen (gicr_wait_rwp hw (wr (sgi_at c ''icenabler0'' 0 g) (push_bit (unat i) 1) g)) (\<lambda>(_, g). ret 0 g))"

definition trigger_body :: "hardware \<Rightarrow> bool \<Rightarrow> u32 \<Rightarrow> u32 \<Rightarrow> int run" where
  "trigger_body hw e c i g =
     (let a = sgi_at c (icfgr_of i) 0 g; (v, g) = rd hw a g
      in ret 0 (wr a (put_field 2 (unat i mod 16) (private_trigger e) v) g))"

lemma line_body_keeps:
  assumes "is_private i"
  shows "keeps hw rst en cpu i (\<lambda>c. c\<lparr>cf_enabled := on\<rparr>) (line_body hw on cpu i)"
proof (cases on)
  case True
  show ?thesis
  proof (rule doesI)
    fix g assume "private_ready hw rst cpu g"
    then show "\<exists>g'. line_body hw on cpu i g = Some (Inr (0, g')) \<and> gicd_ctx g' = gicd_ctx g \<and> private_ready hw rst cpu g' \<and>
        (\<forall>j. is_private j \<longrightarrow> private_config rst en cpu g' j =
          (if j = i then (private_config rst en cpu g j)\<lparr>cf_enabled := on\<rparr> else private_config rst en cpu g j))"
      using private_enable(1) [OF assms] True by (simp add: line_body_def ret_def wr_def)
  qed
next
  case False
  show ?thesis
  proof (rule doesI)
    fix g assume r: "private_ready hw rst cpu g"
    let ?g = "wr (sgi_at cpu ''icenabler0'' 0 g) (push_bit (unat i) 1) g"
    obtain g' where g': "gicr_wait_rwp hw ?g = Some (Inr ((), g'))" "gicd_ctx g' = gicd_ctx ?g" "private_ready hw rst cpu g'"
      "private_config rst en cpu g' = private_config rst en cpu ?g"
      using private_wait [of hw rst cpu ?g] r by auto
    then have "line_body hw on cpu i g = Some (Inr (0, g'))"
      using False by (simp add: line_body_def ret_def del: push_bit_of_1)
    then show "\<exists>g'. line_body hw on cpu i g = Some (Inr (0, g')) \<and> gicd_ctx g' = gicd_ctx g \<and> private_ready hw rst cpu g' \<and>
        (\<forall>j. is_private j \<longrightarrow> private_config rst en cpu g' j =
          (if j = i then (private_config rst en cpu g j)\<lparr>cf_enabled := on\<rparr> else private_config rst en cpu g j))"
      using g' private_enable(2) [OF assms] False by (simp add: wr_def)
  qed
qed

lemma trigger_body_keeps:
  assumes "is_private i"
  shows "keeps hw rst en cpu i (\<lambda>c. c\<lparr>cf_trigger := private_trigger e\<rparr>) (trigger_body hw e cpu i)"
proof (rule keeps_write_back)
  let ?a = "\<lambda>g. sgi_at cpu (icfgr_of i) 0 g"
  have "take_bit 2 (private_trigger e) = private_trigger e" by (simp add: private_trigger_def)
  then show "private_config rst en cpu (wr (?a g) (put_field 2 (unat i mod 16) (private_trigger e) (shadow rst (gic_trace g) (?a g))) g) j =
      (if j = i then (private_config rst en cpu g j)\<lparr>cf_trigger := private_trigger e\<rparr> else private_config rst en cpu g j)"
    if "is_private j" for g j using private_trigger_write [OF assms that] by simp
  show "trigger_body hw e cpu i g = ret 0 (wr (?a g) (put_field 2 (unat i mod 16) (private_trigger e) (shadow rst (gic_trace g) (?a g)))
      (g\<lparr>gic_trace := gic_trace g @ [Rd32 (?a g) (shadow rst (gic_trace g) (?a g))]\<rparr>))" if "private_ready hw rst cpu g" for g
    using private_read(3,4) [OF that assms] by (simp add: trigger_body_def Let_def rd_def read32_def icfgr_of_def)
qed

text \<open>The guards let a valid number through to these bodies.\<close>

lemma gicr_guard_passes:
  assumes "\<not> bad (ucast (intid x))" "get_this_gicr hw g = Some (Inr (cpu, g'))"
  shows "gicr_guard hw bad (Some x) body g = body cpu (ucast (intid x)) g'"
  using assms by (simp add: gicr_guard_def deref_def)

lemma ppi_number:
  assumes "valid_ppi i"
  shows "drop_bit 4 (i - 16) = 0" "unat (push_bit 1 ((i - 16) AND 0xF)) = 2 * (unat i mod 16)" "icfgr_of i = ''icfgr1''"
proof -
  have u: "unat (i - 16) = unat i - 16" using assms by (simp add: valid_ppi_unat unat_sub word_le_nat_alt)
  show "drop_bit 4 (i - 16) = 0" using assms by (auto simp: word_unat_eq_iff unat_drop u valid_ppi_unat)
  have "(unat i - 16) mod 16 = unat i mod 16" using assms by (simp add: valid_ppi_unat mod_if)
  then show "unat (push_bit 1 ((i - 16) AND 0xF)) = 2 * (unat i mod 16)" by (simp only: slot_two u)
  show "icfgr_of i = ''icfgr1''" using assms by (simp add: icfgr_of_def valid_ppi_unat word_less_nat_alt)
qed

lemma sgi_number:
  assumes "valid_sgi i"
  shows "drop_bit 4 i = 0" "icfgr_of i = ''icfgr0''"
  using assms by (auto simp: icfgr_of_def valid_sgi_unat word_less_nat_alt word_unat_eq_iff unat_drop)

lemma ppi_line:
  assumes "valid_ppi (ucast (intid x))"
  shows "keeps hw rst en cpu (ucast (intid x)) (\<lambda>c. c\<lparr>cf_enabled := on\<rparr>) (gicr_set_clear_ppi hw (Some x) on)"
proof (rule keeps_lookup [OF line_body_keeps [OF valid_private(1) [OF assms]]])
  fix g g' assume "get_this_gicr hw g = Some (Inr (cpu, g'))"
  then show "gicr_set_clear_ppi hw (Some x) on g = line_body hw on cpu (ucast (intid x)) g'"
    using assms private_index [OF valid_private(1) [OF assms]]
    by (simp add: gicr_set_clear_ppi_def gicr_guard_passes valid_ppi_def line_body_def slot_simps Let_def del: push_bit_of_1)
qed

lemma ppi_trigger:
  assumes "valid_ppi (ucast (intid x))"
  shows "keeps hw rst en cpu (ucast (intid x)) (\<lambda>c. c\<lparr>cf_trigger := private_trigger e\<rparr>) (gicr_ppi_set_trigger hw (Some x) e)"
proof (rule keeps_lookup [OF trigger_body_keeps [OF valid_private(1) [OF assms]]])
  fix g g' assume "get_this_gicr hw g = Some (Inr (cpu, g'))"
  then have "gicr_ppi_set_trigger hw (Some x) e g =
      (\<lambda>c i g. let i = i - PPI_FIRST_INTID;
         reg_offset = drop_bit 4 i; bit_offset = unat (push_bit 1 (i AND 0xF));
         a = sgi_at c ''icfgr1'' 0 g + ucast reg_offset;
         (icfgr_value, g) = rd hw a g;
         icfgr_value = icfgr_value AND NOT (push_bit bit_offset 3);
         icfgr_value = icfgr_value OR push_bit bit_offset (if e then 1 else 0)
       in ret 0 (wr a icfgr_value g)) cpu (ucast (intid x)) g'"
    unfolding gicr_ppi_set_trigger_def using assms by (intro gicr_guard_passes) (simp_all add: valid_ppi_def)
  then show "gicr_ppi_set_trigger hw (Some x) e g = trigger_body hw e cpu (ucast (intid x)) g'"
    by (simp only: PPI_FIRST_INTID_def Let_def ppi_number [OF assms] unsigned_0 add_0_right trigger_body_def
        put_field_def two_bits private_trigger_def split: prod.split)
qed

lemma sgi_line:
  assumes "valid_sgi (ucast (intid x))"
  shows "keeps hw rst en cpu (ucast (intid x)) (\<lambda>c. c\<lparr>cf_enabled := on\<rparr>) (gicr_set_clear_sgi hw (ucast (intid x)) on)"
proof (rule keeps_lookup [OF line_body_keeps [OF valid_private(2) [OF assms]]])
  fix g g' assume "get_this_gicr hw g = Some (Inr (cpu, g'))"
  then show "gicr_set_clear_sgi hw (ucast (intid x)) on g = line_body hw on cpu (ucast (intid x)) g'"
    using assms private_index [OF valid_private(2) [OF assms]]
    by (simp add: gicr_set_clear_sgi_def valid_sgi_def line_body_def slot_simps Let_def del: push_bit_of_1)
qed

lemma sgi_trigger:
  assumes "valid_sgi (ucast (intid x))"
  shows "keeps hw rst en cpu (ucast (intid x)) (\<lambda>c. c\<lparr>cf_trigger := private_trigger e\<rparr>) (gicr_sgi_set_trigger hw (Some x) e)"
proof (rule keeps_lookup [OF trigger_body_keeps [OF valid_private(2) [OF assms]]])
  fix g g' assume "get_this_gicr hw g = Some (Inr (cpu, g'))"
  then have "gicr_sgi_set_trigger hw (Some x) e g =
      (\<lambda>c (i :: u32) g. let reg_offset = drop_bit 4 i; bit_offset = unat (push_bit 1 (i AND 0xF));
         a = sgi_at c ''icfgr0'' 0 g + ucast reg_offset;
         (icfgr_value, g) = rd hw a g;
         icfgr_value = icfgr_value AND NOT (push_bit bit_offset 3);
         icfgr_value = icfgr_value OR push_bit bit_offset (if e then 1 else 0)
       in ret 0 (wr a icfgr_value g)) cpu (ucast (intid x)) g'"
    unfolding gicr_sgi_set_trigger_def using assms by (intro gicr_guard_passes) (simp_all add: valid_sgi_def)
  then show "gicr_sgi_set_trigger hw (Some x) e g = trigger_body hw e cpu (ucast (intid x)) g'"
    by (simp only: Let_def slot_two sgi_number [OF assms] unsigned_0 add_0_right trigger_body_def
        put_field_def two_bits private_trigger_def split: prod.split)
qed

lemma ppi_priority_group:
  assumes "valid_ppi (ucast (intid x))"
  shows "keeps hw rst en cpu (ucast (intid x)) (\<lambda>c. c\<lparr>cf_priority := ucast p\<rparr>) (gicr_ppi_set_priority hw (Some x) p)"
    "keeps hw rst en cpu (ucast (intid x)) (private_grouped b) (gicr_ppi_set_group hw (Some x) (of_bool b))"
  using assms valid_private(1) [OF assms]
  by (auto intro!: keeps_lookup [OF put_priority_keeps] keeps_lookup [OF put_group_keeps]
      simp: gicr_ppi_set_priority_def gicr_ppi_set_group_def gicr_guard_passes valid_ppi_def)

lemma sgi_priority_group:
  assumes "valid_sgi (ucast (intid x))"
  shows "keeps hw rst en cpu (ucast (intid x)) (\<lambda>c. c\<lparr>cf_priority := ucast p\<rparr>) (gicr_sgi_set_priority hw (Some x) p)"
    "keeps hw rst en cpu (ucast (intid x)) (private_grouped b) (gicr_sgi_set_group hw (Some x) (of_bool b))"
  using assms valid_private(2) [OF assms]
  by (auto intro!: keeps_lookup [OF put_priority_keeps] keeps_lookup [OF put_group_keeps]
      simp: gicr_sgi_set_priority_def gicr_sgi_set_group_def gicr_guard_passes deref_def valid_sgi_def)

interpretation ppi: irq_operations hw Ppi_ops valid_ppi is_private "private_ready hw rst cpu" "private_config rst en cpu"
    private_grouped private_trigger
  for hw rst en cpu
  by unfold_locales
    (simp_all add: g_ppi_intr_ops_def gicr_clear_ppi_def gicr_set_ppi_def ppi_line ppi_trigger ppi_priority_group)

interpretation sgi: irq_operations hw Sgi_ops valid_sgi is_private "private_ready hw rst cpu" "private_config rst en cpu"
    private_grouped private_trigger
  for hw rst en cpu
proof (unfold_locales, goal_cases)
  case (1 x) then show ?case using sgi_line [OF 1, where on = False] by (simp add: g_sgi_intr_ops_def gicr_clear_sgi_def with_ctx_def valid_sgi_def)
next
  case (5 x) then show ?case using sgi_line [OF 5, where on = True] by (simp add: g_sgi_intr_ops_def gicr_set_sgi_def with_ctx_def valid_sgi_def)
qed (simp_all add: g_sgi_intr_ops_def sgi_trigger sgi_priority_group)

section \<open>Properties\<close>

text \<open>
  C30. \<open>gic_irq_enable\<close> on the context of a private or software generated interrupt returns 0, programs
  the redistributor of the processor it runs on, and leaves that interrupt enabled with the
  priority and group of its context and the other thirty-one interrupts as they were. An
  edge-triggered context writes the code 1 where the distributor uses 2.
\<close>

theorem private_irq_enable_configures:
  assumes "private_ready hw rst cpu g"
    "ops (irq_ctx r g) = Some Ppi_ops \<and> valid_ppi (ucast (intid (irq_ctx r g))) \<or>
     ops (irq_ctx r g) = Some Sgi_ops \<and> valid_sgi (ucast (intid (irq_ctx r g)))"
  shows "\<exists>g'. gic_irq_enable hw (Some r) g = Some (Inr (0, g')) \<and> gicd_ctx g' = gicd_ctx g \<and>
    (\<forall>j < 32. private_config rst en cpu g' j =
      (if j = ucast (intid (irq_ctx r g))
       then (let x = irq_ctx r g; c = private_config rst en cpu g j in
         \<lparr>cf_enabled = True, cf_priority = ucast (priority x), cf_trigger = (if trigger x then 1 else 0),
          cf_group = group x, cf_mod = cf_mod c\<rparr>)
       else private_config rst en cpu g j))"
  using assms(2)
proof (elim disjE conjE)
  assume "ops (irq_ctx r g) = Some Ppi_ops" "valid_ppi (ucast (intid (irq_ctx r g)))"
  from ppi.enable_configures [OF assms(1) this, of en] show ?thesis
    by (auto simp: ppi.configured_def private_grouped_def private_trigger_def is_private_def Let_def)
next
  assume "ops (irq_ctx r g) = Some Sgi_ops" "valid_sgi (ucast (intid (irq_ctx r g)))"
  from sgi.enable_configures [OF assms(1) this, of en] show ?thesis
    by (auto simp: sgi.configured_def private_grouped_def private_trigger_def is_private_def Let_def)
qed

definition demo_ppi :: gic where
  "demo_ppi = set_irq_ctx (Ppi_ref 0 10) (\<lambda>_. zero_ctx\<lparr>intid := 26, group := True, trigger := True, priority := 0x80, ops := Some Ppi_ops\<rparr>)
     (upd_gicr 0 (\<lambda>r. r\<lparr>gicr_regs := GICR_BASE, gicr_sgi_regs := GICR_BASE + 0x10000\<rparr>) zero_gic)"

lemma gicr_frames_apart:
  "gicr_reg GICR_BASE ''ctlr'' \<notin> private_plain (GICR_BASE + 0x10000)"
proof -
  have ne: "gicr_reg GICR_BASE ''ctlr'' \<noteq> gicr_sgi_reg (GICR_BASE + 0x10000) f k"
    if "0 \<le> offset_in gicv3_redistributor_sgi_regs f" "offset_in gicv3_redistributor_sgi_regs f < 65536" "k < 8" for f k
  proof -
    let ?x = "0x10000 + offset_in gicv3_redistributor_sgi_regs f + 4 * uint k"
    have "uint k < 8" using that(3) by (simp add: word_less_def)
    then have "0 < ?x \<and> ?x < 18446744073709551616" using that uint_ge_0 [of k] by linarith
    then have "uint (of_int ?x :: addr) = ?x" by (simp only: uint_word_of_int) simp
    then have "(of_int ?x :: addr) \<noteq> 0" using \<open>0 < ?x \<and> _\<close> by (metis less_irrefl unsigned_0)
    moreover have "gicr_sgi_reg (GICR_BASE + 0x10000) f k = GICR_BASE + of_int ?x" by (simp add: gicr_sgi_reg_def)
    ultimately show ?thesis by (simp add: gicr_reg_def gicr_offsets(2) [simplified])
  qed
  then show ?thesis unfolding private_plain_def by (auto simp: ne)
qed

lemma demo_ppi_ready: "private_ready (mem_hw (gicr_reg GICR_BASE ''ctlr'')) (\<lambda>_. 0) 0 demo_ppi"
proof -
  have "gicr_regs (gicr_of 0 demo_ppi) = GICR_BASE" "gicr_sgi_regs (gicr_of 0 demo_ppi) = GICR_BASE + 0x10000"
    by (simp_all add: demo_ppi_def upd_gicr_def upd_gicd_def)
  moreover have "\<not> gicr_rwp_set 0" by (simp add: gicr_rwp_set_def)
  moreover have "GICR_BASE \<noteq> NULL" by (simp add: GICR_BASE_def)
  ultimately show ?thesis
    using gicr_frames_apart by (simp add: private_ready_def mem_hw_settles mem_hw_plain) (simp add: mem_hw_def)
qed

theorem private_irq_enable_configures_witness:
  "\<exists>g'. gic_irq_enable (mem_hw (gicr_reg GICR_BASE ''ctlr'')) (Some (Ppi_ref 0 10)) demo_ppi = Some (Inr (0, g')) \<and>
    private_config (\<lambda>_. 0) (\<lambda>_. False) 0 g' 26 = \<lparr>cf_enabled = True, cf_priority = 0x80, cf_trigger = 1, cf_group = True, cf_mod = False\<rparr> \<and>
    \<not> cf_enabled (private_config (\<lambda>_. 0) (\<lambda>_. False) 0 g' 27)"
proof -
  let ?x = "irq_ctx (Ppi_ref 0 10) demo_ppi" and ?cfg = "private_config (\<lambda>_. 0) (\<lambda>_. False) 0"
  have x: "?x = zero_ctx\<lparr>intid := 26, group := True, trigger := True, priority := 0x80, ops := Some Ppi_ops\<rparr>"
    and tr: "gic_trace demo_ppi = []" by (simp_all add: demo_ppi_def upd_gicr_def upd_gicd_def zero_gic_def)
  have i: "ucast (intid ?x) = (26 :: u32)" unfolding x by simp
  have "valid_ppi 26" by (simp add: valid_ppi_unat)
  then obtain g' where "gic_irq_enable (mem_hw (gicr_reg GICR_BASE ''ctlr'')) (Some (Ppi_ref 0 10)) demo_ppi = Some (Inr (0, g'))"
    "\<And>j. j < 32 \<Longrightarrow> ?cfg g' j = (if j = 26 then \<lparr>cf_enabled = True, cf_priority = ucast (priority ?x),
        cf_trigger = (if trigger ?x then 1 else 0), cf_group = group ?x, cf_mod = cf_mod (?cfg demo_ppi j)\<rparr> else ?cfg demo_ppi j)"
    using private_irq_enable_configures [OF demo_ppi_ready, of "Ppi_ref 0 10" "\<lambda>_. False"] x i by (auto simp: Let_def)
  moreover have "\<not> cf_mod (?cfg demo_ppi 26)" "\<not> cf_enabled (?cfg demo_ppi 27)"
    by (simp_all add: private_config_def tr shadow_def)
  ultimately show ?thesis by (intro exI [of _ g']) (simp add: x [simplified] zero_ctx_def)
qed

end
