(* ===== verification/Gic_Init.thy ===== *)
theory Gic_Init
  imports Gic_Private
begin

text \<open>
  Initialisation of the interrupt controller: \<open>gicd_init\<close> leaves every implemented shared interrupt
  disabled, \<open>gicr_init\<close> wakes the redistributor and leaves its interrupts disabled, and
  \<open>plat_gicv3_init\<close> runs the first once for all processors and then opens the processor interface.
\<close>

section \<open>The distributor\<close>

lemma gicd_wait_quiet:
  assumes "settles hw (gicd_reg GICD_BASE ''statusr'' 0) rwp_set" "gicd_regs (gicd_ctx g) = GICD_BASE"
  obtains tr where "\<forall>e \<in> set tr. quiet e" "gicd_wait_rwp hw g = Some (Inr ((), g\<lparr>gic_trace := gic_trace g @ tr\<rparr>))"
proof -
  let ?a = "gicd_reg GICD_BASE ''statusr'' 0"
  obtain vs where "wait_while hw ?a rwp_set (gisb g) = ret () ((gisb g)\<lparr>gic_trace := gic_trace (gisb g) @ map (Rd32 ?a) vs\<rparr>)"
    using wait_while_ends [OF assms(1)] by metis
  moreover have "\<not> no_gicd g" by (simp add: no_gicd_def assms(2) GICD_BASE_def)
  ultimately have "gicd_wait_rwp hw g = Some (Inr ((), g\<lparr>gic_trace := gic_trace g @ Barrier ''isb'' # map (Rd32 ?a) vs\<rparr>))"
    by (simp add: gicd_wait_rwp_def assms(2) gisb_def isb_def ret_def)
  then show ?thesis using that [of "Barrier ''isb'' # map (Rd32 ?a) vs"] by auto
qed

text \<open>Whether the line of a shared interrupt is on.\<close>

definition spi_line :: "(u32 \<Rightarrow> bool) \<Rightarrow> trace \<Rightarrow> u32 \<Rightarrow> bool" where
  "spi_line en tr j = line_on (gicd_reg GICD_BASE ''isenabler'' (drop_bit 5 j))
     (gicd_reg GICD_BASE ''icenabler'' (drop_bit 5 j)) (unat j mod 32) (en j) tr"

lemma spi_line_config: "gicd_regs (gicd_ctx g) = GICD_BASE \<Longrightarrow> cf_enabled (spi_config rst en g j) = spi_line en (gic_trace g) j"
  by (simp add: spi_config_def spi_line_def Let_def)

lemma spi_line_quiet: "\<forall>e \<in> set tr'. quiet e \<Longrightarrow> spi_line en (tr @ tr') j = spi_line en tr j"
  by (simp add: spi_line_def line_on_quiet)

lemma spi_line_reset:
  assumes "i < 31" "unat j < 1024"
  shows "spi_line en (tr @ [Wr32 (gicd_reg GICD_BASE ''icpendr'' (of_nat i + 1)) 0xFFFFFFFF,
      Wr32 (gicd_reg GICD_BASE ''icactiver'' (of_nat i + 1)) 0xFFFFFFFF,
      Wr32 (gicd_reg GICD_BASE ''icenabler'' (of_nat i + 1)) 0xFFFFFFFF]) j =
    (unat j div 32 \<noteq> Suc i \<and> spi_line en tr j)"
proof -
  have "unat (of_nat (Suc i) :: u32) = Suc i" using assms(1) by (intro unat_of_nat32) simp
  then have k: "uint (of_nat i + 1 :: u32) = int (Suc i)" by (metis of_nat_Suc add.commute of_nat_unat)
  have d: "uint (drop_bit 5 j) = int (unat j div 32)"
  proof -
    have "unat (drop_bit 5 j) = unat j div 32" using unat_drop [of 5 j] by simp
    then show ?thesis by (metis of_nat_unat)
  qed
  have b: "int (unat j div 32) < 32" using assms(2) by auto
  have "(0xFFFFFFFF :: u32) = - 1" by simp
  then have ones: "bit (0xFFFFFFFF :: u32) (unat j mod 32)" by (simp only:) simp
  show ?thesis
    using assms(1) b ones by (auto simp: spi_line_def gicd_reg_eq k d)
qed

section \<open>Loop\<close>

lemma reset_line_ok:
  assumes "settles hw (gicd_reg GICD_BASE ''statusr'' 0) rwp_set" "gicd_regs (gicd_ctx g) = GICD_BASE" "i < 31"
  obtains g' where "reset_line hw i g = Some (Inr g')" "gicd_ctx g' = gicd_ctx g" "gicd_init_once g' = gicd_init_once g"
    "\<And>en j. unat j < 1024 \<Longrightarrow> spi_line en (gic_trace g') j \<longleftrightarrow> unat j div 32 \<noteq> Suc i \<and> spi_line en (gic_trace g) j"
proof -
  let ?w = "[Wr32 (gicd_reg GICD_BASE ''icpendr'' (of_nat i + 1)) 0xFFFFFFFF,
      Wr32 (gicd_reg GICD_BASE ''icactiver'' (of_nat i + 1)) 0xFFFFFFFF,
      Wr32 (gicd_reg GICD_BASE ''icenabler'' (of_nat i + 1)) 0xFFFFFFFF]"
  let ?g = "g\<lparr>gic_trace := gic_trace g @ ?w\<rparr>"
  obtain tr where tr: "\<forall>e \<in> set tr. quiet e" "gicd_wait_rwp hw ?g = Some (Inr ((), ?g\<lparr>gic_trace := gic_trace ?g @ tr\<rparr>))"
    using gicd_wait_quiet [OF assms(1), of ?g] assms(2) by auto
  then have r: "reset_line hw i g = Some (Inr (?g\<lparr>gic_trace := (gic_trace g @ ?w) @ tr\<rparr>))"
    by (simp add: reset_line_def wr_def write32_def Let_def)
  have "spi_line en ((gic_trace g @ ?w) @ tr) j \<longleftrightarrow> unat j div 32 \<noteq> Suc i \<and> spi_line en (gic_trace g) j"
    if "unat j < 1024" for en j by (simp only: spi_line_quiet [OF tr(1)] spi_line_reset [OF assms(3) that])
  then show ?thesis by (intro that [OF r]) (simp_all del: append_assoc)
qed

lemma reset_lines_ok:
  assumes "settles hw (gicd_reg GICD_BASE ''statusr'' 0) rwp_set" "gicd_regs (gicd_ctx g) = GICD_BASE" "n \<le> 31"
  obtains g' where "for_each (reset_line hw) [0..<n] g = Some (Inr g')" "gicd_ctx g' = gicd_ctx g" "gicd_init_once g' = gicd_init_once g"
    "\<And>en j. 32 \<le> unat j \<Longrightarrow> unat j < 32 * Suc n \<Longrightarrow> \<not> spi_line en (gic_trace g') j"
proof -
  define I where "I k s \<longleftrightarrow> gicd_ctx s = gicd_ctx g \<and> gicd_init_once s = gicd_init_once g \<and>
    (\<forall>en j. 32 \<le> unat j \<and> unat j < 32 * Suc k \<longrightarrow> \<not> spi_line en (gic_trace s) j)" for k and s :: gic
  have "\<exists>s'. for_each (reset_line hw) [0..<n] g = Some (Inr s') \<and> I n s'"
  proof (rule for_each_upt_inv)
    show "I 0 g" by (auto simp: I_def)
    fix i s assume i: "i < n" and s: "I i s"
    obtain s' where s': "reset_line hw i s = Some (Inr s')" "gicd_ctx s' = gicd_ctx s" "gicd_init_once s' = gicd_init_once s"
      "\<And>en j. unat j < 1024 \<Longrightarrow> spi_line en (gic_trace s') j \<longleftrightarrow> unat j div 32 \<noteq> Suc i \<and> spi_line en (gic_trace s) j"
      using reset_line_ok [OF assms(1), of s i] i assms(2,3) s by (auto simp: I_def)
    have "\<not> spi_line en (gic_trace s') j" if j: "32 \<le> unat j" "unat j < 32 * Suc (Suc i)" for en j
    proof (cases "unat j < 32 * Suc i")
      case True
      then show ?thesis using s s'(4) i assms(3) j by (auto simp: I_def)
    next
      case False
      then have "unat j div 32 = Suc i" using j by simp
      then show ?thesis using s'(4) [of j en] j i assms(3) by simp
    qed
    then have "I (Suc i) s'" using s s'(2,3) by (simp add: I_def)
    then show "\<exists>s'. reset_line hw i s = Some (Inr s') \<and> I (Suc i) s'" using s'(1) by blast
  qed
  then show ?thesis using that unfolding I_def by blast
qed

lemma spi_count_lines: "unat (ucast (((ucast (l :: 5 word) :: u32) + 1) * 32 - SPI_FIRST_INTID) :: 10 word) = 32 * unat l"
proof -
  have l: "unat l < 32" using unsigned_less [of l] by simp
  have "((ucast l :: u32) + 1) * 32 - SPI_FIRST_INTID = of_nat (32 * unat l)"
    by (simp add: SPI_FIRST_INTID_def algebra_simps)
  moreover have "unat (ucast (of_nat (32 * unat l) :: u32) :: 10 word) = 32 * unat l"
  proof -
    have "unat (of_nat (32 * unat l) :: u32) = 32 * unat l" using l by (intro unat_of_nat32) simp
    then show ?thesis using l by (simp only: unsigned_ucast_eq take_bit_eq_mod) simp
  qed
  ultimately show ?thesis by (simp only:)
qed

lemma typer_lines: "unat (ucast (v AND 0x1F :: u32) :: 5 word) = unat v mod 32"
proof -
  have "unat (v AND 0x1F) = unat v mod 32" by (rule slot_bit)
  then show ?thesis by (simp add: unsigned_ucast_eq take_bit_eq_mod)
qed

text \<open>The part of \<open>gicd_init\<close> before the first wait, and the result of the whole.\<close>

lemma gicd_init_prefix:
  fixes hw g
  defines "v \<equiv> mmio_rd hw (gic_trace g) (gicd_reg GICD_BASE ''typer'' 0)"
  obtains g1 where "gicd_regs (gicd_ctx g1) = GICD_BASE" "itlinesnumber (gicd_ctx g1) = ucast (v AND 0x1F)"
    "unat (spi_count (gicd_ctx g1)) = 32 * (unat v mod 32)" "gicd_init_once g1 = gicd_init_once g"
    "gicr_ctxs (gicd_ctx g1) = gicr_ctxs (gicd_ctx g)"
    "gicd_init hw g = andthen (gicd_wait_rwp hw g1) (\<lambda>(_, g).
        let (ctrl, g) = rd hw (gicd_reg GICD_BASE ''ctlr'' 0) g;
            g = upd_gicd (read_ctlr ctrl) g
        in andthen (for_each (reset_line hw) [0..<unat (itlinesnumber (gicd_ctx g))] g) (\<lambda>g. ret 0 (gisb g)))"
proof (rule that)
  show "gicd_init hw g = andthen (gicd_wait_rwp hw
      (let g = upd_gicd (\<lambda>d. d\<lparr>gicd_regs := GICD_BASE\<rparr>) g;
          (typer, g) = rd hw (gicd_reg GICD_BASE ''typer'' 0) g;
          g = upd_gicd (read_typer typer) g;
          (iidr, g) = rd hw (gicd_reg GICD_BASE ''iidr'' 0) g;
          g = upd_gicd (read_iidr iidr) g;
          g = upd_gicd (\<lambda>d. d\<lparr>enable_grp0 := False, enable_grp1 := True, are := False, e1nwf := False\<rparr>) g;
          d = gicd_ctx g;
          ctrl = push_bit 0 (of_bool (enable_grp0 d)) OR push_bit 1 (of_bool (enable_grp1 d))
                 OR push_bit 4 (of_bool (are d))
       in wr (gicd_reg GICD_BASE ''ctlr'' 0) ctrl g)) (\<lambda>(_, g).
        let (ctrl, g) = rd hw (gicd_reg GICD_BASE ''ctlr'' 0) g;
            g = upd_gicd (read_ctlr ctrl) g
        in andthen (for_each (reset_line hw) [0..<unat (itlinesnumber (gicd_ctx g))] g) (\<lambda>g. ret 0 (gisb g)))"
    by (simp add: gicd_init_def Let_def split: prod.split)
qed (simp_all add: Let_def rd_def read32_def upd_gicd_def wr_def read_typer_def read_iidr_def v_def typer_lines
    spi_count_lines [simplified])

lemma gicd_init_ok:
  assumes "settles hw (gicd_reg GICD_BASE ''statusr'' 0) rwp_set"
    "n = unat (mmio_rd hw (gic_trace g) (gicd_reg GICD_BASE ''typer'' 0)) mod 32"
  obtains g' where "gicd_init hw g = Some (Inr (0, g'))" "gicd_regs (gicd_ctx g') = GICD_BASE" "gicd_init_once g' = gicd_init_once g"
    "gicr_ctxs (gicd_ctx g') = gicr_ctxs (gicd_ctx g)" "unat (spi_count (gicd_ctx g')) = 32 * n"
    "\<And>en j. 32 \<le> unat j \<Longrightarrow> unat j < 32 * Suc n \<Longrightarrow> \<not> spi_line en (gic_trace g') j"
proof -
  let ?v = "mmio_rd hw (gic_trace g) (gicd_reg GICD_BASE ''typer'' 0)"
  obtain g1 where g1: "gicd_regs (gicd_ctx g1) = GICD_BASE" "itlinesnumber (gicd_ctx g1) = ucast (?v AND 0x1F)"
    "unat (spi_count (gicd_ctx g1)) = 32 * (unat ?v mod 32)" "gicd_init_once g1 = gicd_init_once g"
    "gicr_ctxs (gicd_ctx g1) = gicr_ctxs (gicd_ctx g)"
    and init: "gicd_init hw g = andthen (gicd_wait_rwp hw g1) (\<lambda>(_, g).
        let (ctrl, g) = rd hw (gicd_reg GICD_BASE ''ctlr'' 0) g;
            g = upd_gicd (read_ctlr ctrl) g
        in andthen (for_each (reset_line hw) [0..<unat (itlinesnumber (gicd_ctx g))] g) (\<lambda>g. ret 0 (gisb g)))"
    by (rule gicd_init_prefix [of hw g])
  obtain tr where tr: "gicd_wait_rwp hw g1 = Some (Inr ((), g1\<lparr>gic_trace := gic_trace g1 @ tr\<rparr>))"
    using gicd_wait_quiet [OF assms(1) g1(1)] by blast
  let ?r = "rd hw (gicd_reg GICD_BASE ''ctlr'' 0) (g1\<lparr>gic_trace := gic_trace g1 @ tr\<rparr>)"
  define g2 where "g2 = upd_gicd (read_ctlr (fst ?r)) (snd ?r)"
  have g2: "gicd_regs (gicd_ctx g2) = GICD_BASE" "unat (itlinesnumber (gicd_ctx g2)) = n"
    "unat (spi_count (gicd_ctx g2)) = 32 * n" "gicd_init_once g2 = gicd_init_once g"
    "gicr_ctxs (gicd_ctx g2) = gicr_ctxs (gicd_ctx g)"
    using g1 assms(2) by (simp_all add: g2_def upd_gicd_def read_ctlr_def rd_def read32_def typer_lines)
  have "n \<le> 31" using assms(2) by simp
  then obtain g3 where g3: "for_each (reset_line hw) [0..<n] g2 = Some (Inr g3)" "gicd_ctx g3 = gicd_ctx g2"
    "gicd_init_once g3 = gicd_init_once g2"
    "\<And>en j. 32 \<le> unat j \<Longrightarrow> unat j < 32 * Suc n \<Longrightarrow> \<not> spi_line en (gic_trace g3) j"
    using reset_lines_ok [OF assms(1) g2(1)] by blast
  have "gicd_init hw g = Some (Inr (0, gisb g3))"
    using g3(1) g2(2) by (simp add: init tr g2_def ret_def case_prod_beta Let_def)
  then show ?thesis
  proof (rule that)
    show "\<not> spi_line en (gic_trace (gisb g3)) j" if "32 \<le> unat j" "unat j < 32 * Suc n" for en j
      using g3(4) [OF that] spi_line_quiet [of "[Barrier ''isb'']"] by (simp add: gisb_def isb_def)
  qed (use g2 g3 in \<open>simp_all add: gisb_def\<close>)
qed

text \<open>
  \<open>gicd_init\<close> returns 0 whatever state the controller was left in, provided the status flag it polls
  goes away, and afterwards no implemented shared interrupt is enabled: for \<open>ITLinesNumber = n\<close> the
  interrupts 32 to 32 n + 31 are off and the number of shared interrupts is recorded as 32 n.
\<close>

theorem gicd_init_disables:
  assumes "settles hw (gicd_reg GICD_BASE ''statusr'' 0) rwp_set"
    "n = unat (mmio_rd hw (gic_trace g) (gicd_reg GICD_BASE ''typer'' 0)) mod 32"
  shows "\<exists>g'. gicd_init hw g = Some (Inr (0, g')) \<and> gicd_regs (gicd_ctx g') = GICD_BASE \<and>
    unat (spi_count (gicd_ctx g')) = 32 * n \<and>
    (\<forall>j. 32 \<le> unat j \<and> unat j < 32 * (n + 1) \<longrightarrow> \<not> cf_enabled (spi_config rst en g' j))"
  using gicd_init_ok [OF assms] spi_line_config by (metis Suc_eq_plus1)

definition demo_typer_hw :: hardware where
  "demo_typer_hw = (mem_hw 0)\<lparr>mmio_rd := \<lambda>tr a. if a = gicd_reg GICD_BASE ''typer'' 0 then 2 else 0\<rparr>"

lemma demo_typer_settles: "a \<noteq> gicd_reg GICD_BASE ''typer'' 0 \<Longrightarrow> \<not> busy 0 \<Longrightarrow> settles demo_typer_hw a busy"
  by (auto simp: settles_def seen_def demo_typer_hw_def)

theorem gicd_init_disables_witness:
  "\<exists>g'. gicd_init demo_typer_hw zero_gic = Some (Inr (0, g')) \<and> unat (spi_count (gicd_ctx g')) = 64 \<and>
    \<not> cf_enabled (spi_config (\<lambda>_. 0) (\<lambda>_. True) g' 32) \<and> \<not> cf_enabled (spi_config (\<lambda>_. 0) (\<lambda>_. True) g' 95)"
proof -
  have "settles demo_typer_hw (gicd_reg GICD_BASE ''statusr'' 0) rwp_set"
    by (rule demo_typer_settles) (simp_all add: gicd_reg_eq rwp_set_def)
  from gicd_init_disables [OF this, of 2 zero_gic "\<lambda>_. 0" "\<lambda>_. True"] show ?thesis
    by (auto simp: demo_typer_hw_def)
qed

section \<open>The redistributor\<close>

lemmas gicr_offset_simps [simp] = gicr_offsets(2) [simplified]

definition boots :: "hardware \<Rightarrow> u32 \<Rightarrow> bool" where
  "boots hw cpu \<longleftrightarrow> (\<forall>tr. ucast (sysreg_rd hw tr ''MPIDR_EL1'' AND 0xFF) = cpu) \<and> cpu < NR_CPU hw"

definition gicr_settles :: "hardware \<Rightarrow> addr \<Rightarrow> bool" where
  "gicr_settles hw b \<longleftrightarrow> b \<noteq> NULL \<and> settles hw (gicr_reg b ''ctlr'') gicr_rwp_set \<and> settles hw (gicr_reg b ''waker'') asleep"

lemma boot_gicr:
  assumes "boots hw cpu"
  obtains x where "get_this_gicr hw g = Some (Inr (cpu, g\<lparr>gic_trace := gic_trace g @ [Mrs ''MPIDR_EL1'' x]\<rparr>))"
proof (rule that)
  show "get_this_gicr hw g =
      Some (Inr (cpu, g\<lparr>gic_trace := gic_trace g @ [Mrs ''MPIDR_EL1'' (sysreg_rd hw (gic_trace g) ''MPIDR_EL1'')]\<rparr>))"
    using assms by (auto simp: boots_def get_this_gicr_def cpu_id_def read_sysreg_def get_gicr_def ret_def Let_def)
qed

lemma gicr_wait_quiet:
  assumes "boots hw cpu" "gicr_settles hw (gicr_regs (gicr_of cpu g))"
  obtains tr where "\<forall>e \<in> set tr. quiet e" "gicr_wait_rwp hw g = Some (Inr ((), g\<lparr>gic_trace := gic_trace g @ tr\<rparr>))"
proof -
  let ?a = "gicr_reg (gicr_regs (gicr_of cpu g)) ''ctlr''"
  obtain x where x: "get_this_gicr hw g = Some (Inr (cpu, g\<lparr>gic_trace := gic_trace g @ [Mrs ''MPIDR_EL1'' x]\<rparr>))"
    using boot_gicr [OF assms(1)] .
  let ?g = "gisb (g\<lparr>gic_trace := gic_trace g @ [Mrs ''MPIDR_EL1'' x]\<rparr>)"
  obtain vs where "wait_while hw ?a gicr_rwp_set ?g = ret () (?g\<lparr>gic_trace := gic_trace ?g @ map (Rd32 ?a) vs\<rparr>)"
    using wait_while_ends assms(2) unfolding gicr_settles_def by metis
  then have "gicr_wait_rwp hw g =
      Some (Inr ((), g\<lparr>gic_trace := gic_trace g @ [Mrs ''MPIDR_EL1'' x, Barrier ''isb''] @ map (Rd32 ?a) vs\<rparr>))"
    using assms(2) x by (simp add: gicr_wait_rwp_def gisb_def isb_def ret_def gicr_settles_def)
  then show ?thesis by (rule that [rotated]) auto
qed

lemma wake_gicr_ok:
  assumes "gicr_settles hw b"
  obtains tr where "wake_gicr hw b g = Some (Inr ((), g\<lparr>gic_trace := tr\<rparr>))"
proof -
  let ?a = "gicr_reg b ''waker''"
  have w: "\<exists>tr. wait_while hw ?a asleep (gisb (wr ?a v (g\<lparr>gic_trace := t\<rparr>))) = Some (Inr ((), g\<lparr>gic_trace := tr\<rparr>))" for v t
  proof -
    obtain vs where "wait_while hw ?a asleep (gisb (wr ?a v (g\<lparr>gic_trace := t\<rparr>))) =
        ret () ((gisb (wr ?a v (g\<lparr>gic_trace := t\<rparr>)))\<lparr>gic_trace := gic_trace (gisb (wr ?a v (g\<lparr>gic_trace := t\<rparr>))) @ map (Rd32 ?a) vs\<rparr>)"
      using wait_while_ends assms unfolding gicr_settles_def by metis
    then show ?thesis by (auto simp: ret_def gisb_def wr_def)
  qed
  show ?thesis
    using w that by (fastforce simp: wake_gicr_def rd_def read32_def ret_def split: if_splits)
qed

text \<open>
  \<open>gicr_init\<close> with the context of the running processor and the number \<open>k\<close> returns 0, maps the frames
  of redistributor \<open>k\<close> and leaves all private interrupts disabled.
\<close>

lemma private_off:
  assumes "j < 32" "\<forall>e \<in> set tr'. quiet e"
    "gic_trace g = tr @ Wr32 (gicr_sgi_reg (gicr_sgi_regs (gicr_of cpu g)) ''icenabler0'' 0) 0xFFFFFFFF # tr'"
  shows "\<not> cf_enabled (private_config rst en cpu g j)"
proof -
  have "(0xFFFFFFFF :: u32) = - 1" by simp
  moreover have "unat j < 32" using assms(1) by (simp add: word_less_nat_alt)
  ultimately have "bit (0xFFFFFFFF :: u32) (unat j)" by (simp only: bit_minus_1_iff) simp
  then show ?thesis using assms(2) by (simp add: private_config_def Let_def assms(3) line_on_quiet sgi_reg_eq)
qed

lemma gicr_init_ok:
  assumes "boots hw cpu" "gicr_settles hw (GICR_BASE + ucast (GICR_STRIDE * k))"
  obtains g' where "gicr_init hw cpu k g = Some (Inr (0, g'))" "gicd_init_once g' = gicd_init_once g"
    "gicr_regs (gicr_of cpu g') = GICR_BASE + ucast (GICR_STRIDE * k)"
    "gicr_sgi_regs (gicr_of cpu g') = GICR_BASE + ucast (GICR_STRIDE * k) + 0x10000"
    "\<And>rst en j. j < 32 \<Longrightarrow> \<not> cf_enabled (private_config rst en cpu g' j)"
proof -
  let ?b = "GICR_BASE + ucast (GICR_STRIDE * k)"
  let ?v = "mmio_rd hw (gic_trace g) (gicr_reg ?b ''typer'')"
  define g1 where "g1 = upd_gicr cpu (\<lambda>r. r\<lparr>gicr_cpu_id := k, enable_lpi := False, dpg0 := False, dpg1s := False, dpg1ns := False\<rparr>)
    (upd_gicr cpu (read_gicr_typer (ucast ?v))
      ((upd_gicr cpu (\<lambda>r. r\<lparr>gicr_regs := ?b, gicr_sgi_regs := ?b + 0x10000\<rparr>) g)\<lparr>gic_trace := gic_trace g @ [Rd32 (gicr_reg ?b ''typer'') ?v]\<rparr>))"
  have g1: "gicr_regs (gicr_of cpu g1) = ?b" "gicr_sgi_regs (gicr_of cpu g1) = ?b + 0x10000" "gicd_init_once g1 = gicd_init_once g"
    by (simp_all add: g1_def upd_gicr_def upd_gicd_def read_gicr_typer_def)
  obtain t where t: "wake_gicr hw ?b g1 = Some (Inr ((), g1\<lparr>gic_trace := t\<rparr>))"
    using wake_gicr_ok [OF assms(2)] .
  let ?g2 = "wr (gicr_reg ?b ''ctlr'') 0 (g1\<lparr>gic_trace := t\<rparr>)"
  obtain t2 where t2: "gicr_wait_rwp hw ?g2 = Some (Inr ((), ?g2\<lparr>gic_trace := gic_trace ?g2 @ t2\<rparr>))"
    using gicr_wait_quiet [OF assms(1), of ?g2] assms(2) g1 by (auto simp: wr_def)
  let ?s = "\<lambda>f. gicr_sgi_reg (?b + 0x10000) f 0"
  let ?g3 = "wr (?s ''icenabler0'') 0xFFFFFFFF (wr (?s ''icactiver0'') 0xFFFFFFFF (wr (?s ''icpendr0'') 0xFFFFFFFF
    (?g2\<lparr>gic_trace := gic_trace ?g2 @ t2\<rparr>)))"
  obtain t3 where t3: "\<forall>e \<in> set t3. quiet e" "gicr_wait_rwp hw ?g3 = Some (Inr ((), ?g3\<lparr>gic_trace := gic_trace ?g3 @ t3\<rparr>))"
    using gicr_wait_quiet [OF assms(1), of ?g3] assms(2) g1 by (auto simp: wr_def)
  have sgi: "gicr_sgi_regs (gicr_of cpu ?g2) = ?b + 0x10000" using g1 by (simp add: wr_def)
  have "gicr_init hw cpu k g = andthen (wake_gicr hw ?b g1) (\<lambda>(_, g).
         andthen (gicr_wait_rwp hw (wr (gicr_reg ?b ''ctlr'') 0 g)) (\<lambda>(_, g).
           let sgi = gicr_sgi_regs (gicr_of cpu g);
               g = wr (gicr_sgi_reg sgi ''icpendr0'' 0) 0xFFFFFFFF g;
               g = wr (gicr_sgi_reg sgi ''icactiver0'' 0) 0xFFFFFFFF g;
               g = wr (gicr_sgi_reg sgi ''icenabler0'' 0) 0xFFFFFFFF g
           in andthen (gicr_wait_rwp hw g) (\<lambda>(_, g). ret 0 g)))"
    by (simp add: gicr_init_def Let_def rd_def read32_def g1_def upd_gicr_def upd_gicd_def)
  also have "\<dots> = Some (Inr (0, ?g3\<lparr>gic_trace := gic_trace ?g3 @ t3\<rparr>))"
    using sgi by (simp add: t t2 t3 Let_def ret_def)
  finally have run: "gicr_init hw cpu k g = Some (Inr (0, ?g3\<lparr>gic_trace := gic_trace ?g3 @ t3\<rparr>))" .
  show ?thesis
  proof (rule that [OF run])
    let ?g4 = "?g3\<lparr>gic_trace := gic_trace ?g3 @ t3\<rparr>"
    have "gic_trace ?g4 = (gic_trace ?g2 @ t2 @ [Wr32 (?s ''icpendr0'') 0xFFFFFFFF, Wr32 (?s ''icactiver0'') 0xFFFFFFFF]) @
        Wr32 (gicr_sgi_reg (gicr_sgi_regs (gicr_of cpu ?g4)) ''icenabler0'' 0) 0xFFFFFFFF # t3"
      using g1 by (simp add: wr_def write32_def)
    then show "\<not> cf_enabled (private_config rst en cpu ?g4 j)" if "j < 32" for rst en j
      using private_off [OF that t3(1)] by blast
  qed (use g1 in \<open>simp_all add: wr_def\<close>)
qed

section \<open>The platform\<close>

lemma gicv3_init_ok:
  assumes "settles hw (gicd_reg GICD_BASE ''statusr'' 0) rwp_set"
  obtains g' where "gicv3_init hw g = Some (Inr (0, g'))" "gicr_ctxs (gicd_ctx g') = gicr_ctxs (gicd_ctx g)"
    "gicd_init_once g' = gicd_init_once g"
proof -
  let ?g = "g\<lparr>gic_trace := snd (irq_enable hw (gic_trace g))\<rparr>"
  obtain g' where g': "gicd_init hw ?g = Some (Inr (0, g'))" "gicd_init_once g' = gicd_init_once ?g"
    "gicr_ctxs (gicd_ctx g') = gicr_ctxs (gicd_ctx ?g)"
    using gicd_init_ok [OF assms refl, where g = ?g] by blast
  then have "gicv3_init hw g = Some (Inr (0, g'))" by (simp add: gicv3_init_def case_prod_beta Let_def ret_def)
  then show ?thesis using that g' by simp
qed

lemma run_once_ok:
  assumes "settles hw (gicd_reg GICD_BASE ''statusr'' 0) rwp_set"
  obtains g' where "run_once gicd_init_once gicd_init_once_update (gicv3_init hw) g = Some (Inr (0, g'))" "gicr_ctxs (gicd_ctx g') = gicr_ctxs (gicd_ctx g)"
    "gicd_init_once g' \<noteq> 0" "gicd_init_once g \<noteq> 0 \<Longrightarrow> g' = g"
proof (cases "gicd_init_once g = 0")
  case True
  obtain g' where g': "gicv3_init hw g = Some (Inr (0, g'))" "gicr_ctxs (gicd_ctx g') = gicr_ctxs (gicd_ctx g)"
    using gicv3_init_ok [OF assms] by blast
  then have "run_once gicd_init_once gicd_init_once_update (gicv3_init hw) g = Some (Inr (0, g'\<lparr>gicd_init_once := 1\<rparr>))"
    using True by (simp add: run_once_def ret_def)
  then show ?thesis using that g' True by auto
next
  case False
  then show ?thesis using that [of g] by (simp add: run_once_def ret_def)
qed

lemma plat_gicv3_init_ok:
  assumes "settles hw (gicd_reg GICD_BASE ''statusr'' 0) rwp_set" "boots hw cpu"
    "k = gicr_cpu_id (gicr_of cpu g)" "gicr_settles hw (GICR_BASE + ucast (GICR_STRIDE * k))"
  shows "\<exists>g' tr v. plat_gicv3_init hw g = Some (Inr (0, g')) \<and> gicd_init_once g' \<noteq> 0 \<and>
    gicr_regs (gicr_of cpu g') = GICR_BASE + ucast (GICR_STRIDE * k) \<and>
    gicr_sgi_regs (gicr_of cpu g') = GICR_BASE + ucast (GICR_STRIDE * k) + 0x10000 \<and>
    (\<forall>j < 32. \<not> cf_enabled (private_config rst en cpu g' j)) \<and>
    gic_trace g' = tr @ [Msr ''ICC_SRE_EL2'' 0xF, Barrier ''isb'', Msr ''ICC_BPR1_EL1'' 7, Msr ''ICC_PMR_EL1'' 0xFF,
      Mrs ''ICC_CTLR_EL1'' v, Msr ''ICC_CTLR_EL1'' (ucast ((ucast v :: u32) AND NOT 0x43)), Msr ''ICC_IGRPEN1_EL1'' 1]"
proof -
  obtain g1 where g1: "run_once gicd_init_once gicd_init_once_update (gicv3_init hw) g = Some (Inr (0, g1))" "gicr_ctxs (gicd_ctx g1) = gicr_ctxs (gicd_ctx g)"
    "gicd_init_once g1 \<noteq> 0" using run_once_ok [OF assms(1)] by blast
  obtain x where x: "get_this_gicr hw g1 = Some (Inr (cpu, g1\<lparr>gic_trace := gic_trace g1 @ [Mrs ''MPIDR_EL1'' x]\<rparr>))"
    using boot_gicr [OF assms(2)] .
  let ?g = "g1\<lparr>gic_trace := gic_trace g1 @ [Mrs ''MPIDR_EL1'' x]\<rparr>"
  obtain g2 where g2: "gicr_init hw cpu k ?g = Some (Inr (0, g2))" "gicd_init_once g2 = gicd_init_once ?g"
    "gicr_regs (gicr_of cpu g2) = GICR_BASE + ucast (GICR_STRIDE * k)"
    "gicr_sgi_regs (gicr_of cpu g2) = GICR_BASE + ucast (GICR_STRIDE * k) + 0x10000"
    "\<And>rst en j. j < 32 \<Longrightarrow> \<not> cf_enabled (private_config rst en cpu g2 j)"
    using gicr_init_ok [OF assms(2,4), where g = ?g] by blast
  let ?w = "[Msr ''ICC_SRE_EL2'' 0xF, Barrier ''isb'', Msr ''ICC_BPR1_EL1'' 7, Msr ''ICC_PMR_EL1'' 0xFF]"
  let ?v = "sysreg_rd hw (gic_trace g2 @ ?w) ''ICC_CTLR_EL1''"
  let ?e = "?w @ [Mrs ''ICC_CTLR_EL1'' ?v, Msr ''ICC_CTLR_EL1'' (ucast ((ucast ?v :: u32) AND NOT 0x43)), Msr ''ICC_IGRPEN1_EL1'' 1]"
  have id: "gicr_cpu_id (gicr_of cpu ?g) = k" using g1(2) assms(3) by simp
  have "plat_gicv3_init hw g = Some (Inr (0, g2\<lparr>gic_trace := gic_trace g2 @ ?e\<rparr>))"
    using id by (simp add: plat_gicv3_init_def g1(1) x on_success_def g2(1) gic_sysreg_def write_sysreg_def gisb_def isb_def
        read_sysreg_def ret_def Let_def)
  moreover have "\<forall>j < 32. \<not> cf_enabled (private_config rst en cpu (g2\<lparr>gic_trace := gic_trace g2 @ ?e\<rparr>) j)"
    using g2(5) private_config_quiet [of ?e rst en cpu g2] by simp
  ultimately show ?thesis using g2(2-4) g1(3)
    by (intro exI [of _ "g2\<lparr>gic_trace := gic_trace g2 @ ?e\<rparr>"] exI [of _ "gic_trace g2"] exI [of _ ?v]) simp
qed



end
