(* ===== verification/Timer.thy ===== *)
theory Timer
  imports Heap_Frame CList Gic_Init
begin

text \<open>
  The timers of \<^verbatim>\<open>src/platform/aarch64/timer/timer.c\<close>. A timer is a structure in a block of the heap, a
  manager is a static structure per processor, and the list that joins them runs through both, so
  the state is the memory together with the heap, the interrupt controller (whose trace also has
  the accesses to the timer registers) and the counter of the handler. The functions that
  \<open>callback\<close> members point to are a parameter, as is the state of the rest of the program they act on.
\<close>

section \<open>State\<close>

record 'w hyper =
  hgic :: gic
  g_miniheap :: miniheap
  ram :: mem
  g_counter :: u64
  world :: 'w

text \<open>Addresses the linker chooses.\<close>

record symbols =
  s_timer_manager :: addr
  timer_irq_handler_at :: addr
  heap_start :: addr
  hyper_vector :: addr
  test_timer_cb_at :: addr
  pl011_string :: addr

type_synonym ('w, 'a) hrun = "'w hyper \<Rightarrow> ('a \<times> 'w hyper) outcome option"
type_synonym 'w callbacks = "addr \<Rightarrow> addr \<Rightarrow> addr \<Rightarrow> 'w hyper \<Rightarrow> 'w hyper outcome option"

definition hret :: "'a \<Rightarrow> ('w, 'a) hrun" where "hret v s = Some (Inr (v, s))"

definition hpanic :: "string \<Rightarrow> ('w, 'a) hrun" where "hpanic msg s = Some (Inl (Panic (msg @ newline)))"

text \<open>Running a function of the interrupt driver, and accesses to system registers.\<close>

definition on_gic :: "'a run \<Rightarrow> ('w, 'a) hrun" where
  "on_gic f s = andthen (f (hgic s)) (\<lambda>(v, g). hret v (s\<lparr>hgic := g\<rparr>))"

definition hmsr :: "string \<Rightarrow> u64 \<Rightarrow> 'w hyper \<Rightarrow> 'w hyper" where
  "hmsr r v s = s\<lparr>hgic := gic_sysreg r v (hgic s)\<rparr>"

definition hmrs :: "hardware \<Rightarrow> string \<Rightarrow> 'w hyper \<Rightarrow> u64 \<times> 'w hyper" where
  "hmrs hw r s = (let (v, tr) = read_sysreg hw (gic_trace (hgic s)) r in (v, s\<lparr>hgic := (hgic s)\<lparr>gic_trace := tr\<rparr>\<rparr>))"

definition hisb :: "'w hyper \<Rightarrow> 'w hyper" where "hisb s = s\<lparr>hgic := gisb (hgic s)\<rparr>"

section \<open>The structures\<close>

text \<open>
  \<open>struct zhyper_timer\<close>: \<open>expired_tick\<close> at 0, \<open>interval_ms\<close> at 8, the two flags in the word at 12,
  \<open>callback\<close> at 16, \<open>arg\<close> at 24, \<open>private\<close> at 32, \<open>list\<close> at 40, 56 bytes in all.
  \<open>struct percpu_timer_manager\<close>: \<open>nr_timers\<close> at 0, \<open>last_tick\<close> at 8, \<open>timer_list\<close> at 16, 32 bytes.
\<close>

definition interval_ms :: "mem \<Rightarrow> addr \<Rightarrow> u32" where "interval_ms m t = load32 m (t + 8)"
definition is_periodic :: "mem \<Rightarrow> addr \<Rightarrow> bool" where "is_periodic m t = bit (load32 m (t + 12)) 0"
definition is_active :: "mem \<Rightarrow> addr \<Rightarrow> bool" where "is_active m t = bit (load32 m (t + 12)) 1"
definition callback :: "mem \<Rightarrow> addr \<Rightarrow> addr" where "callback m t = load64 m (t + 16)"
definition timer_arg :: "mem \<Rightarrow> addr \<Rightarrow> addr" where "timer_arg m t = load64 m (t + 24)"
definition nr_timers :: "mem \<Rightarrow> addr \<Rightarrow> u32" where "nr_timers m mgr = load32 m mgr"

definition set_flag :: "nat \<Rightarrow> bool \<Rightarrow> mem \<Rightarrow> addr \<Rightarrow> mem" where
  "set_flag k b m t = (let w = load32 m (t + 12)
     in store32 m (t + 12) (if b then w OR push_bit k 1 else w AND NOT (push_bit k 1)))"

abbreviation timer_node :: "addr \<Rightarrow> addr" where "timer_node t \<equiv> t + 40"
abbreviation timer_list :: "addr \<Rightarrow> addr" where "timer_list mgr \<equiv> mgr + 16"

definition sizeof_timer :: u64 where "sizeof_timer = 56"
definition sizeof_manager :: u64 where "sizeof_manager = 32"

section \<open>The operations\<close>

definition percpu_timer_manager_init :: "hardware \<Rightarrow> addr \<Rightarrow> ('w, unit) hrun" where
  "percpu_timer_manager_init hw manager s =
     (if manager = NULL then hpanic ''Timer manager is NULL'' s
      else
        let s = s\<lparr>ram := store32 (ram s) manager 0\<rparr>;
            (tick, tr) = tick_el2 hw (gic_trace (hgic s));
            s = s\<lparr>hgic := (hgic s)\<lparr>gic_trace := tr\<rparr>\<rparr>;
            s = s\<lparr>ram := store64 (ram s) (manager + 8) tick\<rparr>
        in hret () (s\<lparr>ram := list_init (ram s) (timer_list manager)\<rparr>))"

definition reset_percpu_timer :: "'w hyper \<Rightarrow> 'w hyper" where
  "reset_percpu_timer s = hisb (hmsr ''CNTHP_TVAL_EL2'' 0 (hmsr ''CNTHP_CTL_EL2'' 0 s))"

definition set_percpu_timer :: "hardware \<Rightarrow> u32 \<Rightarrow> 'w hyper \<Rightarrow> 'w hyper" where
  "set_percpu_timer hw ms s =
     (let (cntfrq_el0, s) = hmrs hw ''CNTFRQ_EL0'' s;
          cntv_tval = (cntfrq_el0 div 1000) * ucast ms
      in hisb (hmsr ''CNTHP_CTL_EL2'' 1 (hmsr ''CNTHP_TVAL_EL2'' cntv_tval s)))"

text \<open>The body of the loop over the timers.\<close>

definition timer_fire :: "'w callbacks \<Rightarrow> addr \<Rightarrow> 'w hyper \<Rightarrow> 'w hyper outcome option" where
  "timer_fire cb pos s =
     (let timer = list_entry pos 40
      in if is_active (ram s) timer
         then andthen (if callback (ram s) timer \<noteq> NULL
                       then cb (callback (ram s) timer) timer (timer_arg (ram s) timer) s
                       else Some (Inr s)) (\<lambda>s.
           if \<not> is_periodic (ram s) timer
           then let s = s\<lparr>ram := set_flag 1 False (ram s) timer\<rparr>;
                    s = s\<lparr>ram := list_del (ram s) (timer_node timer)\<rparr>
                in andthen (mfree (g_miniheap s) (ram s) timer) (\<lambda>(h, m).
                     Some (Inr (s\<lparr>g_miniheap := h, ram := m\<rparr>)))
           else Some (Inr s))
         else Some (Inr s))"

definition timer_irq_handler :: "'w callbacks \<Rightarrow> hardware \<Rightarrow> irq_ref \<Rightarrow> addr \<Rightarrow> ('w, int) hrun" where
  "timer_irq_handler cb hw irq regs s =
     (let manager = arg (irq_ctx irq (hgic s));
          s = reset_percpu_timer s;
          s = s\<lparr>g_counter := g_counter s + 1\<rparr>;
          head = timer_list manager;
          pos = list_next (ram s) head
      in andthen (if manager \<noteq> NULL
                  then list_for_each_safe ram (timer_fire cb) head pos (list_next (ram s) pos) s
                  else Some (Inr s)) (\<lambda>s.
           hret 0 (set_percpu_timer hw 1000 s)))"

definition get_percpu_timer_manager :: "hardware \<Rightarrow> symbols \<Rightarrow> ('w, addr) hrun" where
  "get_percpu_timer_manager hw sy s =
     (let (i, tr) = cpu_id hw (gic_trace (hgic s));
          s = s\<lparr>hgic := (hgic s)\<lparr>gic_trace := tr\<rparr>\<rparr>
      in if i \<ge> NR_CPU hw then hpanic ''CPU ID %u exceeds the maximum number of CPUs (%u)'' s
         else hret (s_timer_manager sy + sizeof_manager * ucast i) s)"

definition plat_timer_init :: "hardware \<Rightarrow> symbols \<Rightarrow> u32 \<Rightarrow> ('w, unit) hrun" where
  "plat_timer_init hw sy ms s =
     (let (cntfrq_el0, s) = hmrs hw ''CNTFRQ_EL0'' s;
          cntv_tval = (cntfrq_el0 div 1000) * ucast ms
      in andthen (get_percpu_timer_manager hw sy s) (\<lambda>(manager, s).
         if manager = NULL then hpanic ''Failed to get per-CPU timer manager'' s
         else andthen (on_gic (get_ppi_context hw PPI_TIMER_INTID_EL2) s) (\<lambda>(timer_ppi, s).
           case timer_ppi of None \<Rightarrow> hpanic ''Failed to get PPI context for timer interrupt'' s
           | Some r \<Rightarrow> andthen (percpu_timer_manager_init hw manager s) (\<lambda>(_, s).
               let s = s\<lparr>hgic := set_irq_ctx r (\<lambda>x. x\<lparr>group := True, priority := 0x80, trigger := True,
                         handle := timer_irq_handler_at sy, arg := manager\<rparr>) (hgic s)\<rparr>
               in andthen (on_gic (gic_irq_enable hw (Some r)) s) (\<lambda>(_, s).
                 hret () (hisb (hmsr ''CNTHP_CTL_EL2'' 1 (hmsr ''CNTHP_TVAL_EL2'' cntv_tval s))))))))"

text \<open>What \<open>create_timer_periodic\<close> and \<open>create_timer_oneshot\<close> write into the block they get.\<close>

definition timer_setup :: "bool \<Rightarrow> u32 \<Rightarrow> addr \<Rightarrow> addr \<Rightarrow> mem \<Rightarrow> addr \<Rightarrow> mem" where
  "timer_setup periodic ms f a m timer =
     (let m = store32 m (timer + 8) ms;
          m = set_flag 0 periodic m timer;
          m = set_flag 1 False m timer;
          m = store64 m (timer + 16) f;
          m = store64 m (timer + 24) a;
          m = store64 m (timer + 32) NULL
      in list_init m (timer_node timer))"

definition create_timer :: "bool \<Rightarrow> u32 \<Rightarrow> addr \<Rightarrow> addr \<Rightarrow> ('w, addr) hrun" where
  "create_timer periodic ms f a s =
     (case malloc (g_miniheap s) (ram s) sizeof_timer of None \<Rightarrow> None
      | Some (h, m, timer) \<Rightarrow>
          let s = s\<lparr>g_miniheap := h, ram := m\<rparr>
          in if timer = NULL then hret NULL s
             else hret timer (s\<lparr>ram := timer_setup periodic ms f a (ram s) timer\<rparr>))"

definition create_timer_periodic :: "u32 \<Rightarrow> addr \<Rightarrow> addr \<Rightarrow> ('w, addr) hrun" where
  "create_timer_periodic = create_timer True"

definition create_timer_oneshot :: "u32 \<Rightarrow> addr \<Rightarrow> addr \<Rightarrow> ('w, addr) hrun" where
  "create_timer_oneshot = create_timer False"

definition start_timer :: "hardware \<Rightarrow> symbols \<Rightarrow> addr \<Rightarrow> addr \<Rightarrow> ('w, int) hrun" where
  "start_timer hw sy timer manager s =
     (if timer = NULL then hret (- EINVAL) s
      else andthen (if manager = NULL then get_percpu_timer_manager hw sy s else hret manager s) (\<lambda>(manager, s).
        if manager = NULL then hret (- EINVAL) s
        else
          let s = s\<lparr>ram := set_flag 1 True (ram s) timer\<rparr>;
              s = s\<lparr>ram := store32 (ram s) manager (nr_timers (ram s) manager + 1)\<rparr>
          in hret 0 (s\<lparr>ram := list_add (ram s) (timer_node timer) (timer_list manager)\<rparr>)))"

end
