(* ===== verification/Timer_Props.thy ===== *)
theory Timer_Props
  imports Timer
begin

text \<open>
  Correctness of the timers. \<open>timers_ok\<close> is the invariant of one processor's timers: the heap is
  well-formed, the manager lies outside of it, its list holds the timers \<open>ts\<close>, and each of them is
  in a heap block of its own. Creating and starting a timer and the interrupt handler keep it. A
  callback is \<open>polite\<close> when it returns, leaves the heap, the timers and the manager alone, and acts on
  the rest of the program as \<open>eff\<close> says.
\<close>

section \<open>Fields\<close>

lemma timer_fields:
  "span (t + 8) 4 \<subseteq> span t 40" "span (t + 12) 4 \<subseteq> span t 40" "span (t + 16) 8 \<subseteq> span t 40"
  "span (t + 24) 8 \<subseteq> span t 40" "span (t + 32) 8 \<subseteq> span t 40" "span t 40 \<inter> span (t + 40) 16 = {}"
  "span (t + 40) 16 \<subseteq> span t 56" "span t 40 \<subseteq> span t 56"
  by (auto simp: span_simps span_iff [of _ t])

lemma timer_frame:
  assumes "agree S m m'" "span t 40 \<subseteq> S"
  shows "is_active m t = is_active m' t" "is_periodic m t = is_periodic m' t"
    "callback m t = callback m' t" "timer_arg m t = timer_arg m' t" "interval_ms m t = interval_ms m' t"
proof -
  have "span (t + 8) 4 \<subseteq> S" "span (t + 12) 4 \<subseteq> S" "span (t + 16) 8 \<subseteq> S" "span (t + 24) 8 \<subseteq> S"
    using assms(2) timer_fields by blast+
  note f = c32.rd_frame [OF assms(1) this(1)] c32.rd_frame [OF assms(1) this(2)]
    c64.rd_frame [OF assms(1) this(3)] c64.rd_frame [OF assms(1) this(4)]
  show "is_active m t = is_active m' t" "is_periodic m t = is_periodic m' t"
    "callback m t = callback m' t" "timer_arg m t = timer_arg m' t" "interval_ms m t = interval_ms m' t"
    by (simp_all add: is_active_def is_periodic_def callback_def timer_arg_def interval_ms_def f)
qed

lemma set_flag_agree: "S \<inter> span t 40 = {} \<Longrightarrow> agree S (set_flag k b m t) m"
  unfolding set_flag_def Let_def by (rule c32.wr_agree) (use timer_fields in blast)

lemma set_flag_field:
  "is_active (set_flag k b m t) t = (if k = 1 then b else is_active m t)"
  "is_periodic (set_flag k b m t) t = (if k = 0 then b else is_periodic m t)"
  by (auto simp: set_flag_def Let_def is_active_def is_periodic_def c32.rd_wr_same bit_simps)

lemma set_flag_other:
  "callback (set_flag k b m t) t = callback m t" "timer_arg (set_flag k b m t) t = timer_arg m t"
  "interval_ms (set_flag k b m t) t = interval_ms m t"
  unfolding set_flag_def Let_def callback_def timer_arg_def interval_ms_def
  by (auto intro!: c32.rd_wr_other c64.rd_frame [OF c32.wr_agree subset_refl] simp: span_simps)

section \<open>The invariant\<close>

definition timers_ok :: "addr \<Rightarrow> 'w hyper \<Rightarrow> (addr \<times> nat) set \<Rightarrow> addr list \<Rightarrow> bool" where
  "timers_ok mgr s L ts \<longleftrightarrow>
     heap_owns (g_miniheap s) (ram s) L \<and> span mgr 32 \<inter> heap_region (g_miniheap s) = {} \<and>
     dlist (ram s) (timer_list mgr) (map timer_node ts) \<and> (\<forall>t \<in> set ts. \<exists>c \<ge> 56. (t, c) \<in> L)"

definition polite :: "'w callbacks \<Rightarrow> (addr \<Rightarrow> addr \<Rightarrow> addr \<Rightarrow> 'w \<Rightarrow> 'w) \<Rightarrow> addr set \<Rightarrow> bool" where
  "polite cb eff U \<longleftrightarrow> (\<forall>f t a s. \<exists>m.
     cb f t a s = Some (Inr (s\<lparr>ram := m, world := eff f t a (world s)\<rparr>)) \<and> agree U m (ram s))"

text \<open>What the handler does with one timer: which it keeps, and what its callback does.\<close>

definition stays :: "mem \<Rightarrow> addr \<Rightarrow> bool" where
  "stays m t \<longleftrightarrow> \<not> is_active m t \<or> is_periodic m t"

definition fires :: "(addr \<Rightarrow> addr \<Rightarrow> addr \<Rightarrow> 'w \<Rightarrow> 'w) \<Rightarrow> mem \<Rightarrow> addr \<Rightarrow> 'w \<Rightarrow> 'w" where
  "fires eff m t w = (if is_active m t \<and> callback m t \<noteq> NULL then eff (callback m t) t (timer_arg m t) w else w)"

definition without :: "addr set \<Rightarrow> (addr \<times> nat) set \<Rightarrow> (addr \<times> nat) set" where
  "without D L = {(p, c) \<in> L. \<not> (p \<in> D \<and> 56 \<le> c)}"

definition timer_bytes :: "addr \<Rightarrow> addr list \<Rightarrow> addr set" where
  "timer_bytes mgr ts = span mgr 16 \<union> (\<Union>t \<in> set ts. span t 40)"

lemma manager_fields: "span mgr 16 \<subseteq> span mgr 32" "span (mgr + 16) 16 \<subseteq> span mgr 32"
  "span mgr 16 \<inter> span (mgr + 16) 16 = {}" "span mgr 4 \<subseteq> span mgr 16" "span (mgr + 8) 8 \<subseteq> span mgr 16"
  by (auto simp: span_simps span_iff [of _ mgr])

lemma timer_block:
  assumes "timers_ok mgr s L ts" "t \<in> set ts"
  obtains c where "(t, c) \<in> L" "56 \<le> c" "span t 56 \<subseteq> span t c" "span t c \<subseteq> heap_region (g_miniheap s)"
    "without {t} L = L - {(t, c)}"
proof -
  obtain c where c: "(t, c) \<in> L" "56 \<le> c" using assms by (auto simp: timers_ok_def)
  have o: "heap_owns (g_miniheap s) (ram s) L" using assms(1) by (simp add: timers_ok_def)
  have "k = c" if "(t, k) \<in> L" "56 \<le> k" for k
    using heap.same_pointer_same_block [OF o that(1) c(1)] that(2) c(2) by simp
  then have "without {t} L = L - {(t, c)}" unfolding without_def using c by blast
  then show ?thesis using that [OF c span_mono [OF c(2)] region.block_inside [OF o c(1)]] by blast
qed

text \<open>The bytes of different timers of a list, and of the manager, are apart.\<close>

lemma timers_apart:
  assumes "timers_ok mgr s L ts" "t \<in> set ts" "u \<in> set ts" "t \<noteq> u"
  shows "span t 56 \<inter> span u 56 = {}"
proof -
  obtain c k where "(t, c) \<in> L" "(u, k) \<in> L" "span t 56 \<subseteq> span t c" "span u 56 \<subseteq> span u k"
    using timer_block [OF assms(1,2)] timer_block [OF assms(1,3)] by metis
  moreover from this assms(1,4) have "span t c \<inter> span u k = {}"
    by (intro heap.separate) (auto simp: timers_ok_def)
  ultimately show ?thesis by blast
qed

lemma timer_inside:
  assumes "timers_ok mgr s L ts" "t \<in> set ts"
  shows "span t 56 \<subseteq> heap_region (g_miniheap s)" "span t 56 \<inter> span mgr 32 = {}"
    "span t 56 \<subseteq> (\<Union>(p, c) \<in> L. span p c)"
proof -
  obtain c where c: "(t, c) \<in> L" "span t 56 \<subseteq> span t c" "span t c \<subseteq> heap_region (g_miniheap s)"
    using timer_block [OF assms] by metis
  then show "span t 56 \<subseteq> heap_region (g_miniheap s)" by blast
  then show "span t 56 \<inter> span mgr 32 = {}" using assms(1) unfolding timers_ok_def by blast
  show "span t 56 \<subseteq> (\<Union>(p, c) \<in> L. span p c)" using c(1,2) by blast
qed

lemma list_nodes_off_bytes:
  assumes "timers_ok mgr s L ts"
  shows "timer_bytes mgr ts \<inter> nodes (timer_list mgr # map timer_node ts) = {}"
proof -
  have 1: "span u 40 \<inter> span (t + 40) 16 = {}" if "t \<in> set ts" "u \<in> set ts" for t u
  proof (cases "t = u")
    case False
    then show ?thesis using timers_apart [OF assms that] timer_fields(7) [of t] timer_fields(8) [of u] by blast
  qed (simp add: timer_fields)
  have 2: "span t 40 \<inter> span (mgr + 16) 16 = {}" "span mgr 16 \<inter> span (t + 40) 16 = {}" if "t \<in> set ts" for t
    using timer_inside(2) [OF assms that] timer_fields(7,8) [of t] manager_fields(1,2) [of mgr] by blast+
  have "span mgr 16 \<inter> nodes (timer_list mgr # map timer_node ts) = {}"
    using 2(2) manager_fields(3) [of mgr] by (simp add: nodes_def Int_Un_distrib Int_UN_distrib)
  moreover have "span u 40 \<inter> nodes (timer_list mgr # map timer_node ts) = {}" if "u \<in> set ts" for u
    using 1 [OF _ that] 2(1) [OF that] by (simp add: nodes_def Int_Un_distrib Int_UN_distrib)
  ultimately show ?thesis unfolding timer_bytes_def by blast
qed

lemma list_nodes_inside:
  assumes "timers_ok mgr s L ts"
  shows "nodes (timer_list mgr # map timer_node ts) \<subseteq> (\<Union>(p, c) \<in> L. span p c) \<union> - heap_region (g_miniheap s)"
    "nodes (timer_list mgr # map timer_node ts) \<subseteq> heap_region (g_miniheap s) \<union> span mgr 32"
proof -
  have "span (timer_list mgr) 16 \<subseteq> - heap_region (g_miniheap s)"
    using assms manager_fields(2) [of mgr] unfolding timers_ok_def by blast
  moreover have "span (t + 40) 16 \<subseteq> (\<Union>(p, c) \<in> L. span p c)" "span (t + 40) 16 \<subseteq> heap_region (g_miniheap s)"
    if "t \<in> set ts" for t
    using timer_inside [OF assms that] timer_fields(7) [of t] by blast+
  ultimately show "nodes (timer_list mgr # map timer_node ts) \<subseteq> (\<Union>(p, c) \<in> L. span p c) \<union> - heap_region (g_miniheap s)"
    "nodes (timer_list mgr # map timer_node ts) \<subseteq> heap_region (g_miniheap s) \<union> span mgr 32"
    unfolding nodes_def using manager_fields(2) [of mgr] by (simp_all add: UN_subset_iff le_supI1 le_supI2)
qed

text \<open>Writes off the headers of the heap and off the links of the list keep the invariant.\<close>

lemma timers_ok_write:
  assumes "timers_ok mgr s L ts" "agree (- W) m (ram s)"
    "W \<subseteq> (\<Union>(p, c) \<in> L. span p c) \<union> - heap_region (g_miniheap s)"
    "W \<inter> nodes (timer_list mgr # map timer_node ts) = {}"
  shows "timers_ok mgr (s\<lparr>ram := m\<rparr>) L ts"
proof -
  note ok = assms(1) [unfolded timers_ok_def]
  have "agree (nodes (timer_list mgr # map timer_node ts)) m (ram s)"
    by (rule agree_mono [OF assms(2)]) (use assms(4) in blast)
  with ok have "dlist m (timer_list mgr) (map timer_node ts)" by (metis cl.holds_frame)
  moreover have "heap_owns (g_miniheap s) m L"
    by (rule region.writes_keep [of _ "ram s" L W]) (use ok assms(2,3) in auto)
  ultimately show ?thesis using ok by (simp add: timers_ok_def)
qed

lemma timers_ok_frame:
  assumes "timers_ok mgr s L ts" "agree (heap_region (g_miniheap s) \<union> span mgr 32) m (ram s)"
  shows "timers_ok mgr (s\<lparr>ram := m\<rparr>) L ts"
  by (rule timers_ok_write [OF assms(1), where W = "- (heap_region (g_miniheap s) \<union> span mgr 32)"])
    (use assms(2) list_nodes_inside(2) [OF assms(1)] in auto)

lemma timers_distinct: "timers_ok mgr s L ts \<Longrightarrow> distinct ts"
  unfolding timers_ok_def dlist_def using apart_distinct by (fastforce simp: distinct_map)

lemma timer_bytes_mono: "set us \<subseteq> set ts \<Longrightarrow> timer_bytes mgr us \<subseteq> timer_bytes mgr ts"
  by (auto simp: timer_bytes_def)

section \<open>One timer in the handler\<close>

lemma timer_unlink:
  assumes ok: "timers_ok mgr s L (us @ t # ts)"
  defines "m \<equiv> list_del (set_flag 1 False (ram s) t) (timer_node t)"
  shows "heap_owns (g_miniheap s) m L" "dlist m (timer_list mgr) (map timer_node (us @ ts))"
    "agree (timer_bytes mgr (us @ ts)) m (ram s)"
proof -
  let ?m = "set_flag 1 False (ram s) t"
  note n = list_nodes_off_bytes [OF ok] and t = timer_inside [OF ok, of t]
  have w: "agree (- span t 40) ?m (ram s)" by (rule set_flag_agree) simp
  have ok1: "timers_ok mgr (s\<lparr>ram := ?m\<rparr>) L (us @ t # ts)"
  proof (rule timers_ok_write [OF ok w])
    show "span t 40 \<subseteq> (\<Union>(p, c) \<in> L. span p c) \<union> - heap_region (g_miniheap s)"
      using t(3) timer_fields(8) [of t] by auto
    show "span t 40 \<inter> nodes (timer_list mgr # map timer_node (us @ t # ts)) = {}"
      using n by (auto simp: timer_bytes_def)
  qed
  then have d: "dlist ?m (timer_list mgr) (map timer_node us @ timer_node t # map timer_node ts)"
    and o: "heap_owns (g_miniheap s) ?m L" by (simp_all add: timers_ok_def)
  show "dlist m (timer_list mgr) (map timer_node (us @ ts))" unfolding m_def using cl.remove_holds [OF d] by simp
  have fr: "agree (- nodes (timer_list mgr # map timer_node (us @ t # ts))) m ?m"
    unfolding m_def using cl.remove_frame [OF d] by simp
  show "heap_owns (g_miniheap s) m L"
    by (rule region.writes_keep [OF o _ fr]) (use list_nodes_inside(1) [OF ok1] in simp)
  have "timer_bytes mgr (us @ ts) \<subseteq> - nodes (timer_list mgr # map timer_node (us @ t # ts))"
    using n timer_bytes_mono [of "us @ ts" "us @ t # ts" mgr] by auto
  moreover have "timer_bytes mgr (us @ ts) \<subseteq> - span t 40"
  proof -
    have "span u 56 \<inter> span t 56 = {}" if "u \<in> set (us @ ts)" for u
      using timers_apart [OF ok, of u t] timers_distinct [OF ok] that by auto
    then have "span u 40 \<inter> span t 40 = {}" if "u \<in> set (us @ ts)" for u
      using that timer_fields(8) by blast
    moreover have "span mgr 16 \<inter> span t 40 = {}" using t(2) timer_fields(8) [of t] manager_fields(1) [of mgr] by auto
    ultimately show ?thesis unfolding timer_bytes_def by blast
  qed
  ultimately show "agree (timer_bytes mgr (us @ ts)) m (ram s)"
    by (rule agree_trans [OF agree_mono [OF fr] agree_mono [OF w]])
qed

lemma timer_cover: "timer_bytes mgr ts \<union> nodes (timer_list mgr # map timer_node ts) \<subseteq> span mgr 32 \<union> (\<Union>t \<in> set ts. span t 56)"
proof -
  have "span t 40 \<subseteq> span t 56" "span (t + 40) 16 \<subseteq> span t 56" for t by (rule timer_fields)+
  then have "(\<Union>t \<in> set ts. span t 40) \<subseteq> (\<Union>t \<in> set ts. span t 56)" "nodes (map timer_node ts) \<subseteq> (\<Union>t \<in> set ts. span t 56)"
    unfolding nodes_def set_map by blast+
  then show ?thesis using manager_fields(1,2) [of mgr] unfolding timer_bytes_def nodes_simps by blast
qed

lemma timer_bytes_in: "t \<in> set ts \<Longrightarrow> span t 40 \<subseteq> timer_bytes mgr ts"
  by (auto simp: timer_bytes_def)

lemma timer_release:
  assumes ok: "timers_ok mgr s L (us @ t # ts)"
  defines "m \<equiv> list_del (set_flag 1 False (ram s) t) (timer_node t)"
  shows "\<exists>h m'. mfree (g_miniheap s) m t = Some (Inr (h, m')) \<and>
    timers_ok mgr (s\<lparr>g_miniheap := h, ram := m'\<rparr>) (without {t} L) (us @ ts) \<and>
    heap_region h = heap_region (g_miniheap s) \<and> agree (timer_bytes mgr (us @ ts)) m' (ram s)"
proof -
  note un = timer_unlink [OF ok, folded m_def]
  let ?N = "nodes (timer_list mgr # map timer_node (us @ ts))"
  obtain c where c: "(t, c) \<in> L" "without {t} L = L - {(t, c)}" using timer_block [OF ok, of t] by (metis in_set_conv_decomp)
  have other: "\<exists>k \<ge> 56. (u, k) \<in> L - {(t, c)}" if "u \<in> set (us @ ts)" for u
    using that ok timers_distinct [OF ok] by (auto simp: timers_ok_def)
  have "span u 56 \<subseteq> (\<Union>(b, k) \<in> L - {(t, c)}. span b k)" if "u \<in> set (us @ ts)" for u
    using other [OF that] span_mono [of 56] by blast
  moreover have "span mgr 32 \<subseteq> - heap_region (g_miniheap s)" using ok by (auto simp: timers_ok_def)
  ultimately have "timer_bytes mgr (us @ ts) \<union> ?N \<subseteq> - heap_region (g_miniheap s) \<union> (\<Union>(b, k) \<in> L - {(t, c)}. span b k)"
    by (intro order_trans [OF timer_cover] Un_mono UN_least) auto
  from region.dealloc_keeps [OF un(1) c(1) this] obtain h m' where
    free: "miniheap_free (g_miniheap s) m t = Some (Inr (h, m'))" "heap_owns h m' (L - {(t, c)})"
      "heap_region h = heap_region (g_miniheap s)" and ag: "agree (timer_bytes mgr (us @ ts) \<union> ?N) m' m" .
  have "dlist m' (timer_list mgr) (map timer_node (us @ ts))"
    using un(2) ag cl.holds_frame by (simp add: agree_un)
  then have "timers_ok mgr (s\<lparr>g_miniheap := h, ram := m'\<rparr>) (without {t} L) (us @ ts)"
    using free other ok c(2) by (auto simp: timers_ok_def)
  moreover have "agree (timer_bytes mgr (us @ ts)) m' (ram s)"
    using ag un(3) by (auto simp: agree_un intro: agree_trans)
  ultimately show ?thesis using free by (auto simp: mfree_def)
qed

text \<open>
  The callback of a timer, and then the release of a timer that is not periodic: the timers that
  stay keep their fields and the manager its count.
\<close>

lemma timer_callback:
  assumes ok: "timers_ok mgr s L ts" and t: "t \<in> set ts"
    and cb: "polite cb eff (heap_region (g_miniheap s) \<union> span mgr 32)"
  defines "c \<equiv> callback (ram s) t"
  obtains m where "(if c \<noteq> NULL then cb c t (timer_arg (ram s) t) s else Some (Inr s)) =
      Some (Inr (s\<lparr>ram := m, world := (if c \<noteq> NULL then eff c t (timer_arg (ram s) t) (world s) else world s)\<rparr>))"
    "timers_ok mgr (s\<lparr>ram := m\<rparr>) L ts" "agree (timer_bytes mgr ts) m (ram s)"
proof (cases "c = NULL")
  case True
  then show ?thesis using ok that [of "ram s"] by simp
next
  case False
  obtain m where m: "cb c t (timer_arg (ram s) t) s = Some (Inr (s\<lparr>ram := m, world := eff c t (timer_arg (ram s) t) (world s)\<rparr>))"
    "agree (heap_region (g_miniheap s) \<union> span mgr 32) m (ram s)" using cb unfolding polite_def by blast
  have "timer_bytes mgr ts \<subseteq> heap_region (g_miniheap s) \<union> span mgr 32"
    using timer_inside(1) [OF ok] timer_fields(8) manager_fields(1) [of mgr] unfolding timer_bytes_def by blast
  then show ?thesis using False m that timers_ok_frame [OF ok m(2)] agree_mono [OF m(2)] by simp
qed

lemma timers_ok_world: "timers_ok mgr (s\<lparr>world := w\<rparr>) L ts \<longleftrightarrow> timers_ok mgr s L ts"
  by (simp add: timers_ok_def)

lemma timer_fire_step:
  assumes ok: "timers_ok mgr s L (us @ t # ts)"
    and cb: "polite cb eff (heap_region (g_miniheap s) \<union> span mgr 32)"
  defines "kept \<equiv> (if stays (ram s) t then [t] else [])"
  shows "\<exists>s'. timer_fire cb (timer_node t) s = Some (Inr s') \<and>
    timers_ok mgr s' (without ({t} - set kept) L) (us @ kept @ ts) \<and>
    heap_region (g_miniheap s') = heap_region (g_miniheap s) \<and> hgic s' = hgic s \<and> g_counter s' = g_counter s \<and>
    world s' = fires eff (ram s) t (world s) \<and> agree (timer_bytes mgr (us @ kept @ ts)) (ram s') (ram s)"
proof (cases "is_active (ram s) t")
  case False
  then show ?thesis using ok by (simp add: timer_fire_def list_entry_def kept_def stays_def fires_def without_def Let_def)
next
  case True
  let ?w = "fires eff (ram s) t (world s)"
  obtain m where call: "(if callback (ram s) t \<noteq> NULL then cb (callback (ram s) t) t (timer_arg (ram s) t) s else Some (Inr s)) =
      Some (Inr (s\<lparr>ram := m, world := ?w\<rparr>))"
    and ok1: "timers_ok mgr (s\<lparr>ram := m\<rparr>) L (us @ t # ts)" and ag: "agree (timer_bytes mgr (us @ t # ts)) m (ram s)"
    using timer_callback [OF ok _ cb, of t] True by (auto simp: fires_def)
  have p: "is_periodic m t = is_periodic (ram s) t"
    by (rule timer_frame(2) [OF ag timer_bytes_in]) simp
  show ?thesis
  proof (cases "is_periodic (ram s) t")
    case periodic: True
    then have "timer_fire cb (timer_node t) s = Some (Inr (s\<lparr>ram := m, world := ?w\<rparr>))"
      using True p by (simp add: timer_fire_def list_entry_def Let_def call)
    then show ?thesis using periodic ok1 ag
      by (simp add: kept_def stays_def without_def timers_ok_def)
  next
    case False
    obtain h m' where r: "mfree (g_miniheap s) (list_del (set_flag 1 False m t) (timer_node t)) t = Some (Inr (h, m'))"
      "timers_ok mgr (s\<lparr>g_miniheap := h, ram := m'\<rparr>) (without {t} L) (us @ ts)"
      "heap_region h = heap_region (g_miniheap s)" "agree (timer_bytes mgr (us @ ts)) m' m"
      using timer_release [OF ok1] by auto
    then have "timer_fire cb (timer_node t) s = Some (Inr (s\<lparr>ram := m', world := ?w, g_miniheap := h\<rparr>))"
      using True False p by (simp add: timer_fire_def list_entry_def Let_def call)
    moreover have "agree (timer_bytes mgr (us @ ts)) m' (ram s)"
      by (rule agree_trans [OF r(4) agree_mono [OF ag timer_bytes_mono]]) auto
    ultimately show ?thesis using True False r(2,3) by (simp add: kept_def stays_def timers_ok_def)
  qed
qed

lemma without_without: "without A (without B L) = without (A \<union> B) L"
  by (auto simp: without_def)

lemma stays_frame: "agree (timer_bytes mgr ts) m m' \<Longrightarrow> t \<in> set ts \<Longrightarrow> stays m t = stays m' t \<and> fires eff m t = fires eff m' t"
  using timer_frame [of "timer_bytes mgr ts" m m' t] timer_bytes_in [of t ts mgr]
  by (auto simp: stays_def fires_def fun_eq_iff)

text \<open>The loop of the handler ends, having fired every active timer once, in the order of the list.\<close>

lemma timer_loop:
  assumes "timers_ok mgr s L (us @ ts)" "polite cb eff (heap_region (g_miniheap s) \<union> span mgr 32)"
    "pos = hd (map timer_node ts @ [timer_list mgr])"
  shows "\<exists>s'. list_for_each_safe ram (timer_fire cb) (timer_list mgr) pos (list_next (ram s) pos) s = Some (Inr s') \<and>
    timers_ok mgr s' (without {t \<in> set ts. \<not> stays (ram s) t} L) (us @ filter (stays (ram s)) ts) \<and>
    heap_region (g_miniheap s') = heap_region (g_miniheap s) \<and>
    hgic s' = hgic s \<and> g_counter s' = g_counter s \<and> world s' = fold (fires eff (ram s)) ts (world s) \<and>
    agree (timer_bytes mgr (us @ filter (stays (ram s)) ts)) (ram s') (ram s)"
  using assms
proof (induction ts arbitrary: s us L pos)
  case Nil
  then show ?case by (subst list_for_each_safe.simps) (simp add: without_def)
next
  case (Cons t ts)
  let ?k = "if stays (ram s) t then [t] else []"
  have d: "dlist (ram s) (timer_list mgr) (map timer_node us @ timer_node t # map timer_node ts)"
    using Cons.prems(1) by (simp add: timers_ok_def)
  note nx = dlist_next [OF d]
  obtain s1 where step: "timer_fire cb (timer_node t) s = Some (Inr s1)"
    and ok1: "timers_ok mgr s1 (without ({t} - set ?k) L) ((us @ ?k) @ ts)"
    and same: "heap_region (g_miniheap s1) = heap_region (g_miniheap s)" "hgic s1 = hgic s" "g_counter s1 = g_counter s"
      "world s1 = fires eff (ram s) t (world s)" and ag: "agree (timer_bytes mgr (us @ ?k @ ts)) (ram s1) (ram s)"
    using timer_fire_step [OF Cons.prems(1,2)] by auto
  have st: "stays (ram s1) u = stays (ram s) u \<and> fires eff (ram s1) u = fires eff (ram s) u" if "u \<in> set ts" for u
    using stays_frame [OF ag, of u eff] that by simp
  have fl: "filter (stays (ram s1)) ts = filter (stays (ram s)) ts"
    "{u \<in> set ts. \<not> stays (ram s1) u} = {u \<in> set ts. \<not> stays (ram s) u}"
    using st by (auto intro: filter_cong)
  have fd: "fold (fires eff (ram s1)) ts w = fold (fires eff (ram s)) ts w" for w
    by (rule fold_cong) (simp_all add: st)
  obtain s' where run: "list_for_each_safe ram (timer_fire cb) (timer_list mgr) (hd (map timer_node ts @ [timer_list mgr]))
        (list_next (ram s1) (hd (map timer_node ts @ [timer_list mgr]))) s1 = Some (Inr s')"
    and fin: "timers_ok mgr s' (without {u \<in> set ts. \<not> stays (ram s) u} (without ({t} - set ?k) L)) ((us @ ?k) @ filter (stays (ram s)) ts)"
      "hgic s' = hgic s" "g_counter s' = g_counter s" "world s' = fold (fires eff (ram s)) (t # ts) (world s)"
      "agree (timer_bytes mgr ((us @ ?k) @ filter (stays (ram s)) ts)) (ram s') (ram s1)" "heap_region (g_miniheap s') = heap_region (g_miniheap s)"
    using Cons.IH [OF ok1 _ refl] Cons.prems(2) same unfolding fl fd by (auto simp del: append_assoc)
  have "list_for_each_safe ram (timer_fire cb) (timer_list mgr) pos (list_next (ram s) pos) s = Some (Inr s')"
    using run nx Cons.prems(3) by (subst list_for_each_safe.simps) (simp add: step)
  moreover have "{u \<in> set ts. \<not> stays (ram s) u} \<union> ({t} - set ?k) = {u \<in> set (t # ts). \<not> stays (ram s) u}" by auto
  moreover have e: "(us @ ?k) @ filter (stays (ram s)) ts = us @ filter (stays (ram s)) (t # ts)" by simp
  moreover have "agree (timer_bytes mgr ((us @ ?k) @ filter (stays (ram s)) ts)) (ram s') (ram s)"
    by (rule agree_trans [OF fin(5) agree_mono [OF ag timer_bytes_mono]]) auto
  ultimately show ?case using fin(1-4,6) unfolding without_without e by (intro exI [of _ s']) simp
qed

section \<open>Creating and starting\<close>

lemma timer_setup_frame: "agree (- span t 56) (timer_setup p ms f a m t) m"
proof -
  have d: "- span t 56 \<inter> span (t + 8) 4 = {}" "- span t 56 \<inter> span (t + 16) 8 = {}" "- span t 56 \<inter> span (t + 24) 8 = {}"
    "- span t 56 \<inter> span (t + 32) 8 = {}" "- span t 56 \<inter> span t 40 = {}" "- span t 56 \<subseteq> - span (t + 40) 16"
    by (auto simp: span_simps span_iff [of _ t])
  show ?thesis unfolding timer_setup_def Let_def
    by (intro agree_trans [OF agree_mono [OF list_init_dlist(2) d(6)]] agree_trans [OF c64.wr_agree [OF d(4)]]
        agree_trans [OF c64.wr_agree [OF d(3)]] agree_trans [OF c64.wr_agree [OF d(2)]]
        agree_trans [OF set_flag_agree [OF d(5)]] c32.wr_agree [OF d(1)])
qed

lemma timer_setup_fields:
  assumes m'_def: "m' = timer_setup p ms f a m t"
  shows "\<not> is_active m' t" "is_periodic m' t = p" "callback m' t = f" "timer_arg m' t = a" "interval_ms m' t = ms"
proof -
  define m1 where "m1 = set_flag 1 False (set_flag 0 p (store32 m (t + 8) ms) t) t"
  define m2 where "m2 = store64 (store64 (store64 m1 (t + 16) f) (t + 24) a) (t + 32) NULL"
  have "agree (span t 40) m' m2"
    unfolding m'_def timer_setup_def Let_def m2_def m1_def
    by (rule agree_mono [OF list_init_dlist(2)]) (use timer_fields(6) [of t] in blast)
  note fr = timer_frame [OF this subset_refl]
  have d: "span (t + 8) 4 \<inter> span (t + 16) 8 = {}" "span (t + 8) 4 \<inter> span (t + 24) 8 = {}" "span (t + 8) 4 \<inter> span (t + 32) 8 = {}"
    "span (t + 12) 4 \<inter> span (t + 16) 8 = {}" "span (t + 12) 4 \<inter> span (t + 24) 8 = {}" "span (t + 12) 4 \<inter> span (t + 32) 8 = {}"
    "span (t + 16) 8 \<inter> span (t + 24) 8 = {}" "span (t + 16) 8 \<inter> span (t + 32) 8 = {}" "span (t + 24) 8 \<inter> span (t + 32) 8 = {}"
    by (auto simp: span_simps)
  note off = c32.rd_frame [OF c64.wr_agree subset_refl]
  have "load32 m2 (t + 8) = load32 m1 (t + 8)" "load32 m2 (t + 12) = load32 m1 (t + 12)"
    unfolding m2_def by (simp_all add: off d)
  moreover have "callback m2 t = f" "timer_arg m2 t = a"
    unfolding m2_def callback_def timer_arg_def by (simp_all add: c64.rd_wr_other c64.rd_wr_same d)
  moreover have "\<not> is_active m1 t" "is_periodic m1 t = p" "interval_ms m1 t = ms"
    unfolding m1_def by (simp_all add: set_flag_field set_flag_other) (simp add: interval_ms_def c32.rd_wr_same)
  ultimately show "\<not> is_active m' t" "is_periodic m' t = p" "callback m' t = f" "timer_arg m' t = a" "interval_ms m' t = ms"
    unfolding fr by (simp_all add: is_active_def is_periodic_def interval_ms_def)
qed

text \<open>A block that is not a timer of the list is apart from the list and its timers.\<close>

lemma fresh_block:
  assumes ok: "timers_ok mgr s L ts" and t: "(t, c) \<in> L" "56 \<le> c" "t \<notin> set ts"
  shows "span t 56 \<inter> (span mgr 32 \<union> (\<Union>u \<in> set ts. span u 56)) = {}" "span t 56 \<subseteq> (\<Union>(p, c) \<in> L. span p c)"
proof -
  have sub: "span t 56 \<subseteq> span t c" by (rule span_mono [OF t(2)])
  have o: "heap_owns (g_miniheap s) (ram s) L" "span mgr 32 \<inter> heap_region (g_miniheap s) = {}"
    using ok by (simp_all add: timers_ok_def)
  have "span t 56 \<inter> span u 56 = {}" if u: "u \<in> set ts" for u
  proof -
    obtain k where k: "(u, k) \<in> L" "span u 56 \<subseteq> span u k" using timer_block [OF ok u] by metis
    moreover have "(t, c) \<noteq> (u, k)" using t(3) u by auto
    ultimately have "span t c \<inter> span u k = {}" using heap.separate [OF o(1) t(1)] by blast
    then show ?thesis using k(2) sub by blast
  qed
  moreover have "span t 56 \<inter> span mgr 32 = {}" using region.block_inside [OF o(1) t(1)] sub o(2) by blast
  ultimately show "span t 56 \<inter> (span mgr 32 \<union> (\<Union>u \<in> set ts. span u 56)) = {}" by blast
  show "span t 56 \<subseteq> (\<Union>(p, c) \<in> L. span p c)" using sub t(1) by blast
qed

lemma create_timer_ok:
  assumes ok: "timers_ok mgr s L ts"
  shows "create_timer p ms f a s = Some (Inr (NULL, s)) \<or>
    (\<exists>t c h m. create_timer p ms f a s = Some (Inr (t, s\<lparr>g_miniheap := h, ram := m\<rparr>)) \<and> t \<noteq> NULL \<and> 56 \<le> c \<and> (t, c) \<notin> L \<and>
      t \<notin> set ts \<and> timers_ok mgr (s\<lparr>g_miniheap := h, ram := m\<rparr>) (insert (t, c) L) ts \<and>
      \<not> is_active m t \<and> is_periodic m t = p \<and> callback m t = f \<and> timer_arg m t = a \<and> interval_ms m t = ms \<and>
      agree (timer_bytes mgr ts) m (ram s) \<and> heap_region h = heap_region (g_miniheap s))"
proof -
  have o: "heap_owns (g_miniheap s) (ram s) L" using ok by (simp add: timers_ok_def)
  have sz: "unat sizeof_timer = 56" by (simp add: sizeof_timer_def)
  obtain h m t where al: "miniheap_alloc (g_miniheap s) (ram s) sizeof_timer = Some (h, m, t)"
    using heap.alloc_returns [OF o] sz by force
  show ?thesis
  proof (cases "t = NULL")
    case True
    then have "h = g_miniheap s" "m = ram s" using heap.alloc_fails [OF o, of sizeof_timer h m] al sz by simp_all
    then show ?thesis using al True by (simp add: create_timer_def malloc_def hret_def)
  next
    case False
    then obtain c where c: "56 \<le> c" "heap_owns h m (insert (t, c) L)" "(t, c) \<notin> L" "\<And>b k. (b, k) \<in> L \<Longrightarrow> agree (span b k) m (ram s)"
      using heap.alloc_block [OF o _ al] sz by auto
    have reg: "heap_region h = heap_region (g_miniheap s)" "agree (- heap_region (g_miniheap s)) m (ram s)"
      using region.alloc_confined [OF o _ al] sz by simp_all
    have "t \<notin> set ts"
    proof
      assume "t \<in> set ts"
      then obtain k where "(t, k) \<in> L" "56 \<le> k" using ok by (auto simp: timers_ok_def)
      then show False using heap.same_pointer_same_block [OF c(2), of t c k] c(1,3) by auto
    qed
    let ?s = "s\<lparr>g_miniheap := h, ram := m\<rparr>" and ?m = "timer_setup p ms f a m t"
    have cov: "agree (span mgr 32 \<union> (\<Union>u \<in> set ts. span u 56)) m (ram s)"
    proof -
      have "agree (span u 56) m (ram s)" if u: "u \<in> set ts" for u
      proof -
        obtain k where "(u, k) \<in> L" "span u 56 \<subseteq> span u k" using timer_block [OF ok u] by metis
        then show ?thesis using c(4) agree_mono by blast
      qed
      moreover have "agree (span mgr 32) m (ram s)"
        by (rule agree_mono [OF reg(2)]) (use ok in \<open>auto simp: timers_ok_def\<close>)
      ultimately show ?thesis by (auto simp: agree_def)
    qed
    have ok1: "timers_ok mgr ?s (insert (t, c) L) ts"
      using ok c(2) reg(1) cl.holds_frame [OF _ agree_mono [OF cov]] timer_cover [of mgr ts] by (auto simp: timers_ok_def)
    note fb = fresh_block [OF ok1 _ c(1) \<open>t \<notin> set ts\<close>]
    have off: "span t 56 \<inter> (timer_bytes mgr ts \<union> nodes (timer_list mgr # map timer_node ts)) = {}"
      using fb(1) timer_cover [of mgr ts] by blast
    have "timers_ok mgr (?s\<lparr>ram := ?m\<rparr>) (insert (t, c) L) ts"
      by (rule timers_ok_write [OF ok1, where W = "span t 56"]) (use timer_setup_frame fb(2) off in auto)
    moreover have "agree (timer_bytes mgr ts) ?m (ram s)"
      by (rule agree_trans [OF agree_mono [OF timer_setup_frame] agree_mono [OF cov]]) (use off timer_cover [of mgr ts] in auto)
    moreover have "create_timer p ms f a s = Some (Inr (t, s\<lparr>g_miniheap := h, ram := ?m\<rparr>))"
      using False al by (simp add: create_timer_def malloc_def hret_def)
    ultimately show ?thesis using False c(1,3) \<open>t \<notin> set ts\<close> timer_setup_fields [OF refl] reg(1)
      by (intro disjI2 exI [of _ t] exI [of _ c] exI [of _ h] exI [of _ ?m]) simp
  qed
qed

lemma start_timer_ok:
  assumes ok: "timers_ok mgr s L ts" and t: "(t, c) \<in> L" "56 \<le> c" "t \<notin> set ts" and "mgr \<noteq> NULL"
  shows "\<exists>m. start_timer hw sy t mgr s = Some (Inr (0, s\<lparr>ram := m\<rparr>)) \<and> timers_ok mgr (s\<lparr>ram := m\<rparr>) L (t # ts) \<and>
    is_active m t \<and> is_periodic m t = is_periodic (ram s) t \<and> callback m t = callback (ram s) t \<and>
    timer_arg m t = timer_arg (ram s) t \<and> interval_ms m t = interval_ms (ram s) t \<and>
    nr_timers m mgr = nr_timers (ram s) mgr + 1 \<and> agree (\<Union>u \<in> set ts. span u 40) m (ram s)"
proof -
  let ?m1 = "set_flag 1 True (ram s) t" and ?h = "timer_list mgr" and ?N = "map timer_node ts"
  let ?m2 = "store32 ?m1 mgr (nr_timers ?m1 mgr + 1)"
  define m where "m = list_add ?m2 (timer_node t) ?h"
  note fb = fresh_block [OF ok t] and tf = timer_fields [of t] and mf = manager_fields [of mgr]
  have off: "span t 56 \<inter> (timer_bytes mgr ts \<union> nodes (?h # ?N)) = {}" using fb(1) timer_cover [of mgr ts] by blast
  note nb = list_nodes_off_bytes [OF ok]
  have w1: "agree (- span t 40) ?m1 (ram s)" by (rule set_flag_agree) simp
  have w2: "agree (- span mgr 4) ?m2 ?m1" by (rule c32.wr_agree) simp
  have ok1: "timers_ok mgr (s\<lparr>ram := ?m1\<rparr>) L ts"
    by (rule timers_ok_write [OF ok w1]) (use fb(2) tf(8) off in blast)+
  have ok2: "timers_ok mgr (s\<lparr>ram := ?m2\<rparr>) L ts"
    using timers_ok_write [OF ok1, of "span mgr 4" ?m2] w2 ok mf(1,4) nb
    unfolding timer_bytes_def timers_ok_def by simp blast
  have d: "dlist ?m2 ?h ?N" and o: "heap_owns (g_miniheap s) ?m2 L" using ok2 by (simp_all add: timers_ok_def)
  have "\<forall>q \<in> set (?h # ?N). apart2 (timer_node t) q" unfolding apart_nodes using off tf(7) by blast
  then have ap: "apart (timer_node t # ?h # ?N)" using cl.holds_apart [OF d] by simp
  have fr: "agree (- nodes (timer_node t # ?h # ?N)) m ?m2" unfolding m_def by (rule cl.push_frame [OF d ap])
  have "heap_owns (g_miniheap s) m L"
    by (rule region.writes_keep [OF o _ fr]) (use list_nodes_inside(1) [OF ok] fb(2) tf(7) in auto)
  then have ok3: "timers_ok mgr (s\<lparr>ram := m\<rparr>) L (t # ts)"
    using ok t cl.push_holds [OF d ap] unfolding m_def by (auto simp: timers_ok_def)
  have "agree (span t 40) m ?m1"
  proof (rule agree_trans [OF agree_mono [OF fr] agree_mono [OF w2]])
    show "span t 40 \<subseteq> - nodes (timer_node t # ?h # ?N)" using off tf(6,8) by auto
    show "span t 40 \<subseteq> - span mgr 4" using fb(1) tf(8) mf(1,4) by blast
  qed
  note ft = timer_frame [OF this subset_refl]
  have nt: "nr_timers m mgr = nr_timers (ram s) mgr + 1"
  proof -
    have "span mgr 4 \<subseteq> - nodes (timer_node t # ?h # ?N)"
      using nb fb(1) mf(1,4) tf(7) unfolding timer_bytes_def nodes_simps by blast
    then have "nr_timers m mgr = nr_timers ?m2 mgr" using c32.rd_frame [OF fr] unfolding nr_timers_def by metis
    also have "\<dots> = nr_timers ?m1 mgr + 1" by (simp add: nr_timers_def c32.rd_wr_same)
    also have "nr_timers ?m1 mgr = nr_timers (ram s) mgr"
      unfolding nr_timers_def by (rule c32.rd_frame [OF w1]) (use fb(1) tf(8) mf(1,4) in blast)
    finally show ?thesis .
  qed
  have ag: "agree (\<Union>u \<in> set ts. span u 40) m (ram s)"
  proof (rule agree_trans [OF agree_mono [OF fr] agree_trans [OF agree_mono [OF w2] agree_mono [OF w1]]])
    have b: "(\<Union>u \<in> set ts. span u 40) \<subseteq> timer_bytes mgr ts" by (simp add: timer_bytes_def)
    then show "(\<Union>u \<in> set ts. span u 40) \<subseteq> - nodes (timer_node t # ?h # ?N)" using nb off tf(7) by auto
    show "(\<Union>u \<in> set ts. span u 40) \<subseteq> - span t 40" using b off tf(8) by blast
    have "span u 40 \<inter> span mgr 4 = {}" if "u \<in> set ts" for u
      using timer_inside(2) [OF ok that] timer_fields(8) [of u] mf(1,4) by blast
    then show "(\<Union>u \<in> set ts. span u 40) \<subseteq> - span mgr 4" by blast
  qed
  have "t \<noteq> NULL" using heap.not_null [OF o t(1)] .
  then have "start_timer hw sy t mgr s = Some (Inr (0, s\<lparr>ram := m\<rparr>))"
    using \<open>mgr \<noteq> NULL\<close> by (simp add: start_timer_def hret_def m_def)
  then show ?thesis using ok3 ft nt ag
    by (intro exI [of _ m]) (simp add: set_flag_field set_flag_other)
qed

section \<open>The handler\<close>

lemma timer_handler_ok:
  assumes "timers_ok mgr s L ts" "mgr \<noteq> NULL" "arg (irq_ctx irq (hgic s)) = mgr"
    "polite cb eff (heap_region (g_miniheap s) \<union> span mgr 32)"
  shows "\<exists>s' f. timer_irq_handler cb hw irq regs s = Some (Inr (0, s')) \<and>
    timers_ok mgr s' (without {t \<in> set ts. \<not> stays (ram s) t} L) (filter (stays (ram s)) ts) \<and>
    world s' = fold (fires eff (ram s)) ts (world s) \<and>
    (\<forall>t. t \<in> set (filter (stays (ram s)) ts) \<longrightarrow> agree (span t 40) (ram s') (ram s)) \<and>
    nr_timers (ram s') mgr = nr_timers (ram s) mgr \<and> g_counter s' = g_counter s + 1 \<and>
    heap_region (g_miniheap s') = heap_region (g_miniheap s) \<and>
    gicd_ctx (hgic s') = gicd_ctx (hgic s) \<and> gic_trace (hgic s') = gic_trace (hgic s) @
      [Msr ''CNTHP_CTL_EL2'' 0, Msr ''CNTHP_TVAL_EL2'' 0, Barrier ''isb'', Mrs ''CNTFRQ_EL0'' f,
       Msr ''CNTHP_TVAL_EL2'' (f div 1000 * 1000), Msr ''CNTHP_CTL_EL2'' 1, Barrier ''isb'']"
proof -
  let ?h = "timer_list mgr"
  define s0 where "s0 = (reset_percpu_timer s)\<lparr>g_counter := g_counter s + 1\<rparr>"
  have rs: "g_counter (reset_percpu_timer s) = g_counter s" "ram s0 = ram (reset_percpu_timer s)"
    by (simp_all add: s0_def reset_percpu_timer_def hmsr_def hisb_def)
  have s0: "ram s0 = ram s" "g_miniheap s0 = g_miniheap s" "world s0 = world s" "g_counter s0 = g_counter s + 1"
    "hgic s0 = (hgic s)\<lparr>gic_trace := gic_trace (hgic s) @ [Msr ''CNTHP_CTL_EL2'' 0, Msr ''CNTHP_TVAL_EL2'' 0, Barrier ''isb'']\<rparr>"
    by (simp_all add: s0_def reset_percpu_timer_def hmsr_def hisb_def gic_sysreg_def gisb_def access_defs)
  have d: "dlist (ram s0) ?h (map timer_node ts)" using assms(1) by (simp add: s0 timers_ok_def)
  have "timers_ok mgr s0 L ([] @ ts)" using assms(1) by (simp add: timers_ok_def s0)
  from timer_loop [OF this _ dlist_ends(1) [OF d], of cb eff] assms(4) obtain s1 where
    run: "list_for_each_safe ram (timer_fire cb) ?h (list_next (ram s0) ?h) (list_next (ram s0) (list_next (ram s0) ?h)) s0 = Some (Inr s1)"
    and s1: "timers_ok mgr s1 (without {t \<in> set ts. \<not> stays (ram s) t} L) (filter (stays (ram s)) ts)"
      "hgic s1 = hgic s0" "g_counter s1 = g_counter s0" "world s1 = fold (fires eff (ram s)) ts (world s)"
      "agree (timer_bytes mgr (filter (stays (ram s)) ts)) (ram s1) (ram s)" "heap_region (g_miniheap s1) = heap_region (g_miniheap s)"
    by (auto simp: s0)
  define s' where "s' = set_percpu_timer hw 1000 s1"
  have s': "ram s' = ram s1" "g_miniheap s' = g_miniheap s1" "world s' = world s1" "g_counter s' = g_counter s1"
    by (simp_all add: s'_def set_percpu_timer_def hmrs_def read_sysreg_def hmsr_def hisb_def gic_sysreg_def gisb_def access_defs)
  obtain f where g': "hgic s' = (hgic s1)\<lparr>gic_trace := gic_trace (hgic s1) @ [Mrs ''CNTFRQ_EL0'' f, Msr ''CNTHP_TVAL_EL2'' (f div 1000 * 1000), Msr ''CNTHP_CTL_EL2'' 1, Barrier ''isb'']\<rparr>"
    by (simp add: s'_def set_percpu_timer_def hmrs_def read_sysreg_def hmsr_def hisb_def gic_sysreg_def gisb_def access_defs)
  have "timer_irq_handler cb hw irq regs s = Some (Inr (0, s'))"
    using run assms(2,3) by (simp add: timer_irq_handler_def Let_def rs s0_def [symmetric] hret_def s'_def)
  moreover have "agree (span t 40) (ram s1) (ram s)" if "t \<in> set (filter (stays (ram s)) ts)" for t
    by (rule agree_mono [OF s1(5) timer_bytes_in [OF that]])
  moreover have "nr_timers (ram s1) mgr = nr_timers (ram s) mgr"
    unfolding nr_timers_def by (rule c32.rd_frame [OF s1(5)]) (use manager_fields(4) [of mgr] in \<open>auto simp: timer_bytes_def\<close>)
  ultimately show ?thesis using s1 g'
    by (intro exI [of _ s'] exI [of _ f]) (auto simp: s' s0 timers_ok_def)
qed

section \<open>Properties\<close>

text \<open>
  C33. The timer interrupt handler returns, for any number of timers in any state: it calls the
  callback of every active timer once, in the order of the list, removes exactly the active
  timers that are not periodic and releases their heap blocks, keeps all others with their fields,
  counts the interrupt, and stops the hardware timer before and re-arms it after the callbacks, for
  1000 milliseconds whatever the intervals of the timers are. \<open>nr_timers\<close> is not decreased for the
  timers it removes.
\<close>

theorem timer_irq_handler_fires:
  assumes "timers_ok mgr s L ts" "mgr \<noteq> NULL" "arg (irq_ctx irq (hgic s)) = mgr"
    "polite cb eff (heap_region (g_miniheap s) \<union> span mgr 32)"
  shows "\<exists>s' f. timer_irq_handler cb hw irq regs s = Some (Inr (0, s')) \<and>
    timers_ok mgr s' (without {t \<in> set ts. \<not> stays (ram s) t} L) (filter (stays (ram s)) ts) \<and>
    world s' = fold (fires eff (ram s)) ts (world s) \<and>
    (\<forall>t. t \<in> set (filter (stays (ram s)) ts) \<longrightarrow> agree (span t 40) (ram s') (ram s)) \<and>
    nr_timers (ram s') mgr = nr_timers (ram s) mgr \<and> g_counter s' = g_counter s + 1 \<and>
    gicd_ctx (hgic s') = gicd_ctx (hgic s) \<and> gic_trace (hgic s') = gic_trace (hgic s) @
      [Msr ''CNTHP_CTL_EL2'' 0, Msr ''CNTHP_TVAL_EL2'' 0, Barrier ''isb'', Mrs ''CNTFRQ_EL0'' f,
       Msr ''CNTHP_TVAL_EL2'' (f div 1000 * 1000), Msr ''CNTHP_CTL_EL2'' 1, Barrier ''isb'']"
  using timer_handler_ok [OF assms, of hw regs] by blast

definition demo_symbols :: symbols where
  "demo_symbols = \<lparr>s_timer_manager = 0x5000, timer_irq_handler_at = 0x8000, heap_start = 0x1000, hyper_vector = 0x800,
     test_timer_cb_at = 0x9000, pl011_string = 0x7000\<rparr>"

definition demo_hyper :: "u64 list hyper" where
  "demo_hyper = \<lparr>hgic = set_irq_ctx (Ppi_ref 0 10) (\<lambda>x. x\<lparr>arg := 0x5000\<rparr>) zero_gic, g_miniheap = demo_heap,
     ram = list_init demo_mem 0x5010, g_counter = 0, world = []\<rparr>"

lemma demo_hyper_ok: "timers_ok 0x5000 demo_hyper {} []"
proof -
  have r: "heap_region demo_heap = span 0x1000 128" by (simp add: heap_region_def demo_heap_def)
  have "heap_owns demo_heap (list_init demo_mem 0x5010) {}"
    by (rule region.writes_keep [OF demo_owns, of "span 0x5010 16"]) (auto simp: r span_nowrap intro: list_init_dlist)
  moreover have "span 0x5000 32 \<inter> heap_region demo_heap = {}" by (auto simp: r span_nowrap)
  ultimately show ?thesis using list_init_dlist(1) by (simp add: timers_ok_def demo_hyper_def)
qed

text \<open>
  C34. Creating a timer and starting it: the creation either fails without effect or returns a new,
  inactive timer with the interval, the callback and the argument asked for, in a heap block of its
  own; starting it puts it at the front of the manager's list, active, counts it, and leaves every
  other timer as it was.
\<close>

theorem create_and_start_timer:
  assumes "timers_ok mgr s L ts" "mgr \<noteq> NULL"
  shows "create_timer p ms f a s = Some (Inr (NULL, s)) \<or>
    (\<exists>t c s1 s2. create_timer p ms f a s = Some (Inr (t, s1)) \<and> (t, c) \<notin> L \<and> timers_ok mgr s1 (insert (t, c) L) ts \<and>
      \<not> is_active (ram s1) t \<and> start_timer hw sy t mgr s1 = Some (Inr (0, s2)) \<and>
      timers_ok mgr s2 (insert (t, c) L) (t # ts) \<and> is_active (ram s2) t \<and> is_periodic (ram s2) t = p \<and>
      interval_ms (ram s2) t = ms \<and> callback (ram s2) t = f \<and> timer_arg (ram s2) t = a \<and>
      nr_timers (ram s2) mgr = nr_timers (ram s) mgr + 1 \<and> hgic s2 = hgic s \<and> world s2 = world s \<and>
      agree (\<Union>u \<in> set ts. span u 40) (ram s2) (ram s))"
  using create_timer_ok [OF assms(1), of p ms f a]
proof (elim disjE exE conjE)
  fix t c h m
  let ?s = "s\<lparr>g_miniheap := h, ram := m\<rparr>"
  assume c: "create_timer p ms f a s = Some (Inr (t, ?s))" "56 \<le> c" "(t, c) \<notin> L" "t \<notin> set ts"
    "timers_ok mgr ?s (insert (t, c) L) ts" "\<not> is_active m t" "is_periodic m t = p" "callback m t = f"
    "timer_arg m t = a" "interval_ms m t = ms" "agree (timer_bytes mgr ts) m (ram s)"
  obtain m' where st: "start_timer hw sy t mgr ?s = Some (Inr (0, ?s\<lparr>ram := m'\<rparr>))" "timers_ok mgr (?s\<lparr>ram := m'\<rparr>) (insert (t, c) L) (t # ts)"
    "is_active m' t" "is_periodic m' t = is_periodic m t" "callback m' t = callback m t" "timer_arg m' t = timer_arg m t"
    "interval_ms m' t = interval_ms m t" "nr_timers m' mgr = nr_timers m mgr + 1" "agree (\<Union>u \<in> set ts. span u 40) m' m"
    using start_timer_ok [OF c(5) _ c(2,4) assms(2), of hw sy] by auto
  have "nr_timers m mgr = nr_timers (ram s) mgr"
    unfolding nr_timers_def by (rule c32.rd_frame [OF c(11)]) (use manager_fields(4) [of mgr] in \<open>auto simp: timer_bytes_def\<close>)
  moreover have "agree (\<Union>u \<in> set ts. span u 40) m' (ram s)"
    by (rule agree_trans [OF st(9) agree_mono [OF c(11)]]) (simp add: timer_bytes_def)
  ultimately show ?thesis using c st
    by (intro disjI2 exI [of _ t] exI [of _ c] exI [of _ ?s] exI [of _ "?s\<lparr>ram := m'\<rparr>"]) simp
qed simp

text \<open>The heap of the example has room for one timer.\<close>

lemma demo_create: "create_timer False 10 0x9000 7 demo_hyper \<noteq> Some (Inr (NULL, demo_hyper))"
proof -
  let ?m = "list_init demo_mem 0x5010"
  have "heap_rep demo_heap ?m [Free 128]"
  proof -
    have "agree (span 0x1000 16) demo_mem ?m"
      by (rule agree_sym, rule agree_mono [OF list_init_dlist(2)]) (auto simp: span_nowrap)
    then have "agree (hdrs (unat (mh_base demo_heap)) [Free 128]) demo_mem ?m" by (simp add: demo_heap_def)
    from path_frame [OF this] show ?thesis using demo_rep unfolding heap_rep_def by blast
  qed
  then obtain h' m' where "miniheap_alloc demo_heap ?m 56 = Some (h', m', 0x1010)"
    using miniheap_alloc_refine [of demo_heap ?m "[Free 128]" 56] by (auto simp: block_size_def demo_heap_def)
  then show ?thesis
    by (simp add: create_timer_def malloc_def demo_hyper_def hret_def sizeof_timer_def)
qed

theorem create_and_start_timer_witness:
  "\<exists>t c s1 s2. create_timer False 10 0x9000 7 demo_hyper = Some (Inr (t, s1)) \<and>
     start_timer (mem_hw 0) demo_symbols t 0x5000 s1 = Some (Inr (0, s2)) \<and>
     timers_ok 0x5000 s2 {(t, c)} [t] \<and> is_active (ram s2) t"
  using create_and_start_timer [OF demo_hyper_ok, of False 10 "0x9000" 7 "mem_hw 0" demo_symbols] demo_create by auto

lemma demo_started:
  obtains t c and s :: "u64 list hyper" where "timers_ok 0x5000 s {(t, c)} [t]" "is_active (ram s) t" "\<not> is_periodic (ram s) t"
    "callback (ram s) t = 0x9000" "timer_arg (ram s) t = 7" "world s = []" "hgic s = hgic demo_hyper"
proof -
  obtain t c h m where c: "56 \<le> c" "timers_ok 0x5000 (demo_hyper\<lparr>g_miniheap := h, ram := m\<rparr>) {(t, c)} []"
    "\<not> is_periodic m t" "callback m t = 0x9000" "timer_arg m t = 7"
    using create_timer_ok [OF demo_hyper_ok, of False 10 "0x9000" 7] demo_create by auto
  show ?thesis
    using start_timer_ok [OF c(2), of t c "mem_hw 0" demo_symbols] c that by (auto simp: demo_hyper_def)
qed

lemma demo_polite: "polite (\<lambda>f t a (s :: u64 list hyper). Some (Inr (s\<lparr>world := a # world s\<rparr>))) (\<lambda>f t a w. a # w) U"
  unfolding polite_def
proof (intro allI)
  fix f t a and s :: "u64 list hyper"
  show "\<exists>m. Some (Inr (s\<lparr>world := a # world s\<rparr>)) = Some (Inr (s\<lparr>ram := m, world := a # world s\<rparr>) :: u64 list hyper outcome) \<and> agree U m (ram s)"
    by (intro exI [of _ "ram s"]) simp
qed

theorem timer_irq_handler_fires_witness:
  "\<exists>s t c s'. timers_ok 0x5000 s {(t, c)} [t] \<and>
     timer_irq_handler (\<lambda>f t a s. Some (Inr (s\<lparr>world := a # world s\<rparr>))) (mem_hw 0) (Ppi_ref 0 10) 0 s = Some (Inr (0, s')) \<and>
     timers_ok 0x5000 s' {} [] \<and> world s' = [7]"
proof -
  obtain t c and s :: "u64 list hyper" where s: "timers_ok 0x5000 s {(t, c)} [t]" "is_active (ram s) t" "\<not> is_periodic (ram s) t"
    "callback (ram s) t = 0x9000" "timer_arg (ram s) t = 7" "world s = []" "hgic s = hgic demo_hyper"
    using demo_started by blast
  let ?cb = "\<lambda>f t a (s :: u64 list hyper). Some (Inr (s\<lparr>world := a # world s\<rparr>)) :: u64 list hyper outcome option"
  have "polite ?cb (\<lambda>f t a w. a # w) U" for U by (rule demo_polite)
  moreover have "arg (irq_ctx (Ppi_ref 0 10) (hgic s)) = 0x5000"
    by (simp add: s(7) demo_hyper_def upd_gicr_def upd_gicd_def)
  moreover have "56 \<le> c" using s(1) by (auto simp: timers_ok_def)
  then have "without {u \<in> set [t]. \<not> stays (ram s) u} {(t, c)} = {}" using s(2,3) by (auto simp: without_def stays_def)
  ultimately show ?thesis
    using timer_irq_handler_fires [OF s(1) _ _, of "Ppi_ref 0 10" ?cb "\<lambda>f t a w. a # w" "mem_hw 0" 0] s
    by (auto simp: stays_def fires_def)
qed

end
