(* ===== verification/Timer_Init.thy ===== *)
theory Timer_Init
  imports Timer_Props
begin

text \<open>
  The initialisation of a processor's timer, \<open>plat_timer_init\<close>: the manager becomes an empty list, the
  private interrupt of the timer gets its handler and is enabled, and the hardware timer is armed.
  \<open>timer_irq_ready\<close> is what the interrupt handler of \<^verbatim>\<open>el2_sync.c\<close> relies on afterwards.
\<close>

definition timer_irq_ready :: "symbols \<Rightarrow> u32 \<Rightarrow> addr \<Rightarrow> gic \<Rightarrow> bool" where
  "timer_irq_ready sy cpu mgr g \<longleftrightarrow> (let x = irq_ctx (Ppi_ref cpu 10) g in
     intid x = 26 \<and> ops x = Some Ppi_ops \<and> handle x = timer_irq_handler_at sy \<and> arg x = mgr)"

definition manager_of :: "symbols \<Rightarrow> u32 \<Rightarrow> addr" where
  "manager_of sy cpu = s_timer_manager sy + 32 * ucast cpu"

lemma boots_cpu_id:
  assumes "boots hw cpu"
  obtains x where "cpu_id hw tr = (cpu, tr @ [Mrs ''MPIDR_EL1'' x])"
  using assms by (auto simp: boots_def cpu_id_def read_sysreg_def)

lemma get_manager:
  assumes "boots hw cpu"
  obtains x where "get_percpu_timer_manager hw sy s =
    Some (Inr (manager_of sy cpu, s\<lparr>hgic := (hgic s)\<lparr>gic_trace := gic_trace (hgic s) @ [Mrs ''MPIDR_EL1'' x]\<rparr>\<rparr>))"
proof -
  obtain x where "cpu_id hw (gic_trace (hgic s)) = (cpu, gic_trace (hgic s) @ [Mrs ''MPIDR_EL1'' x])"
    using boots_cpu_id [OF assms] .
  moreover have "\<not> NR_CPU hw \<le> cpu" using assms by (simp add: boots_def not_le)
  ultimately show ?thesis using that
    by (simp add: get_percpu_timer_manager_def hret_def manager_of_def sizeof_manager_def Let_def)
qed

lemma low10: "(ucast (ucast (w :: 10 word) :: u32) :: 10 word) = w"
  by (rule bit_word_eqI) (auto simp: bit_simps)

text \<open>The context of a private interrupt after it has been looked up has its number and its table.\<close>

lemma get_ppi_ok:
  assumes "boots hw cpu" "valid_ppi i"
  defines "r \<equiv> Ppi_ref cpu (i - 16)"
  obtains x h where "get_ppi_context hw i g = Some (Inr (Some r, set_irq_ctx r h (g\<lparr>gic_trace := gic_trace g @ [Mrs ''MPIDR_EL1'' x]\<rparr>)))"
    "intid (h (irq_ctx r g)) = ucast i" "ops (h (irq_ctx r g)) = Some Ppi_ops"
    "intid (irq_ctx r g) = ucast i \<Longrightarrow> ops (irq_ctx r g) = Some Ppi_ops \<Longrightarrow> h (irq_ctx r g) = irq_ctx r g"
    "handle (irq_ctx r g) = NULL \<Longrightarrow> handle (h (irq_ctx r g)) = NULL"
proof -
  obtain x where x: "get_this_gicr hw g = Some (Inr (cpu, g\<lparr>gic_trace := gic_trace g @ [Mrs ''MPIDR_EL1'' x]\<rparr>))"
    using boot_gicr [OF assms(1)] .
  have uc10: "(ucast (ucast i :: 10 word) :: u32) = take_bit 10 i" by (rule bit_word_eqI) (auto simp: bit_simps)
  have "unat i < 1024" using assms(2) by (simp add: valid_ppi_unat)
  then have uc: "(ucast (ucast i :: 10 word) :: u32) = i"
    using uc10 by (simp add: word_unat_eq_iff unat_take)
  show ?thesis
  proof (cases "ucast (intid (irq_ctx r g)) \<noteq> i \<or> ops (irq_ctx r g) \<noteq> Some Ppi_ops")
    case True
    then show ?thesis
      using x assms(2) uc that [of "\<lambda>_. zero_ctx\<lparr>intid := ucast i, group := True, priority := 0x80, trigger := False, ops := Some Ppi_ops\<rparr>" x]
      by (auto simp: get_ppi_context_def valid_ppi_def ret_def r_def PPI_FIRST_INTID_def zero_ctx_def Let_def)
  next
    case False
    then have "intid (irq_ctx r g) = ucast i" using low10 [of "intid (irq_ctx r g)"] by auto
    moreover have "set_irq_ctx r (\<lambda>x. x) g' = g'" for g' by (simp add: r_def upd_gicr_def upd_gicd_def)
    ultimately show ?thesis using x assms(2) uc False that [of "\<lambda>x. x" x]
      by (auto simp: get_ppi_context_def valid_ppi_def ret_def r_def PPI_FIRST_INTID_def Let_def)
  qed
qed

section \<open>The steps of the initialisation\<close>

lemma private_set_ctx [simp]:
  "private_ready hw rst cpu (set_irq_ctx (Ppi_ref c i) f g) = private_ready hw rst cpu g"
  "private_config rst en cpu (set_irq_ctx (Ppi_ref c i) f g) = private_config rst en cpu g"
  "gic_trace (set_irq_ctx (Ppi_ref c i) f g) = gic_trace g"
  by (simp_all add: private_ready_def private_config_def upd_gicr_def upd_gicd_def fun_eq_iff Let_def)

lemma ppi_ctx_set [simp]: "irq_ctx (Ppi_ref c i) (set_irq_ctx (Ppi_ref c i) f g) = f (irq_ctx (Ppi_ref c i) g)"
  by (simp add: upd_gicr_def upd_gicd_def)

lemma ctx_trace [simp]: "irq_ctx r (g\<lparr>gic_trace := tr\<rparr>) = irq_ctx r g"
  by (cases r) simp_all

lemma manager_init_ok:
  assumes o: "heap_owns (g_miniheap s) (ram s) L" "span mgr 32 \<inter> heap_region (g_miniheap s) = {}" "mgr \<noteq> NULL"
  obtains m x where "percpu_timer_manager_init hw mgr s =
      Some (Inr ((), s\<lparr>hgic := (hgic s)\<lparr>gic_trace := gic_trace (hgic s) @ [Mrs ''CNTVCT_EL0'' x]\<rparr>, ram := m\<rparr>))"
    "timers_ok mgr (s\<lparr>ram := m\<rparr>) L []" "nr_timers m mgr = 0" "agree (- span mgr 32) m (ram s)"
proof -
  define x where "x = sysreg_rd hw (gic_trace (hgic s)) ''CNTVCT_EL0''"
  define m where "m = list_init (store64 (store32 (ram s) mgr 0) (mgr + 8) x) (timer_list mgr)"
  have f: "- span mgr 32 \<inter> span mgr 4 = {}" "- span mgr 32 \<inter> span (mgr + 8) 8 = {}" "- span mgr 32 \<subseteq> - span (mgr + 16) 16"
    "span mgr 4 \<inter> span (mgr + 8) 8 = {}" "span mgr 4 \<subseteq> - span (mgr + 16) 16"
    by (auto simp: span_simps span_iff [of _ mgr])
  have fr: "agree (- span mgr 32) m (ram s)"
    unfolding m_def by (intro agree_trans [OF agree_mono [OF list_init_dlist(2) f(3)]]
        agree_trans [OF c64.wr_agree [OF f(2)] c32.wr_agree [OF f(1)]])
  have "heap_owns (g_miniheap s) m L" by (rule region.writes_keep [OF o(1) _ fr]) (use o(2) in auto)
  then have "timers_ok mgr (s\<lparr>ram := m\<rparr>) L []" using o(2) list_init_dlist(1) by (simp add: timers_ok_def m_def)
  moreover have "nr_timers m mgr = 0"
    unfolding nr_timers_def m_def
    using c32.rd_frame [OF list_init_dlist(2) f(5)] c32.rd_frame [OF c64.wr_agree [OF f(4)] subset_refl]
    by (simp add: c32.rd_wr_same)
  moreover have "percpu_timer_manager_init hw mgr s =
      Some (Inr ((), s\<lparr>hgic := (hgic s)\<lparr>gic_trace := gic_trace (hgic s) @ [Mrs ''CNTVCT_EL0'' x]\<rparr>, ram := m\<rparr>))"
    using o(3) by (simp add: percpu_timer_manager_init_def tick_el2_def read_sysreg_def hret_def m_def x_def Let_def)
  ultimately show ?thesis using that fr by blast
qed

text \<open>
  What \<open>plat_timer_init\<close> does, up to the final accesses: the interrupt of the timer is configured and
  enabled and every other private interrupt is as before.
\<close>

lemma plat_timer_init_ok:
  assumes rdy: "private_ready hw rst cpu (hgic s)" and mgr: "mgr = manager_of sy cpu" "mgr \<noteq> NULL"
    and o: "heap_owns (g_miniheap s) (ram s) L" "span mgr 32 \<inter> heap_region (g_miniheap s) = {}"
  shows "\<exists>s' f tr. plat_timer_init hw sy ms s = Some (Inr ((), s')) \<and> timers_ok mgr s' L [] \<and> nr_timers (ram s') mgr = 0 \<and>
    agree (- span mgr 32) (ram s') (ram s) \<and> g_miniheap s' = g_miniheap s \<and> g_counter s' = g_counter s \<and> world s' = world s \<and>
    timer_irq_ready sy cpu mgr (hgic s') \<and> private_ready hw rst cpu (hgic s') \<and>
    (\<forall>j < 32. private_config rst en cpu (hgic s') j =
      (if j = 26 then (private_config rst en cpu (hgic s) j)
         \<lparr>cf_enabled := True, cf_priority := 0x80, cf_trigger := 1, cf_group := True\<rparr>
       else private_config rst en cpu (hgic s) j)) \<and>
    gic_trace (hgic s') = tr @ [Msr ''CNTHP_TVAL_EL2'' (f div 1000 * ucast ms), Msr ''CNTHP_CTL_EL2'' 1, Barrier ''isb'']"
proof -
  let ?r = "Ppi_ref cpu 10"
  have b: "boots hw cpu" using rdy by (auto simp: private_ready_def boots_def Let_def)
  define f where "f = sysreg_rd hw (gic_trace (hgic s)) ''CNTFRQ_EL0''"
  define g0 where "g0 = (hgic s)\<lparr>gic_trace := gic_trace (hgic s) @ [Mrs ''CNTFRQ_EL0'' f]\<rparr>"
  obtain x1 where m1: "get_percpu_timer_manager hw sy (s\<lparr>hgic := g0\<rparr>) =
      Some (Inr (mgr, s\<lparr>hgic := g0\<lparr>gic_trace := gic_trace g0 @ [Mrs ''MPIDR_EL1'' x1]\<rparr>\<rparr>))"
    using get_manager [OF b, of sy "s\<lparr>hgic := g0\<rparr>"] mgr by auto
  define g1 where "g1 = g0\<lparr>gic_trace := gic_trace g0 @ [Mrs ''MPIDR_EL1'' x1]\<rparr>"
  have v: "valid_ppi 26" by (simp add: valid_ppi_unat)
  obtain x2 h where m2: "get_ppi_context hw 26 g1 = Some (Inr (Some ?r, set_irq_ctx ?r h (g1\<lparr>gic_trace := gic_trace g1 @ [Mrs ''MPIDR_EL1'' x2]\<rparr>)))"
    "intid (h (irq_ctx ?r g1)) = 26" "ops (h (irq_ctx ?r g1)) = Some Ppi_ops"
  proof (rule get_ppi_ok [OF b v, of g1])
    fix x h
    assume "get_ppi_context hw 26 g1 = Some (Inr (Some (Ppi_ref cpu (26 - 16)), set_irq_ctx (Ppi_ref cpu (26 - 16)) h (g1\<lparr>gic_trace := gic_trace g1 @ [Mrs ''MPIDR_EL1'' x]\<rparr>)))"
      "intid (h (irq_ctx (Ppi_ref cpu (26 - 16)) g1)) = ucast (26 :: u32)" "ops (h (irq_ctx (Ppi_ref cpu (26 - 16)) g1)) = Some Ppi_ops"
    then show thesis by (intro that [of h x]) (simp_all del: set_irq_ctx.simps irq_ctx.simps)
  qed
  define g2 where "g2 = set_irq_ctx ?r h (g1\<lparr>gic_trace := gic_trace g1 @ [Mrs ''MPIDR_EL1'' x2]\<rparr>)"
  obtain m x3 where m3: "percpu_timer_manager_init hw mgr (s\<lparr>hgic := g2\<rparr>) =
      Some (Inr ((), s\<lparr>hgic := g2\<lparr>gic_trace := gic_trace g2 @ [Mrs ''CNTVCT_EL0'' x3]\<rparr>, ram := m\<rparr>))"
    "timers_ok mgr (s\<lparr>ram := m\<rparr>) L []" "nr_timers m mgr = 0" "agree (- span mgr 32) m (ram s)"
    using manager_init_ok [of "s\<lparr>hgic := g2\<rparr>" L mgr hw] o mgr(2) by (auto simp: timers_ok_def)
  let ?upd = "\<lambda>x. x\<lparr>group := True, priority := 0x80, trigger := True, handle := timer_irq_handler_at sy, arg := mgr\<rparr>"
  define g3 where "g3 = set_irq_ctx ?r ?upd (g2\<lparr>gic_trace := gic_trace g2 @ [Mrs ''CNTVCT_EL0'' x3]\<rparr>)"
  have ctx: "irq_ctx ?r g3 = ?upd (h (irq_ctx ?r g1))" unfolding g3_def ppi_ctx_set ctx_trace g2_def ..
  have r3: "private_ready hw rst cpu g3" using rdy by (simp add: g3_def g2_def g1_def g0_def del: set_irq_ctx.simps)
  have q: "private_config rst en cpu (g\<lparr>gic_trace := gic_trace g @ [Mrs r v]\<rparr>) = private_config rst en cpu g" for g r v
    by (rule private_config_quiet) simp
  have c3: "private_config rst en cpu g3 = private_config rst en cpu (hgic s)"
    unfolding g3_def private_set_ctx(2) q unfolding g2_def private_set_ctx(2) q unfolding g1_def q unfolding g0_def q ..
  have "ops (irq_ctx ?r g3) = Some Ppi_ops" "valid_ppi (ucast (intid (irq_ctx ?r g3)))" unfolding ctx using m2(2,3) v by simp_all
  from ppi.enable_configures [OF r3 this, of en] obtain g4 where
    m4: "gic_irq_enable hw (Some ?r) g3 = Some (Inr (0, g4))" and d4: "gicd_ctx g4 = gicd_ctx g3"
    and c4: "\<forall>j. is_private j \<longrightarrow> private_config rst en cpu g4 j = (if j = 26
      then (private_config rst en cpu g3 j)\<lparr>cf_enabled := True, cf_priority := 0x80, cf_trigger := 1, cf_group := True\<rparr>
      else private_config rst en cpu g3 j)"
    using m2(2) unfolding ctx by (auto simp: ppi.configured_def private_grouped_def private_trigger_def)
  let ?e = "[Msr ''CNTHP_TVAL_EL2'' (f div 1000 * ucast ms), Msr ''CNTHP_CTL_EL2'' 1, Barrier ''isb'']"
  define s' where "s' = s\<lparr>hgic := g4\<lparr>gic_trace := gic_trace g4 @ ?e\<rparr>, ram := m\<rparr>"
  have "plat_timer_init hw sy ms s = Some (Inr ((), s'))"
    using mgr(2)
    by (simp add: plat_timer_init_def hmrs_def read_sysreg_def f_def [symmetric] g0_def [symmetric] m1 g1_def [symmetric] on_gic_def
        PPI_TIMER_INTID_EL2_def m2(1) g2_def [symmetric] hret_def m3(1) g3_def [symmetric] m4 hmsr_def hisb_def gic_sysreg_def
        gisb_def access_defs s'_def Let_def del: set_irq_ctx.simps)
  moreover have "private_config rst en cpu (hgic s') j = private_config rst en cpu g4 j" for j
    unfolding s'_def by (simp add: private_config_quiet)
  moreover have "irq_ctx ?r (hgic s') = irq_ctx ?r g3" using d4 irq_ctx_cong [of "hgic s'" g3] by (simp add: s'_def)
  then have "timer_irq_ready sy cpu mgr (hgic s')" unfolding timer_irq_ready_def Let_def ctx using m2(2,3) by simp
  moreover have "private_ready hw rst cpu (hgic s')" using r3 d4 by (simp add: s'_def private_ready_def)
  ultimately show ?thesis using m3(2-4) c4 c3
    by (intro exI [of _ s'] exI [of _ f] exI [of _ "gic_trace g4"]) (auto simp: s'_def timers_ok_def is_private_def)
qed

section \<open>Property\<close>



end
