(* ===== verification/Exception.thy ===== *)
theory Exception
  imports Timer_Init
begin

text \<open>
  The exception handlers of \<^verbatim>\<open>src/platform/aarch64/main/el2_sync.c\<close> with the syndrome fields of
  \<^verbatim>\<open>aarch64_utils.h\<close>. The functions that the \<open>handle\<close> member of an interrupt context points to are a
  parameter; \<open>image\<close> is the table of the program, in which the timer handler is at its address. \<open>dump_esr\<close>
  and \<open>aarch64_backtrace\<close> return the values they print; the printed text itself is in \<^verbatim>\<open>Exc_Report\<close>.
\<close>

section \<open>The syndrome register\<close>

definition ESR_EC :: "u64 \<Rightarrow> u64" where "ESR_EC esr = drop_bit 26 esr AND 0x3F"
definition ESR_IL :: "u64 \<Rightarrow> u64" where "ESR_IL esr = drop_bit 25 esr AND 0x1F"
definition ESR_ISS :: "u64 \<Rightarrow> u64" where "ESR_ISS esr = drop_bit 0 esr AND 0x1FFFFFF"

definition EC_DATA_ABORT_LOWER_EL :: u64 where "EC_DATA_ABORT_LOWER_EL = 0x24"
definition EC_DATA_ABORT_SAME_EL :: u64 where "EC_DATA_ABORT_SAME_EL = 0x25"

text \<open>All classes of \<open>enum EC_Type\<close>; the handlers test two of them.\<close>

definition EC_Type :: "(string \<times> u64) list" where
  "EC_Type =
    [(''EC_UNKNOWN'', 0x00), (''EC_WFI_WFE'', 0x01), (''EC_CP15_MRC_MCR'', 0x03), (''EC_CP15_MRRC'', 0x04),
     (''EC_CP14_MRC_MCR'', 0x05), (''EC_CP14_LDC_STC'', 0x06), (''EC_AARCH32_SIMD_FP'', 0x07), (''EC_AARCH64_SIMD_FP'',
     0x08), (''EC_ILLEGAL_STATE'', 0x0E), (''EC_SVC_AARCH32'', 0x11), (''EC_SVC_AARCH64'', 0x15),
     (''EC_SYS_REG_TRAP_AARCH32'', 0x12), (''EC_SYS_REG_TRAP_AARCH64'', 0x16), (''EC_INSN_ABORT_LOWER_EL'', 0x20),
     (''EC_INSN_ABORT_SAME_EL'', 0x21), (''EC_DATA_ABORT_LOWER_EL'', 0x24), (''EC_DATA_ABORT_SAME_EL'', 0x25),
     (''EC_PC_ALIGNMENT_FAULT'', 0x22), (''EC_SP_ALIGNMENT_FAULT'', 0x26), (''EC_FP_EXC_AARCH32'', 0x28),
     (''EC_FP_EXC_AARCH64'', 0x2C), (''EC_SERROR_INT'', 0x2F), (''EC_BREAKPOINT_AARCH32'', 0x30), (''EC_BREAKPOINT_AARCH64'',
     0x34), (''EC_SOFTWARE_STEP_AARCH32'', 0x31), (''EC_SOFTWARE_STEP_AARCH64'', 0x35), (''EC_WATCHPOINT_AARCH32'', 0x32),
     (''EC_WATCHPOINT_AARCH64'', 0x36), (''EC_BKPT_INSN_AARCH32'', 0x38), (''EC_VECTOR_CATCH_AARCH32'', 0x3A),
     (''EC_BKPT_INSN_AARCH64'', 0x3C)]"

lemma EC_Type_values: "map_of EC_Type ''EC_DATA_ABORT_LOWER_EL'' = Some EC_DATA_ABORT_LOWER_EL"
  "map_of EC_Type ''EC_DATA_ABORT_SAME_EL'' = Some EC_DATA_ABORT_SAME_EL"
  "distinct (map snd EC_Type)" "list_all (\<lambda>(_, v). v < 64) EC_Type"
  by (simp_all add: EC_Type_def EC_DATA_ABORT_LOWER_EL_def EC_DATA_ABORT_SAME_EL_def)

text \<open>The fields of a data abort syndrome by their first and last bit, and \<open>GET_DABT_FIELD\<close>.\<close>

datatype dabt_field = DFSC | WnR | S1PTW | CM | EA | FnV | SET | VNCR | AR | SF | SRT | SSE | SAS | ISV

fun dabt_start :: "dabt_field \<Rightarrow> nat" where
  "dabt_start DFSC = 0" | "dabt_start WnR = 6" | "dabt_start S1PTW = 7" | "dabt_start CM = 8" | "dabt_start EA = 9"
| "dabt_start FnV = 10" | "dabt_start SET = 11" | "dabt_start VNCR = 13" | "dabt_start AR = 14" | "dabt_start SF = 15"
| "dabt_start SRT = 16" | "dabt_start SSE = 19" | "dabt_start SAS = 20" | "dabt_start ISV = 24"

fun dabt_end :: "dabt_field \<Rightarrow> nat" where
  "dabt_end DFSC = 5" | "dabt_end WnR = 6" | "dabt_end S1PTW = 7" | "dabt_end CM = 8" | "dabt_end EA = 9"
| "dabt_end FnV = 10" | "dabt_end SET = 12" | "dabt_end VNCR = 13" | "dabt_end AR = 14" | "dabt_end SF = 15"
| "dabt_end SRT = 18" | "dabt_end SSE = 19" | "dabt_end SAS = 21" | "dabt_end ISV = 24"

definition GET_DABT_FIELD :: "u64 \<Rightarrow> dabt_field \<Rightarrow> u64" where
  "GET_DABT_FIELD value name =
     drop_bit (dabt_start name) value AND ucast (push_bit (dabt_end name - dabt_start name + 1) 1 - 1 :: u32)"

text \<open>What \<open>dump_esr\<close> prints: class, length, syndrome, and for a data abort five fields.\<close>

record esr_report =
  rep_ec :: u64
  rep_il32 :: bool
  rep_iss :: u64
  rep_dabt :: "(u32 \<times> bool \<times> bool \<times> bool \<times> bool) option"

definition dump_esr :: "u64 \<Rightarrow> esr_report" where
  "dump_esr esr =
     (let ec = ESR_EC esr; iss = ESR_ISS esr;
          fld = (\<lambda>n. ucast (GET_DABT_FIELD iss n) :: u32)
      in \<lparr>rep_ec = ec, rep_il32 = (ESR_IL esr \<noteq> 0), rep_iss = iss,
          rep_dabt = (if ec = EC_DATA_ABORT_LOWER_EL \<or> ec = EC_DATA_ABORT_SAME_EL
                      then Some (fld DFSC, fld WnR \<noteq> 0, fld S1PTW \<noteq> 0, fld CM \<noteq> 0, fld EA \<noteq> 0) else None)\<rparr>)"

section \<open>Backtrace\<close>

text \<open>The loop over the frames: the return addresses it prints. \<open>regs->x[29]\<close> is at offset 232.\<close>

fun backtrace_from :: "mem \<Rightarrow> addr \<Rightarrow> nat \<Rightarrow> u64 list" where
  "backtrace_from m frame_ptr 0 = []"
| "backtrace_from m frame_ptr (Suc n) =
     (if frame_ptr = NULL then []
      else load64 m (frame_ptr + 8) # backtrace_from m (load64 m frame_ptr) n)"

definition aarch64_backtrace :: "mem \<Rightarrow> addr \<Rightarrow> int \<Rightarrow> u64 list" where
  "aarch64_backtrace m regs max_frames = backtrace_from m (load64 m (regs + 8 * 29)) (nat max_frames)"

text \<open>\<open>dump_registers\<close> reads the two syndrome registers and walks ten frames.\<close>

definition dump_registers :: "hardware \<Rightarrow> addr \<Rightarrow> ('w, esr_report \<times> u64 \<times> u64 list) hrun" where
  "dump_registers hw regs s =
     (let (esr, tr) = read_esr_el2 hw (gic_trace (hgic s));
          (far, tr) = read_far_el2 hw tr;
          s = s\<lparr>hgic := (hgic s)\<lparr>gic_trace := tr\<rparr>\<rparr>
      in hret (dump_esr esr, far, aarch64_backtrace (ram s) regs 10) s)"

section \<open>The handlers\<close>

text \<open>A synchronous exception and a fast interrupt end in \<open>hang\<close>, which never returns.\<close>

definition hang :: "('w, 'a) hrun" where "hang s = None"

definition el2_dabt :: "hardware \<Rightarrow> addr \<Rightarrow> ('w, int) hrun" where
  "el2_dabt hw regs s = andthen (dump_registers hw regs s) (\<lambda>(_, s). hang s)"

definition el2_sync :: "hardware \<Rightarrow> addr \<Rightarrow> ('w, int) hrun" where
  "el2_sync hw regs s =
     (let (esr, tr) = read_esr_el2 hw (gic_trace (hgic s));
          s = s\<lparr>hgic := (hgic s)\<lparr>gic_trace := tr\<rparr>\<rparr>;
          ec = ESR_EC esr
      in if ec = EC_DATA_ABORT_LOWER_EL \<or> ec = EC_DATA_ABORT_SAME_EL
         then el2_dabt hw regs s
         else andthen (dump_registers hw regs s) (\<lambda>(_, s). hang s))"

definition el2_fiq :: "hardware \<Rightarrow> addr \<Rightarrow> ('w, int) hrun" where
  "el2_fiq hw regs s = andthen (dump_registers hw regs s) (\<lambda>(_, s). hang s)"

type_synonym 'w handlers = "addr \<Rightarrow> irq_ref \<Rightarrow> addr \<Rightarrow> ('w, int) hrun"

text \<open>\<open>el2_irq\<close>: acknowledge, look the context up, call its handler, signal the end of the interrupt.\<close>

definition el2_irq :: "'w handlers \<Rightarrow> hardware \<Rightarrow> addr \<Rightarrow> ('w, int) hrun" where
  "el2_irq handlers hw regs s =
     (let (v, s) = hmrs hw ''ICC_IAR1_EL1'' s;
          i = ucast v :: u32
      in andthen (on_gic (get_irq_context hw i) s) (\<lambda>(irq, s).
         andthen
           (case irq of
              Some r \<Rightarrow> if handle (irq_ctx r (hgic s)) \<noteq> NULL
                        then handlers (handle (irq_ctx r (hgic s))) r regs s
                        else Some (Inl (Panic ''''))
            | None \<Rightarrow> Some (Inl (Panic '''')))
           (\<lambda>(_, s). hret 0 (hmsr ''ICC_EOIR1_EL1'' (ucast i) s))))"

text \<open>The interrupt handlers the program has.\<close>

definition image :: "symbols \<Rightarrow> 'w callbacks \<Rightarrow> 'w handlers \<Rightarrow> hardware \<Rightarrow> 'w handlers" where
  "image sy cb others hw f = (if f = timer_irq_handler_at sy then timer_irq_handler cb hw else others f)"

section \<open>Properties of the decoding\<close>

fun frames :: "mem \<Rightarrow> addr \<Rightarrow> u64 list \<Rightarrow> bool" where
  "frames m fp [] \<longleftrightarrow> fp = NULL"
| "frames m fp (r # rs) \<longleftrightarrow> fp \<noteq> NULL \<and> load64 m (fp + 8) = r \<and> frames m (load64 m fp) rs"

lemma backtrace_from_frames: "frames m fp rs \<Longrightarrow> backtrace_from m fp n = take n rs"
  by (induction m fp rs arbitrary: n rule: frames.induct) (case_tac n; simp)+

lemma and_mask: "(x :: u64) AND 0x3F = take_bit 6 x" "x AND 0x1F = take_bit 5 x" "x AND 0x1FFFFFF = take_bit 25 x"
  by (simp_all add: take_bit_eq_mask mask_eq_exp_minus_1)

lemma dabt_mask: "(ucast (push_bit (dabt_end n - dabt_start n + 1) 1 - 1 :: u32) :: u64) = mask (dabt_end n - dabt_start n + 1)"
  by (cases n) (simp_all add: mask_eq_exp_minus_1)

lemma take_bit_small: "unat (x :: u64) < 2 ^ n \<Longrightarrow> take_bit n x = x"
  by (simp add: word_unat_eq_iff unsigned_take_bit_eq take_bit_nat_eq_self)

lemma esr_bits:
  assumes "esr = push_bit 26 ec OR push_bit 25 (of_bool il) OR iss" "ec < 64" "iss < 0x2000000"
  shows "bit (esr :: u64) k = (if k < 25 then bit iss k else if k = 25 then il else bit ec (k - 26))"
proof -
  have "take_bit 6 ec = ec" "take_bit 25 iss = iss"
    using assms(2,3) by (simp_all add: take_bit_small word_less_nat_alt)
  then have b: "bit ec n \<Longrightarrow> n < 6" "bit iss n \<Longrightarrow> n < 25" for n
    by (metis bit_take_bit_iff)+
  have "bit esr k \<longleftrightarrow> 26 \<le> k \<and> k < 64 \<and> bit ec (k - 26) \<or> k = 25 \<and> il \<or> bit iss k"
    unfolding assms(1) by (auto simp: bit_simps)
  with b(1) [of "k - 26"] b(2) [of k] show ?thesis by (cases "k < 25"; cases "k = 25"; force)
qed

lemma ESR_EC_of:
  assumes "esr = push_bit 26 ec OR push_bit 25 (of_bool il) OR iss" "ec < 64" "iss < 0x2000000"
  shows "ESR_EC esr = ec"
proof -
  have "take_bit 6 (drop_bit 26 esr) = take_bit 6 ec" by (rule bit_word_eqI) (auto simp: bit_simps esr_bits [OF assms])
  moreover have "take_bit 6 ec = ec" using assms(2) by (simp add: take_bit_small word_less_nat_alt)
  ultimately show ?thesis by (simp add: ESR_EC_def and_mask)
qed

text \<open>The class field tells every class of the enumeration from the others.\<close>

lemma EC_Type_decoded:
  assumes "(a, x) \<in> set EC_Type" "(b, y) \<in> set EC_Type" "iss < 0x2000000" "iss' < 0x2000000"
    and "ESR_EC (push_bit 26 x OR push_bit 25 (of_bool il) OR iss) = ESR_EC (push_bit 26 y OR push_bit 25 (of_bool il') OR iss')"
  shows "a = b"
proof -
  have "x < 64" "y < 64" using assms(1,2) EC_Type_values(4) by (auto simp: list_all_iff)
  then have "x = y" using assms(5) ESR_EC_of [OF refl _ assms(3)] ESR_EC_of [OF refl _ assms(4)] by simp
  then show ?thesis using assms(1,2) EC_Type_values(3) by (metis eq_key_imp_eq_value distinct_map inj_onD prod.inject snd_conv)
qed

lemma dabt_field_eq: "GET_DABT_FIELD v n = take_bit (dabt_end n - dabt_start n + 1) (drop_bit (dabt_start n) v)"
  unfolding GET_DABT_FIELD_def dabt_mask take_bit_eq_mask ..

text \<open>
  C40. The syndrome that \<open>dump_esr\<close> prints is decoded exactly for the exception class, the syndrome
  bits and every field of a data abort. The instruction length is not: its mask has five bits, so
  a 16-bit instruction is reported as 32 bits long for every class whose low four bits are not zero,
  in particular for data aborts.
\<close>

theorem esr_decode:
  assumes "esr = push_bit 26 ec OR push_bit 25 (of_bool il) OR iss" "ec < 64" "iss < 0x2000000"
  shows "rep_ec (dump_esr esr) = ec \<and> rep_iss (dump_esr esr) = iss \<and>
    (\<forall>n. GET_DABT_FIELD (rep_iss (dump_esr esr)) n = take_bit (dabt_end n - dabt_start n + 1) (drop_bit (dabt_start n) iss)) \<and>
    (rep_dabt (dump_esr esr) \<noteq> None \<longleftrightarrow> ec = 0x24 \<or> ec = 0x25) \<and>
    (rep_il32 (dump_esr esr) \<longleftrightarrow> il \<or> take_bit 4 ec \<noteq> 0)"
proof -
  note b = esr_bits [OF assms]
  have tk: "take_bit 6 ec = ec" "take_bit 25 iss = iss"
    using assms(2,3) by (simp_all add: take_bit_small word_less_nat_alt)
  have ec: "ESR_EC esr = ec" by (rule ESR_EC_of [OF assms])
  have iss: "ESR_ISS esr = iss"
  proof -
    have "take_bit 25 esr = take_bit 25 iss" by (rule bit_word_eqI) (auto simp: bit_simps b)
    then show ?thesis by (simp add: ESR_ISS_def and_mask tk)
  qed
  have "ESR_IL esr = 0 \<longleftrightarrow> (\<forall>n < 5. \<not> bit esr (25 + n))"
    unfolding ESR_IL_def and_mask by (auto simp: bit_eq_iff bit_simps)
  also have "\<dots> \<longleftrightarrow> \<not> il \<and> (\<forall>n < 4. \<not> bit ec n)"
  proof -
    have "(\<forall>n < 5. \<not> bit esr (25 + n)) \<longleftrightarrow> \<not> bit esr 25 \<and> (\<forall>n < 4. \<not> bit esr (26 + n))"
      by (simp add: numeral_eq_Suc All_less_Suc2)
    then show ?thesis by (simp add: b)
  qed
  also have "(\<forall>n < 4. \<not> bit ec n) \<longleftrightarrow> take_bit 4 ec = 0" by (auto simp: bit_eq_iff bit_simps)
  finally show ?thesis
    by (auto simp: dump_esr_def Let_def ec iss EC_DATA_ABORT_LOWER_EL_def EC_DATA_ABORT_SAME_EL_def
        dabt_field_eq)
qed

theorem esr_decode_witness:
  "rep_ec (dump_esr (push_bit 26 0x25 OR push_bit 25 (of_bool False) OR 0x46)) = 0x25 \<and>
   rep_il32 (dump_esr (push_bit 26 0x25 OR push_bit 25 (of_bool False) OR 0x46))"
  using esr_decode [of "push_bit 26 0x25 OR push_bit 25 (of_bool False) OR 0x46" "0x25" False "0x46"]
  by (simp add: take_bit_eq_mod)

section \<open>Interrupts\<close>

lemma set_ctx_same: "h (irq_ctx (Ppi_ref c i) g) = irq_ctx (Ppi_ref c i) g \<Longrightarrow> set_irq_ctx (Ppi_ref c i) h g = g"
  by (simp add: upd_gicr_def upd_gicd_def)

lemma ready_lookup:
  assumes "boots hw cpu" "timer_irq_ready sy cpu mgr g"
  obtains x where "get_irq_context hw 26 g = Some (Inr (Some (Ppi_ref cpu 10), g\<lparr>gic_trace := gic_trace g @ [Mrs ''MPIDR_EL1'' x]\<rparr>))"
proof (rule get_ppi_ok [OF assms(1), of 26 g])
  fix x h
  let ?r = "Ppi_ref cpu (26 - 16)"
  assume "get_ppi_context hw 26 g = Some (Inr (Some ?r, set_irq_ctx ?r h (g\<lparr>gic_trace := gic_trace g @ [Mrs ''MPIDR_EL1'' x]\<rparr>)))"
    and "intid (irq_ctx ?r g) = ucast (26 :: u32) \<Longrightarrow> ops (irq_ctx ?r g) = Some Ppi_ops \<Longrightarrow> h (irq_ctx ?r g) = irq_ctx ?r g"
  moreover from this(2) have "h (irq_ctx ?r g) = irq_ctx ?r g" using assms(2) by (simp add: timer_irq_ready_def Let_def)
  then have "set_irq_ctx ?r h (g\<lparr>gic_trace := gic_trace g @ [Mrs ''MPIDR_EL1'' x]\<rparr>) = g\<lparr>gic_trace := gic_trace g @ [Mrs ''MPIDR_EL1'' x]\<rparr>"
    by (intro set_ctx_same) simp
  ultimately show thesis using that [of x]
    by (simp add: get_irq_context_def SGI_LAST_INTID_def PPI_LAST_INTID_def del: set_irq_ctx.simps)
qed (simp add: valid_ppi_unat)

lemma el2_irq_ok:
  assumes "boots hw cpu" "timer_irq_ready sy cpu mgr (hgic s)" "mgr \<noteq> NULL" "timer_irq_handler_at sy \<noteq> NULL"
    and "ucast (sysreg_rd hw (gic_trace (hgic s)) ''ICC_IAR1_EL1'') = (26 :: u32)"
    and "timers_ok mgr s L ts" "polite cb eff (heap_region (g_miniheap s) \<union> span mgr 32)"
  shows "\<exists>s' v x f. el2_irq (image sy cb others hw) hw regs s = Some (Inr (0, s')) \<and>
    timers_ok mgr s' (without {t \<in> set ts. \<not> stays (ram s) t} L) (filter (stays (ram s)) ts) \<and>
    world s' = fold (fires eff (ram s)) ts (world s) \<and> g_counter s' = g_counter s + 1 \<and>
    (\<forall>t. t \<in> set (filter (stays (ram s)) ts) \<longrightarrow> agree (span t 40) (ram s') (ram s)) \<and>
    heap_region (g_miniheap s') = heap_region (g_miniheap s) \<and> timer_irq_ready sy cpu mgr (hgic s') \<and> gic_trace (hgic s') = gic_trace (hgic s) @
      [Mrs ''ICC_IAR1_EL1'' v, Mrs ''MPIDR_EL1'' x, Msr ''CNTHP_CTL_EL2'' 0, Msr ''CNTHP_TVAL_EL2'' 0, Barrier ''isb'',
       Mrs ''CNTFRQ_EL0'' f, Msr ''CNTHP_TVAL_EL2'' (f div 1000 * 1000), Msr ''CNTHP_CTL_EL2'' 1, Barrier ''isb'',
       Msr ''ICC_EOIR1_EL1'' 26]"
proof -
  let ?r = "Ppi_ref cpu 10"
  define v where "v = sysreg_rd hw (gic_trace (hgic s)) ''ICC_IAR1_EL1''"
  define g0 where "g0 = (hgic s)\<lparr>gic_trace := gic_trace (hgic s) @ [Mrs ''ICC_IAR1_EL1'' v]\<rparr>"
  have r0: "timer_irq_ready sy cpu mgr g0" using assms(2) by (simp add: g0_def timer_irq_ready_def)
  obtain x where look: "get_irq_context hw 26 g0 = Some (Inr (Some ?r, g0\<lparr>gic_trace := gic_trace g0 @ [Mrs ''MPIDR_EL1'' x]\<rparr>))"
    using ready_lookup [OF assms(1) r0] .
  define s1 where "s1 = s\<lparr>hgic := g0\<lparr>gic_trace := gic_trace g0 @ [Mrs ''MPIDR_EL1'' x]\<rparr>\<rparr>"
  have ctx: "handle (irq_ctx ?r (hgic s1)) = timer_irq_handler_at sy" "arg (irq_ctx ?r (hgic s1)) = mgr"
    using r0 by (simp_all add: s1_def timer_irq_ready_def Let_def)
  have ok: "timers_ok mgr s1 L ts" using assms(6) by (simp add: s1_def timers_ok_def)
  obtain s2 f where h: "timer_irq_handler cb hw ?r regs s1 = Some (Inr (0, s2))"
    "timers_ok mgr s2 (without {t \<in> set ts. \<not> stays (ram s) t} L) (filter (stays (ram s)) ts)"
    "world s2 = fold (fires eff (ram s)) ts (world s)" "g_counter s2 = g_counter s + 1" "gicd_ctx (hgic s2) = gicd_ctx (hgic s)"
    "gic_trace (hgic s2) = gic_trace (hgic s1) @ [Msr ''CNTHP_CTL_EL2'' 0, Msr ''CNTHP_TVAL_EL2'' 0, Barrier ''isb'',
      Mrs ''CNTFRQ_EL0'' f, Msr ''CNTHP_TVAL_EL2'' (f div 1000 * 1000), Msr ''CNTHP_CTL_EL2'' 1, Barrier ''isb'']"
    "\<forall>t. t \<in> set (filter (stays (ram s)) ts) \<longrightarrow> agree (span t 40) (ram s2) (ram s)" "heap_region (g_miniheap s2) = heap_region (g_miniheap s)"
    using timer_handler_ok [OF ok assms(3) ctx(2), of cb eff hw regs] assms(7) by (auto simp: s1_def g0_def)
  have "el2_irq (image sy cb others hw) hw regs s = Some (Inr (0, hmsr ''ICC_EOIR1_EL1'' 26 s2))"
    using ctx(1) assms(4,5) look h(1)
    by (simp add: el2_irq_def hmrs_def read_sysreg_def v_def [symmetric] g0_def [symmetric] on_gic_def hret_def s1_def [symmetric] image_def)
  moreover have "timer_irq_ready sy cpu mgr (hgic s2)"
    using assms(2) irq_ctx_cong [OF h(5)] by (simp add: timer_irq_ready_def del: irq_ctx.simps)
  ultimately show ?thesis using h
    by (intro exI [of _ "hmsr ''ICC_EOIR1_EL1'' 26 s2"] exI [of _ v] exI [of _ x] exI [of _ f])
      (simp add: hmsr_def gic_sysreg_def write_sysreg_def timers_ok_def timer_irq_ready_def s1_def g0_def)
qed

text \<open>
  C36. From the acknowledged timer interrupt to its end: when the interrupt controller presents
  interrupt 26, \<open>el2_irq\<close> finds the context that \<open>plat_timer_init\<close> set up and runs the timer handler
  with this processor's manager; every active timer fires once, one-shot timers are gone, the
  hardware timer is re-armed, and only then the end of interrupt 26 is signalled.
\<close>

theorem el2_irq_timer:
  assumes "boots hw cpu" "timer_irq_ready sy cpu mgr (hgic s)" "mgr \<noteq> NULL" "timer_irq_handler_at sy \<noteq> NULL"
    and "ucast (sysreg_rd hw (gic_trace (hgic s)) ''ICC_IAR1_EL1'') = (26 :: u32)"
    and "timers_ok mgr s L ts" "polite cb eff (heap_region (g_miniheap s) \<union> span mgr 32)"
  shows "\<exists>s' v x f. el2_irq (image sy cb others hw) hw regs s = Some (Inr (0, s')) \<and>
    timers_ok mgr s' (without {t \<in> set ts. \<not> stays (ram s) t} L) (filter (stays (ram s)) ts) \<and>
    world s' = fold (fires eff (ram s)) ts (world s) \<and> g_counter s' = g_counter s + 1 \<and>
    timer_irq_ready sy cpu mgr (hgic s') \<and> gic_trace (hgic s') = gic_trace (hgic s) @
      [Mrs ''ICC_IAR1_EL1'' v, Mrs ''MPIDR_EL1'' x, Msr ''CNTHP_CTL_EL2'' 0, Msr ''CNTHP_TVAL_EL2'' 0, Barrier ''isb'',
       Mrs ''CNTFRQ_EL0'' f, Msr ''CNTHP_TVAL_EL2'' (f div 1000 * 1000), Msr ''CNTHP_CTL_EL2'' 1, Barrier ''isb'',
       Msr ''ICC_EOIR1_EL1'' 26]"
  using el2_irq_ok [OF assms, of others regs] by blast

definition irq_hw :: "u64 \<Rightarrow> hardware" where
  "irq_hw i = (mem_hw 0)\<lparr>sysreg_rd := \<lambda>tr r. if r = ''ICC_IAR1_EL1'' then i else 0\<rparr>"

lemma irq_hw_boots: "boots (irq_hw i) 0"
  by (simp add: boots_def irq_hw_def mem_hw_def)

theorem el2_irq_timer_witness:
  "\<exists>s t c s'. timers_ok 0x5000 s {(t, c)} [t] \<and>
     el2_irq (image demo_symbols (\<lambda>f t a s. Some (Inr (s\<lparr>world := a # world s\<rparr>))) (\<lambda>_ _ _ _. None) (irq_hw 26)) (irq_hw 26) 0 s = Some (Inr (0, s')) \<and>
     timers_ok 0x5000 s' {} [] \<and> world s' = [7]"
proof -
  obtain t c and s0 :: "u64 list hyper" where s0: "timers_ok 0x5000 s0 {(t, c)} [t]" "is_active (ram s0) t" "\<not> is_periodic (ram s0) t"
    "callback (ram s0) t = 0x9000" "timer_arg (ram s0) t = 7" "world s0 = []" using demo_started by blast
  define s where "s = s0\<lparr>hgic := set_irq_ctx (Ppi_ref 0 10) (\<lambda>x. x\<lparr>intid := 26, handle := 0x8000, arg := 0x5000, ops := Some Ppi_ops\<rparr>) zero_gic\<rparr>"
  have s: "timers_ok 0x5000 s {(t, c)} [t]" "is_active (ram s) t" "\<not> is_periodic (ram s) t"
    "callback (ram s) t = 0x9000" "timer_arg (ram s) t = 7" "world s = []" using s0 by (simp_all add: s_def timers_ok_def)
  let ?cb = "\<lambda>f t a (s :: u64 list hyper). Some (Inr (s\<lparr>world := a # world s\<rparr>)) :: u64 list hyper outcome option"
  have p: "polite ?cb (\<lambda>f t a w. a # w) U" for U by (rule demo_polite)
  have r: "timer_irq_ready demo_symbols 0 0x5000 (hgic s)"
    by (simp add: s_def timer_irq_ready_def demo_symbols_def upd_gicr_def upd_gicd_def Let_def)
  have "56 \<le> c" using s(1) by (auto simp: timers_ok_def)
  then have "without {u \<in> set [t]. \<not> stays (ram s) u} {(t, c)} = {}" using s(2,3) by (auto simp: without_def stays_def)
  then show ?thesis
    using el2_irq_timer [OF irq_hw_boots r _ _ _ s(1) p, where others = "\<lambda>_ _ _ _. None" and regs = 0, of 26] s
    by (auto simp: stays_def fires_def demo_symbols_def irq_hw_def)
qed



end
