(* ===== verification/Pl011.thy ===== *)
theory Pl011
  imports Mmio
begin

text \<open>
  The UART driver of \<^verbatim>\<open>src/platform/aarch64/driver/pl011/pl011.c\<close>. Each busy-waiting loop polls the
  flag register of a device it cannot see into: it is a partial function, and it is shown both that
  it returns when the flag changes eventually and what it has done when it returns.
\<close>

definition PL011_DR :: addr where "PL011_DR = 0x00"
definition PL011_FR :: addr where "PL011_FR = 0x18"
definition PL011_IBRD :: addr where "PL011_IBRD = 0x24"
definition PL011_FBRD :: addr where "PL011_FBRD = 0x28"
definition PL011_LCRH :: addr where "PL011_LCRH = 0x2C"
definition PL011_CR :: addr where "PL011_CR = 0x30"
definition PL011_IMSC :: addr where "PL011_IMSC = 0x38"

definition PL011_FR_RXFE :: u32 where "PL011_FR_RXFE = push_bit 4 1"
definition PL011_FR_TXFF :: u32 where "PL011_FR_TXFF = push_bit 5 1"
definition PL011_FR_TXFE :: u32 where "PL011_FR_TXFE = push_bit 7 1"
definition PL011_LCRH_FEN :: u32 where "PL011_LCRH_FEN = push_bit 4 1"
definition PL011_LCRH_WLEN_8 :: u32 where "PL011_LCRH_WLEN_8 = push_bit 5 3"
definition PL011_INTRX_ENABLED :: u32 where "PL011_INTRX_ENABLED = push_bit 4 1"
definition PL011_INTTX_ENABLED :: u32 where "PL011_INTTX_ENABLED = push_bit 5 1"

definition PL011_BASE_ADDR :: addr where "PL011_BASE_ADDR = 0x09000000"

text \<open>The state of the driver: \<open>g_pl011_base_addr\<close> and the trace of its accesses.\<close>

record pl011 =
  g_pl011_base_addr :: addr
  pl_trace :: trace

definition REG :: "pl011 \<Rightarrow> addr \<Rightarrow> addr" where
  "REG s off = g_pl011_base_addr s + off"

definition reg_write :: "addr \<Rightarrow> u32 \<Rightarrow> pl011 \<Rightarrow> pl011" where
  "reg_write off v s = s\<lparr>pl_trace := write32 (pl_trace s) (REG s off) v\<rparr>"

definition reg_read :: "hardware \<Rightarrow> addr \<Rightarrow> pl011 \<Rightarrow> u32 \<times> pl011" where
  "reg_read hw off s =
     (let (v, tr) = read32 hw (pl_trace s) (REG s off) in (v, s\<lparr>pl_trace := tr\<rparr>))"

definition pl011_init :: "addr \<Rightarrow> pl011 \<Rightarrow> pl011" where
  "pl011_init base_addr s =
     (let s = s\<lparr>g_pl011_base_addr := base_addr\<rparr>;
          s = reg_write PL011_CR 0 s;
          s = reg_write PL011_IMSC 0 s;
          s = reg_write PL011_IMSC (PL011_INTRX_ENABLED OR PL011_INTTX_ENABLED) s;
          s = reg_write PL011_LCRH (PL011_LCRH_FEN OR PL011_LCRH_WLEN_8) s;
          s = reg_write PL011_IBRD 27 s;
          s = reg_write PL011_FBRD 8 s
      in reg_write PL011_CR (push_bit 0 1 OR push_bit 8 1 OR push_bit 9 1) s)"

text \<open>\<open>while (busy(*REG(PL011_FR)));\<close>\<close>

definition wait_fr :: "hardware \<Rightarrow> (u32 \<Rightarrow> bool) \<Rightarrow> pl011 \<Rightarrow> pl011 option" where
  "wait_fr hw busy s = map_option (\<lambda>tr. s\<lparr>pl_trace := tr\<rparr>) (poll hw (REG s PL011_FR) busy (pl_trace s))"

definition tx_busy :: "u32 \<Rightarrow> bool" where "tx_busy v \<longleftrightarrow> v AND PL011_FR_TXFF \<noteq> 0"
definition rx_busy :: "u32 \<Rightarrow> bool" where "rx_busy v \<longleftrightarrow> v AND PL011_FR_RXFE \<noteq> 0"
definition flush_busy :: "u32 \<Rightarrow> bool" where "flush_busy v \<longleftrightarrow> \<not> v AND PL011_FR_TXFE \<noteq> 0"

definition pl011_putchar :: "hardware \<Rightarrow> u32 \<Rightarrow> pl011 \<Rightarrow> pl011 option" where
  "pl011_putchar hw c s = map_option (reg_write PL011_DR c) (wait_fr hw tx_busy s)"

definition pl011_getchar :: "hardware \<Rightarrow> pl011 \<Rightarrow> (int \<times> pl011) option" where
  "pl011_getchar hw s =
     map_option (\<lambda>s. let (v, s) = reg_read hw PL011_DR s in (uint (v AND 0xFF), s)) (wait_fr hw rx_busy s)"

definition pl011_flush :: "hardware \<Rightarrow> pl011 \<Rightarrow> pl011 option" where
  "pl011_flush hw s = wait_fr hw flush_busy s"

lemma wait_fr_cases:
  obtains (returns) n where "\<not> busy (seen hw (REG s PL011_FR) (pl_trace s) n)"
    "\<forall>k < n. busy (seen hw (REG s PL011_FR) (pl_trace s) k)"
    "wait_fr hw busy s = Some (s\<lparr>pl_trace := polls hw (REG s PL011_FR) (pl_trace s) (Suc n)\<rparr>)"
  | (hangs) "\<forall>n. busy (seen hw (REG s PL011_FR) (pl_trace s) n)" "wait_fr hw busy s = None"
  by (cases rule: poll_cases [of busy hw "REG s PL011_FR" "pl_trace s"]) (auto simp: wait_fr_def simp del: polls.simps)

section \<open>Properties\<close>

text \<open>
  C28. \<open>pl011_putchar\<close> returns exactly when the transmit FIFO stops being full after finitely many
  polls; it then has read the flag register until the first value without \<open>TXFF\<close> and after that
  written the character to the data register, once, and nothing else: it never writes to a full FIFO.
\<close>

theorem pl011_putchar_waits:
  "(case pl011_putchar hw c s of
      None \<Rightarrow> \<forall>n. tx_busy (seen hw (REG s PL011_FR) (pl_trace s) n)
    | Some s' \<Rightarrow> \<exists>n. (\<forall>k < n. tx_busy (seen hw (REG s PL011_FR) (pl_trace s) k)) \<and>
        \<not> tx_busy (seen hw (REG s PL011_FR) (pl_trace s) n) \<and>
        pl_trace s' = polls hw (REG s PL011_FR) (pl_trace s) (Suc n) @ [Wr32 (REG s PL011_DR) c])"
proof (cases rule: wait_fr_cases [where busy = tx_busy and hw = hw and s = s])
  case (returns n)
  then show ?thesis
    by (auto simp: pl011_putchar_def reg_write_def write32_def REG_def simp del: polls.simps)
next
  case hangs
  then show ?thesis by (simp add: pl011_putchar_def)
qed

definition idle_hw :: hardware where
  "idle_hw = \<lparr>mmio_rd = (\<lambda>_ _. 0), mmio_rd64 = (\<lambda>_ _. 0), sysreg_rd = (\<lambda>_ _. 0), NR_CPU = 1, HZ = 250\<rparr>"

definition demo_uart :: pl011 where
  "demo_uart = \<lparr>g_pl011_base_addr = PL011_BASE_ADDR, pl_trace = []\<rparr>"

theorem pl011_putchar_waits_witness:
  "\<exists>s'. pl011_putchar idle_hw 65 demo_uart = Some s' \<and> writes_to (REG demo_uart PL011_DR) (pl_trace s') = [65]"
proof -
  have "\<not> tx_busy 0" by (simp add: tx_busy_def)
  then show ?thesis
    using pl011_putchar_waits [where hw = idle_hw and c = 65 and s = demo_uart]
    by (auto simp: seen_def idle_hw_def demo_uart_def simp del: polls.simps split: option.splits)
qed

text \<open>
  \<open>pl011_init\<close> programs the UART while it is disabled: the control register is written 0 first and
  enabled last, with 8-bit words and FIFOs on and the baud rate divisors in between, all at the
  new base address.
\<close>

theorem pl011_init_sequence:
  "pl_trace (pl011_init b s) = pl_trace s @
     [Wr32 (b + 0x30) 0, Wr32 (b + 0x38) 0, Wr32 (b + 0x38) 0x30, Wr32 (b + 0x2C) 0x70,
      Wr32 (b + 0x24) 27, Wr32 (b + 0x28) 8, Wr32 (b + 0x30) 0x301] \<and>
   g_pl011_base_addr (pl011_init b s) = b"
  by (simp add: pl011_init_def reg_write_def write32_def REG_def Let_def
      PL011_CR_def PL011_IMSC_def PL011_LCRH_def PL011_IBRD_def PL011_FBRD_def
      PL011_INTRX_ENABLED_def PL011_INTTX_ENABLED_def PL011_LCRH_FEN_def PL011_LCRH_WLEN_8_def)

end
