(* ===== verification/Console.thy ===== *)
theory Console
  imports CString Pl011
begin

text \<open>
  The console layer of \<^verbatim>\<open>src/src/libc/console.c\<close>: a table of consoles (the linker section between
  \<open>__start___console\<close> and \<open>__stop___console\<close>), each with an optional table of optional functions.
  A function pointer is a function on the state \<open>'w\<close> of the devices that may not return; the console
  it is called with is an index of the table. Names are strings in memory. The end of the theory
  registers the UART driver, as \<open>CONSOLE_REGISTER(pl011, 0, &s_pl011_ops)\<close> does.
\<close>

section \<open>Data\<close>

record 'w console_ops =
  op_init :: "(nat \<Rightarrow> 'w \<Rightarrow> (int \<times> 'w) option) option"
  op_putc :: "(nat \<Rightarrow> u32 \<Rightarrow> 'w \<Rightarrow> (int \<times> 'w) option) option"
  op_getc :: "(nat \<Rightarrow> 'w \<Rightarrow> (int \<times> 'w) option) option"
  op_flush :: "(nat \<Rightarrow> 'w \<Rightarrow> (int \<times> 'w) option) option"

text \<open>The bit fields \<open>stage\<close> and \<open>flags\<close> of \<open>struct console\<close> are never read or written and are left out.\<close>

record 'w console =
  con_id :: u32
  con_enabled :: bool
  con_name :: addr
  con_ops :: "'w console_ops option"

section \<open>Looking consoles up\<close>

text \<open>The index of the console found; \<open>Some None\<close> is \<open>NULL\<close>, \<open>None\<close> a comparison that does not end.\<close>

fun find_console_from :: "mem \<Rightarrow> addr \<Rightarrow> nat \<Rightarrow> 'w console list \<Rightarrow> nat option option" where
  "find_console_from m name i [] = Some None"
| "find_console_from m name i (c # cs) =
     (case strcmp m (con_name c) name of
        None \<Rightarrow> None
      | Some r \<Rightarrow> if r = 0 then Some (Some i) else find_console_from m name (Suc i) cs)"

definition find_console :: "mem \<Rightarrow> 'w console list \<Rightarrow> addr \<Rightarrow> nat option option" where
  "find_console m cs name = find_console_from m name 0 cs"

fun find_id_from :: "u32 \<Rightarrow> nat \<Rightarrow> 'w console list \<Rightarrow> nat option" where
  "find_id_from k i [] = None"
| "find_id_from k i (c # cs) = (if con_id c = k then Some i else find_id_from k (Suc i) cs)"

definition find_console_by_id :: "'w console list \<Rightarrow> u32 \<Rightarrow> nat option" where
  "find_console_by_id cs k = find_id_from k 0 cs"

section \<open>Operations on one console\<close>

text \<open>\<open>console && console->ops && console->ops->op\<close>: the function to call, if any.\<close>

definition the_op :: "('w console_ops \<Rightarrow> 'f option) \<Rightarrow> 'w console list \<Rightarrow> nat option \<Rightarrow> 'f option" where
  "the_op sel cs con = Option.bind con (\<lambda>i. Option.bind (con_ops (cs ! i)) sel)"

definition console_putc :: "'w console list \<Rightarrow> nat option \<Rightarrow> u32 \<Rightarrow> 'w \<Rightarrow> (int \<times> 'w) option" where
  "console_putc cs con c w =
     (case the_op op_putc cs con of Some f \<Rightarrow> f (the con) c w | None \<Rightarrow> Some (- ENODEV, w))"

definition console_getc :: "'w console list \<Rightarrow> nat option \<Rightarrow> 'w \<Rightarrow> (int \<times> 'w) option" where
  "console_getc cs con w =
     (case the_op op_getc cs con of Some f \<Rightarrow> f (the con) w | None \<Rightarrow> Some (- ENODEV, w))"

definition console_flush :: "'w console list \<Rightarrow> nat option \<Rightarrow> 'w \<Rightarrow> (int \<times> 'w) option" where
  "console_flush cs con w =
     (case the_op op_flush cs con of Some f \<Rightarrow> f (the con) w | None \<Rightarrow> Some (- ENODEV, w))"

definition set_enabled :: "'w console list \<Rightarrow> nat \<Rightarrow> bool \<Rightarrow> 'w console list" where
  "set_enabled cs i b = cs[i := (cs ! i)\<lparr>con_enabled := b\<rparr>]"

definition console_init :: "'w console list \<Rightarrow> nat option \<Rightarrow> 'w \<Rightarrow> (int \<times> 'w console list \<times> 'w) option" where
  "console_init cs con w =
     (case the_op op_init cs con of
        Some f \<Rightarrow>
          map_option (\<lambda>(ret, w). (ret, if ret = 0 then set_enabled cs (the con) True else cs, w)) (f (the con) w)
      | None \<Rightarrow> Some (- ENODEV, cs, w))"

section \<open>Operations on all consoles\<close>

text \<open>The loop over the table: it calls \<open>op\<close> of every enabled console that has it and stops at the first failure.\<close>

fun console_all :: "('w console_ops \<Rightarrow> (nat \<Rightarrow> 'w \<Rightarrow> (int \<times> 'w) option) option) \<Rightarrow> nat \<Rightarrow> 'w console list \<Rightarrow>
    int \<Rightarrow> 'w \<Rightarrow> (int \<times> 'w) option" where
  "console_all sel i [] ret w = Some (ret, w)"
| "console_all sel i (c # cs) ret w =
     (case (if con_enabled c then Option.bind (con_ops c) sel else None) of
        None \<Rightarrow> console_all sel (Suc i) cs ret w
      | Some f \<Rightarrow>
          (case f i w of
             None \<Rightarrow> None
           | Some (ret, w) \<Rightarrow> if ret \<noteq> 0 then Some (ret, w) else console_all sel (Suc i) cs ret w))"

definition console_putc_all :: "'w console list \<Rightarrow> u32 \<Rightarrow> 'w \<Rightarrow> (int \<times> 'w) option" where
  "console_putc_all cs c w = console_all (\<lambda>ops. map_option (\<lambda>f i. f i c) (op_putc ops)) 0 cs 0 w"

definition console_flush_all :: "'w console list \<Rightarrow> 'w \<Rightarrow> (int \<times> 'w) option" where
  "console_flush_all cs w = console_all op_flush 0 cs 0 w"

definition putchar :: "'w console list \<Rightarrow> u32 \<Rightarrow> 'w \<Rightarrow> (u32 \<times> 'w) option" where
  "putchar cs c w = map_option (\<lambda>(_, w). (c, w)) (console_putc_all cs c w)"

partial_function (option) puts_from :: "'w console list \<Rightarrow> mem \<Rightarrow> addr \<Rightarrow> int \<Rightarrow> 'w \<Rightarrow> (int \<times> 'w) option" where
  "puts_from cs m s count w =
     (if load8 m s = 0 then Some (count, w)
      else Option.bind (putchar cs (ucast (load8 m s)) w) (\<lambda>(_, w). puts_from cs m (s + 1) (count + 1) w))"

definition puts :: "'w console list \<Rightarrow> mem \<Rightarrow> addr \<Rightarrow> 'w \<Rightarrow> (int \<times> 'w) option" where
  "puts cs m s w = puts_from cs m s 0 w"

definition fflush :: "'w console list \<Rightarrow> 'w \<Rightarrow> (int \<times> 'w) option" where
  "fflush cs w = map_option (\<lambda>(_, w). (0, w)) (console_flush_all cs w)"

section \<open>Enabling and disabling\<close>

definition console_disable :: "mem \<Rightarrow> 'w console list \<Rightarrow> addr \<Rightarrow> (int \<times> 'w console list) option" where
  "console_disable m cs name =
     map_option (\<lambda>con. case con of None \<Rightarrow> (- ENOENT, cs) | Some i \<Rightarrow> (0, set_enabled cs i False)) (find_console m cs name)"

definition console_enable :: "mem \<Rightarrow> 'w console list \<Rightarrow> addr \<Rightarrow> (int \<times> 'w console list) option" where
  "console_enable m cs name =
     map_option (\<lambda>con. case con of None \<Rightarrow> (- ENOENT, cs) | Some i \<Rightarrow> (0, set_enabled cs i True)) (find_console m cs name)"

definition console_disable_by_id :: "'w console list \<Rightarrow> u32 \<Rightarrow> int \<times> 'w console list" where
  "console_disable_by_id cs k =
     (case find_console_by_id cs k of None \<Rightarrow> (- ENOENT, cs) | Some i \<Rightarrow> (0, set_enabled cs i False))"

section \<open>The UART console\<close>

definition pl011_op_init :: "nat \<Rightarrow> pl011 \<Rightarrow> (int \<times> pl011) option" where
  "pl011_op_init con s = Some (0, pl011_init PL011_BASE_ADDR s)"

definition pl011_op_putc :: "hardware \<Rightarrow> nat \<Rightarrow> u32 \<Rightarrow> pl011 \<Rightarrow> (int \<times> pl011) option" where
  "pl011_op_putc hw con c s = map_option (\<lambda>s. (0, s)) (pl011_putchar hw c s)"

definition pl011_op_getc :: "hardware \<Rightarrow> nat \<Rightarrow> pl011 \<Rightarrow> (int \<times> pl011) option" where
  "pl011_op_getc hw con s = pl011_getchar hw s"

definition pl011_op_flush :: "hardware \<Rightarrow> nat \<Rightarrow> pl011 \<Rightarrow> (int \<times> pl011) option" where
  "pl011_op_flush hw con s = map_option (\<lambda>s. (0, s)) (pl011_flush hw s)"

definition s_pl011_ops :: "hardware \<Rightarrow> pl011 console_ops" where
  "s_pl011_ops hw = \<lparr>op_init = Some pl011_op_init, op_putc = Some (pl011_op_putc hw),
     op_getc = Some (pl011_op_getc hw), op_flush = Some (pl011_op_flush hw)\<rparr>"

definition pl011_console :: "hardware \<Rightarrow> addr \<Rightarrow> pl011 console" where
  "pl011_console hw name = \<lparr>con_id = 0, con_enabled = False, con_name = name, con_ops = Some (s_pl011_ops hw)\<rparr>"

text \<open>Printing a sequence of characters with \<open>putchar\<close>, as \<open>vprintf\<close> does.\<close>

fun emit :: "'w console list \<Rightarrow> u32 list \<Rightarrow> 'w \<Rightarrow> 'w option" where
  "emit cs [] w = Some w"
| "emit cs (c # out) w = Option.bind (putchar cs c w) (\<lambda>(_, w). emit cs out w)"

section \<open>Lookup by name\<close>

lemma cstr_unique: "cstr m s xs \<Longrightarrow> cstr m s ys \<Longrightarrow> xs = ys"
proof (induction xs arbitrary: s ys)
  case (Cons x xs)
  then show ?case by (cases ys) auto
next
  case Nil
  then show ?case by (cases ys) auto
qed

definition named :: "mem \<Rightarrow> 'w console list \<Rightarrow> bool" where
  "named m cs \<longleftrightarrow> (\<forall>c \<in> set cs. \<exists>xs. cstr m (con_name c) xs)"

lemma find_console_from_correct:
  assumes "named m cs" "cstr m name ys"
  shows "(\<exists>k. find_console_from m name i cs = Some (Some (i + k)) \<and> k < length cs \<and> cstr m (con_name (cs ! k)) ys \<and>
       (\<forall>j < k. \<not> cstr m (con_name (cs ! j)) ys)) \<or>
    (find_console_from m name i cs = Some None \<and> (\<forall>c \<in> set cs. \<not> cstr m (con_name c) ys))"
  using assms(1)
proof (induction cs arbitrary: i)
  case (Cons c cs)
  then obtain xs where xs: "cstr m (con_name c) xs" by (auto simp: named_def)
  obtain r where r: "strcmp m (con_name c) name = Some r" "r = 0 \<longleftrightarrow> xs = ys"
    using strcmp_cstr [OF xs assms(2)] by blast
  have eq: "cstr m (con_name c) ys \<longleftrightarrow> xs = ys" using xs cstr_unique by blast
  show ?case
  proof (cases "xs = ys")
    case True
    then show ?thesis using r eq by (intro disjI1 exI [of _ 0]) auto
  next
    case False
    have "named m cs" using Cons.prems by (simp add: named_def)
    from Cons.IH [OF this, of "Suc i"] show ?thesis
    proof (elim disjE exE conjE)
      fix k assume k: "find_console_from m name (Suc i) cs = Some (Some (Suc i + k))" "k < length cs"
        "cstr m (con_name (cs ! k)) ys" "\<forall>j<k. \<not> cstr m (con_name (cs ! j)) ys"
      have "\<forall>j < Suc k. \<not> cstr m (con_name ((c # cs) ! j)) ys"
        using k(4) False eq by (auto simp: less_Suc_eq_0_disj)
      with k r False show ?thesis by (intro disjI1 exI [of _ "Suc k"]) auto
    next
      assume "find_console_from m name (Suc i) cs = Some None" "\<forall>c \<in> set cs. \<not> cstr m (con_name c) ys"
      with r False eq show ?thesis by auto
    qed
  qed
qed simp

lemma set_enabled_nth: "j < length cs \<Longrightarrow> set_enabled cs i b ! j = (if j = i then (cs ! j)\<lparr>con_enabled := b\<rparr> else cs ! j)"
  by (cases "i < length cs") (auto simp: set_enabled_def nth_list_update)

section \<open>One enabled console\<close>

definition only_uart :: "hardware \<Rightarrow> pl011 console list \<Rightarrow> nat \<Rightarrow> bool" where
  "only_uart hw cs i \<longleftrightarrow> i < length cs \<and> con_ops (cs ! i) = Some (s_pl011_ops hw) \<and>
     (\<forall>j < length cs. con_enabled (cs ! j) \<longleftrightarrow> j = i)"

definition uart_drains :: "hardware \<Rightarrow> addr \<Rightarrow> bool" where
  "uart_drains hw b \<longleftrightarrow> (\<forall>tr. \<exists>n. \<not> tx_busy (seen hw (b + PL011_FR) tr n))"

text \<open>The FIFO gets empty, which \<open>fflush\<close> waits for.\<close>

definition uart_empties :: "hardware \<Rightarrow> addr \<Rightarrow> bool" where
  "uart_empties hw b \<longleftrightarrow> (\<forall>tr. \<exists>n. \<not> flush_busy (seen hw (b + PL011_FR) tr n))"

lemma console_all_disabled:
  "\<forall>c \<in> set cs. \<not> con_enabled c \<Longrightarrow> console_all sel i cs ret w = Some (ret, w)"
  by (induction cs arbitrary: i) auto

lemma console_all_one:
  assumes "k < length cs" "\<forall>j < length cs. con_enabled (cs ! j) \<longleftrightarrow> j = k" "Option.bind (con_ops (cs ! k)) sel = Some f"
    "f (i + k) w = Some (0, w')"
  shows "console_all sel i cs ret w = Some (0, w')"
  using assms
proof (induction cs arbitrary: i k)
  case (Cons c cs)
  show ?case
  proof (cases k)
    case 0
    have "\<forall>c \<in> set cs. \<not> con_enabled c"
      using Cons.prems(2) 0 by (auto simp: in_set_conv_nth) (metis Suc_less_eq Zero_not_Suc length_Cons nth_Cons_Suc)
    moreover have "con_enabled c" using Cons.prems(2) 0 by auto
    ultimately show ?thesis using Cons.prems 0 by (simp add: console_all_disabled)
  next
    case (Suc k')
    have "\<not> con_enabled c" using Cons.prems(2) Suc by auto
    moreover have "console_all sel (Suc i) cs ret w = Some (0, w')"
    proof (rule Cons.IH)
      show "\<forall>j < length cs. con_enabled (cs ! j) \<longleftrightarrow> j = k'" using Cons.prems(2) Suc by auto
    qed (use Cons.prems Suc in auto)
    ultimately show ?thesis by simp
  qed
qed simp

lemma putchar_uart:
  assumes "only_uart hw cs i" "uart_drains hw (g_pl011_base_addr s)"
  shows "\<exists>s'. putchar cs c s = Some (c, s') \<and> g_pl011_base_addr s' = g_pl011_base_addr s \<and>
    writes_to (REG s PL011_DR) (pl_trace s') = writes_to (REG s PL011_DR) (pl_trace s) @ [c]"
proof (cases rule: wait_fr_cases [where busy = tx_busy and hw = hw and s = s])
  case (returns n)
  let ?s = "reg_write PL011_DR c (s\<lparr>pl_trace := polls hw (REG s PL011_FR) (pl_trace s) (Suc n)\<rparr>)"
  have "pl011_op_putc hw (0 + i) c s = Some (0, ?s)" using returns(3) by (simp add: pl011_op_putc_def pl011_putchar_def)
  then have "console_putc_all cs c s = Some (0, ?s)"
    unfolding console_putc_all_def using assms(1)
    by (intro console_all_one [where f = "\<lambda>i. pl011_op_putc hw i c"]) (auto simp: only_uart_def s_pl011_ops_def)
  then show ?thesis
    by (simp add: putchar_def reg_write_def write32_def REG_def del: polls.simps)
next
  case hangs
  then show ?thesis using assms(2) by (auto simp: uart_drains_def REG_def)
qed

lemma fflush_uart:
  assumes "only_uart hw cs i" "uart_empties hw (g_pl011_base_addr s)"
  shows "\<exists>s'. fflush cs s = Some (0, s') \<and> g_pl011_base_addr s' = g_pl011_base_addr s \<and> writes_to a (pl_trace s') = writes_to a (pl_trace s)"
proof (cases rule: wait_fr_cases [where busy = flush_busy and hw = hw and s = s])
  case (returns n)
  let ?s = "s\<lparr>pl_trace := polls hw (REG s PL011_FR) (pl_trace s) (Suc n)\<rparr>"
  have "pl011_op_flush hw (0 + i) s = Some (0, ?s)" using returns(3) by (simp add: pl011_op_flush_def pl011_flush_def)
  then have "console_flush_all cs s = Some (0, ?s)"
    unfolding console_flush_all_def using assms(1)
    by (intro console_all_one [where f = "pl011_op_flush hw"]) (auto simp: only_uart_def s_pl011_ops_def)
  then show ?thesis by (simp add: fflush_def del: polls.simps)
next
  case hangs
  then show ?thesis using assms(2) by (auto simp: uart_empties_def REG_def)
qed

lemma emit_uart:
  assumes "only_uart hw cs i" "uart_drains hw (g_pl011_base_addr s)"
  shows "\<exists>s'. emit cs out s = Some s' \<and> g_pl011_base_addr s' = g_pl011_base_addr s \<and>
    writes_to (REG s PL011_DR) (pl_trace s') = writes_to (REG s PL011_DR) (pl_trace s) @ out"
  using assms(2)
proof (induction out arbitrary: s)
  case (Cons c out)
  obtain s1 where s1: "putchar cs c s = Some (c, s1)" "g_pl011_base_addr s1 = g_pl011_base_addr s"
    "writes_to (REG s PL011_DR) (pl_trace s1) = writes_to (REG s PL011_DR) (pl_trace s) @ [c]"
    using putchar_uart [OF assms(1) Cons.prems] by blast
  moreover have "REG s1 PL011_DR = REG s PL011_DR" using s1(2) by (simp add: REG_def)
  ultimately show ?case using Cons.IH [of s1] Cons.prems by auto
qed simp

lemma puts_from_emit:
  "cstr m p xs \<Longrightarrow> puts_from cs m p count w = map_option (\<lambda>w. (count + int (length xs), w)) (emit cs (map ucast xs) w)"
proof (induction xs arbitrary: p count w)
  case Nil
  then show ?case by (subst puts_from.simps) (simp add: load8_def)
next
  case (Cons x xs)
  then show ?case
    by (subst puts_from.simps)
      (auto simp: load8_def map_option_bind algebra_simps split: prod.splits intro!: Option.bind_cong)
qed

section \<open>Properties\<close>

text \<open>
  \<open>console_enable\<close> and \<open>console_disable\<close> act on the first console whose name equals the given string,
  set its \<open>enabled\<close> bit and change nothing else; if no console has that name they return \<open>-ENOENT\<close>
  and change nothing. The search ends because every name is a terminated string.
\<close>

theorem console_switch_by_name:
  assumes "named m cs" "cstr m name ys"
  shows "(\<exists>k < length cs. cstr m (con_name (cs ! k)) ys \<and> (\<forall>j < k. \<not> cstr m (con_name (cs ! j)) ys) \<and>
      console_disable m cs name = Some (0, set_enabled cs k False) \<and>
      console_enable m cs name = Some (0, set_enabled cs k True) \<and>
      (\<forall>b. \<forall>j < length cs. set_enabled cs k b ! j = (if j = k then (cs ! j)\<lparr>con_enabled := b\<rparr> else cs ! j))) \<or>
    ((\<forall>c \<in> set cs. \<not> cstr m (con_name c) ys) \<and>
      console_disable m cs name = Some (- ENOENT, cs) \<and> console_enable m cs name = Some (- ENOENT, cs))"
  using find_console_from_correct [OF assms, of 0]
  by (auto simp: console_disable_def console_enable_def find_console_def set_enabled_nth)

text \<open>
  What \<open>puts\<close> prints arrives at the UART: with the UART as the only enabled console and a transmit
  FIFO that always drains, \<open>puts\<close> returns the length of the string and the data register has been
  written exactly the bytes of the string, in order.
\<close>

theorem puts_reaches_uart:
  assumes "cstr m p xs" "only_uart hw cs i" "uart_drains hw (g_pl011_base_addr s)"
  shows "\<exists>s'. puts cs m p s = Some (int (length xs), s') \<and>
    writes_to (REG s PL011_DR) (pl_trace s') = writes_to (REG s PL011_DR) (pl_trace s) @ map ucast xs"
  using emit_uart [OF assms(2,3), of "map ucast xs"] puts_from_emit [OF assms(1), of cs 0 s]
  by (auto simp: puts_def)

lemma idle_drains: "uart_drains idle_hw b"
  by (auto simp: uart_drains_def seen_def idle_hw_def tx_busy_def)

definition demo_consoles :: "pl011 console list" where
  "demo_consoles = [(pl011_console idle_hw 0x200)\<lparr>con_enabled := True\<rparr>]"

lemma demo_only_uart: "only_uart idle_hw demo_consoles 0"
  by (simp add: only_uart_def demo_consoles_def pl011_console_def)

theorem console_switch_by_name_witness:
  "named demo_text demo_consoles \<and> cstr demo_text 0x200 [97, 99] \<and>
   console_disable demo_text demo_consoles 0x200 = Some (0, set_enabled demo_consoles 0 False)"
proof -
  have n: "named demo_text demo_consoles"
    using demo_cstr(2) by (auto simp: named_def demo_consoles_def pl011_console_def simp del: cstr.simps)
  have c: "cstr demo_text (con_name (demo_consoles ! 0)) [97, 99]"
    using demo_cstr(2) by (simp add: demo_consoles_def pl011_console_def del: cstr.simps)
  have l: "length demo_consoles = 1" by (simp add: demo_consoles_def)
  have "\<exists>c \<in> set demo_consoles. cstr demo_text (con_name c) [97, 99]" using c l by (metis nth_mem zero_less_one)
  then show ?thesis
    using console_switch_by_name [OF n demo_cstr(2)] n demo_cstr(2) l by (auto simp del: cstr.simps)
qed

theorem puts_reaches_uart_witness:
  "\<exists>s'. puts demo_consoles demo_text 0x200 demo_uart = Some (2, s') \<and> writes_to 0x9000000 (pl_trace s') = [97, 99]"
  using puts_reaches_uart [OF demo_cstr(2) demo_only_uart idle_drains, of demo_uart]
  by (auto simp: demo_uart_def REG_def PL011_BASE_ADDR_def PL011_DR_def)

end
