(* ===== verification/Exc_Report.thy ===== *)
theory Exc_Report
  imports Text Exception Console
begin

text \<open>
  What the exception handlers of \<^verbatim>\<open>src/platform/aarch64/main/el2_sync.c\<close> and \<open>panic\<close> print, and
  \<open>gicv3_show_distributor\<close>. \<^verbatim>\<open>Exception\<close> has the decisions they take; here are the calls of \<open>printf\<close>, each a literal format with its
  arguments, and the way of the text through the console to the UART.
\<close>

section \<open>The calls\<close>

definition dabt_calls :: "(string \<Rightarrow> addr) \<Rightarrow> u32 \<Rightarrow> bool \<Rightarrow> bool \<Rightarrow> bool \<Rightarrow> bool \<Rightarrow> (string \<times> u64 list) list" where
  "dabt_calls lit dfsc wnR s1ptw cm ea =
     [(''  Data Abort Details:'' @ newline, []),
      (''    Data Fault Status Code (DFSC): 0x%x'' @ newline, [ucast dfsc]),
      (''    Write not Read (WnR): %s'' @ newline, [lit (if wnR then ''Write'' else ''Read'')]),
      (''    Stage 1 Translation Table Walk (S1PTW): %s'' @ newline, [lit (if s1ptw then ''Yes'' else ''No'')]),
      (''    Cache Maintenance (CM): %s'' @ newline, [lit (if cm then ''Yes'' else ''No'')]),
      (''    External Abort (EA): %s'' @ newline, [lit (if ea then ''Yes'' else ''No'')])]"

definition esr_calls :: "(string \<Rightarrow> addr) \<Rightarrow> u64 \<Rightarrow> (string \<times> u64 list) list" where
  "esr_calls lit esr =
     (let r = dump_esr esr
      in [(''Error Syndrome (ESR): 0x%lx'' @ newline, [esr]),
          (''  Exception Class (EC): 0x%x'' @ newline, [rep_ec r]),
          (''  Instruction Length (IL): %s'' @ newline, [lit (if rep_il32 r then ''32 bits'' else ''16 bits'')]),
          (''  Instruction Specific Syndrome (ISS): 0x%lx'' @ newline, [rep_iss r])] @
         (case rep_dabt r of
            None \<Rightarrow> []
          | Some (dfsc, wnR, s1ptw, cm, ea) \<Rightarrow> dabt_calls lit dfsc wnR s1ptw cm ea))"

definition reg_x :: "mem \<Rightarrow> addr \<Rightarrow> nat \<Rightarrow> u64" where "reg_x m regs i = load64 m (regs + 8 * of_nat i)"

definition reg_args :: "mem \<Rightarrow> addr \<Rightarrow> nat list \<Rightarrow> u64 list" where
  "reg_args m regs is = concat (map (\<lambda>i. [of_nat i, reg_x m regs i]) is)"

definition row3_format :: string where
  "row3_format = ''X%-2d: 0x%016lx  X%-2d: 0x%016lx  X%-2d: 0x%016lx'' @ newline"

definition row4_format :: string where
  "row4_format = ''X%-2d: 0x%016lx  X%-2d: 0x%016lx  X%-2d: 0x%016lx  X%-2d: 0x%016lx'' @ newline"

definition row_call :: "mem \<Rightarrow> addr \<Rightarrow> nat \<Rightarrow> string \<times> u64 list" where
  "row_call m regs i =
     (if i + 3 = 31
      then (row3_format, reg_args m regs [i, i + 1, i + 2])
      else (row4_format, reg_args m regs [i, i + 1, i + 2, i + 3]))"

text \<open>\<open>for (int i = 0; i < 31; i += 4)\<close>\<close>

function row_calls :: "mem \<Rightarrow> addr \<Rightarrow> nat \<Rightarrow> (string \<times> u64 list) list" where
  "row_calls m regs i = (if i < 31 then row_call m regs i # row_calls m regs (i + 4) else [])"
  by pat_completeness auto
termination by (relation "measure (\<lambda>(m, regs, i). 31 - i)") auto

declare row_calls.simps [simp del]

definition backtrace_calls :: "mem \<Rightarrow> addr \<Rightarrow> int \<Rightarrow> (string \<times> u64 list) list" where
  "backtrace_calls m regs max_frames =
     (''Backtrace: '' @ newline, []) #
     map (\<lambda>(i, pc). (''  Frame %d: PC = 0x%lx'' @ newline, [of_nat i, pc])) (enumerate 0 (aarch64_backtrace m regs max_frames))"

definition register_calls :: "(string \<Rightarrow> addr) \<Rightarrow> mem \<Rightarrow> addr \<Rightarrow> u64 \<Rightarrow> u64 \<Rightarrow> (string \<times> u64 list) list" where
  "register_calls lit m regs esr far =
     esr_calls lit esr @
     [(''Register dump:'' @ newline, []), (''FAR: 0x%lx'' @ newline, [far]),
      (''SP: 0x%lx, PC: 0x%lx, Pstate: 0x%lx'' @ newline, [load64 m (regs + 248), load64 m (regs + 256), load64 m (regs + 264)])] @
     row_calls m regs 0 @ backtrace_calls m regs 10"

definition show_calls :: "gicd_context \<Rightarrow> (string \<times> u64 list) list" where
  "show_calls c =
     [(''GICD: gicd_regs=0x%lx'' @ newline, [gicd_regs c]),
      (''GICD: itlinesnumber=%u, spi_count=%u, cpunumber=%u'' @ newline @ ''securityextn=%u, mbis=%u, lpis=%u, num_lpis=%u, a3v=%u, no1n=%u'' @ newline,
       [ucast (itlinesnumber c), ucast (spi_count c), ucast (cpunumber c), of_bool (securityextn c), of_bool (mbis c), of_bool (lpis c),
        ucast (num_lpis c), of_bool (a3v c), of_bool (no1n c)]),
      (''GICD: implementer=0x%x, revision=%u, variant=%u, productid=0x%x'' @ newline,
       [ucast (implementer c), ucast (revision c), ucast (variant c), ucast (productid c)]),
      (''GICD: ds=%u, enable_grp0=%u, enable_grp1=%u, are=%u'' @ newline, [of_bool (ds c), of_bool (enable_grp0 c), of_bool (enable_grp1 c), of_bool (are c)]),
      (''GICD: e1nwf=%u'' @ newline, [of_bool (e1nwf c)])]"

definition gicv3_show_distributor :: "mem \<Rightarrow> (string \<Rightarrow> addr) \<Rightarrow> gicd_context \<Rightarrow> u32 list option" where
  "gicv3_show_distributor m lit c = printfs m lit (show_calls c)"

text \<open>Text on the consoles, character by character.\<close>

definition on_console :: "'w console list \<Rightarrow> u32 list option \<Rightarrow> 'w \<Rightarrow> 'w option" where
  "on_console cs t w = Option.bind t (\<lambda>out. emit cs out w)"

text \<open>
  The text of \<open>dump_registers\<close>, which reads the syndrome and then the fault address, and what the handlers that end
  in \<open>hang\<close> do with the console.
\<close>

definition dump_registers_text :: "hardware \<Rightarrow> (string \<Rightarrow> addr) \<Rightarrow> addr \<Rightarrow> trace \<Rightarrow> mem \<Rightarrow> u32 list option" where
  "dump_registers_text hw lit regs tr m =
     (let (esr, tr) = read_esr_el2 hw tr;
          (far, tr) = read_far_el2 hw tr
      in printfs m lit (register_calls lit m regs esr far))"

definition el2_sync_print ::
  "hardware \<Rightarrow> 'w console list \<Rightarrow> (string \<Rightarrow> addr) \<Rightarrow> addr \<Rightarrow> trace \<Rightarrow> mem \<Rightarrow> 'w \<Rightarrow> 'w option" where
  "el2_sync_print hw cs lit regs tr m w =
     (let (esr, tr) = read_esr_el2 hw tr;
          ec = ESR_EC esr
      in if ec = EC_DATA_ABORT_LOWER_EL \<or> ec = EC_DATA_ABORT_SAME_EL
         then Option.bind (on_console cs (map_option snd (printf m (lit (''EL2 Sync Exception occurred! '' @ newline)) [])) w)
           (on_console cs (dump_registers_text hw lit regs tr m))
         else Option.bind (on_console cs (map_option snd (printf m (lit (''Unhandled EL2 Sync Exception! '' @ newline)) [])) w) (\<lambda>w.
           Option.bind (fflush cs w) (\<lambda>(_, w). on_console cs (dump_registers_text hw lit regs tr m) w)))"

definition el2_fiq_print ::
  "hardware \<Rightarrow> 'w console list \<Rightarrow> (string \<Rightarrow> addr) \<Rightarrow> addr \<Rightarrow> trace \<Rightarrow> mem \<Rightarrow> 'w \<Rightarrow> 'w option" where
  "el2_fiq_print hw cs lit regs tr m w =
     Option.bind (on_console cs (map_option snd (printf m (lit (''EL2 FIQ Exception occurred! '' @ newline)) [])) w)
       (on_console cs (dump_registers_text hw lit regs tr m))"

text \<open>\<open>panic\<close> up to the load that faults, and \<open>abort\<close>.\<close>

definition panic_text :: "mem \<Rightarrow> (string \<Rightarrow> addr) \<Rightarrow> addr \<Rightarrow> u64 list \<Rightarrow> u32 list option" where
  "panic_text m lit fmt args =
     (if fmt \<noteq> NULL
      then Option.bind (printf m (lit ''-------------- PANIC: '') []) (\<lambda>(_, a).
           Option.bind (vprintf m fmt args) (\<lambda>(_, b).
           Option.bind (printf m (lit ('' --------------'' @ newline)) []) (\<lambda>(_, c). Some (a @ b @ c))))
      else map_option snd (printf m (lit (''-------------- PANIC --------------'' @ newline)) []))"

definition abort_text :: "mem \<Rightarrow> (string \<Rightarrow> addr) \<Rightarrow> u32 list option" where
  "abort_text m lit = panic_text m lit NULL []"

text \<open>\<open>el2_irq\<close> for an interrupt without a handler.\<close>

definition irq_unhandled_text :: "mem \<Rightarrow> (string \<Rightarrow> addr) \<Rightarrow> u32 \<Rightarrow> u32 list option" where
  "irq_unhandled_text m lit i =
     Option.bind (printf m (lit (''Unhandled EL2 IRQ Exception! intid: %d'' @ newline)) [ucast i])
       (\<lambda>(_, a). map_option ((@) a) (panic_text m lit NULL []))"

section \<open>Rows of registers\<close>

definition reg_cell :: "nat \<Rightarrow> u64 \<Rightarrow> u8 list" where
  "reg_cell i v = ascii ''X'' @ digits 10 i @ replicate (2 - length (digits 10 i)) 32 @ ascii '': 0x'' @
     replicate (16 - length (digits 16 (unat v))) 48 @ digits 16 (unat v)"

lemma cell_field:
  "field (- 2) 32 (map ucast (digits 10 i)) = map ucast (digits 10 i @ replicate (2 - length (digits 10 i)) 32)"
  "field 16 48 (map ucast (digits 16 n)) = map ucast (replicate (16 - length (digits 16 n)) 48 @ digits 16 n)"
proof -
  have e: "nat (16 - int k) = 16 - k" "nat (2 - int k) = 2 - k" "nat (- 16 - int k) = 0" "nat (- 2 - int k) = 0" for k by linarith+
  show "field (- 2) 32 (map ucast (digits 10 i)) = map ucast (digits 10 i @ replicate (2 - length (digits 10 i)) 32)"
    "field 16 48 (map ucast (digits 16 n)) = map ucast (replicate (16 - length (digits 16 n)) 48 @ digits 16 n)"
    by (simp_all add: field_def e)
qed

definition cell_items :: "item list" where
  "cell_items = [Text 88, Conv True False [50] Cd, Text 58, Text 32, Text 48, Text 120, Conv False True [49, 54] Clx]"

lemma render_cell:
  assumes "i < 2147483648"
  shows "render m (cell_items @ its) (of_nat i # v # ap) = map_option ((@) (map ucast (reg_cell i v))) (render m its ap)"
proof -
  have p: "parse 10 [50] = 2" "parse 10 [49, 54] = 16" by (simp_all add: parse_def digit_value_def)
  show ?thesis
    by (cases "render m its ap") (simp_all add: cell_items_def p int_text [OF assms] hex_text cell_field reg_cell_def ascii_def Let_def)
qed

definition cells :: "mem \<Rightarrow> addr \<Rightarrow> nat list \<Rightarrow> u8 list" where
  "cells m regs is = concat (map (\<lambda>i. reg_cell i (reg_x m regs i) @ (if i mod 4 = 3 \<or> i = 30 then [10] else [32, 32])) is)"

definition row_formats :: "string set" where
  "row_formats = {row3_format, row4_format}"

lemma row_items:
  "items (ascii row3_format) =
     Some (cell_items @ [Text 32, Text 32] @ cell_items @ [Text 32, Text 32] @ cell_items @ [Text 10])"
  "items (ascii row4_format) =
     Some (cell_items @ [Text 32, Text 32] @ cell_items @ [Text 32, Text 32] @ cell_items @ [Text 32, Text 32] @ cell_items @ [Text 10])"
  by code_simp+

lemma row_text:
  assumes "i mod 4 = 0" "i < 31"
  shows "(case row_call m regs i of (f, ap) \<Rightarrow> f \<in> row_formats \<and>
    text_of m f ap = Some (map ucast (cells m regs (if i + 3 = 31 then [i, i + 1, i + 2] else [i, i + 1, i + 2, i + 3]))))"
proof -
  have i: "i < 2147483648" "i + 1 < 2147483648" "i + 2 < 2147483648" "i + 3 < 2147483648" using assms(2) by auto
  have md: "Suc i mod 4 = 1" "(i + 2) mod 4 = 2" "(i + 3) mod 4 = 3" "i + 3 \<noteq> 31 \<Longrightarrow> i \<noteq> 30 \<and> Suc i \<noteq> 30 \<and> i + 2 \<noteq> 30"
    using assms by presburger+
  show ?thesis
  proof (cases "i + 3 = 31")
    case True
    then show ?thesis
      using render_cell [OF i(1)] render_cell [OF i(2)] render_cell [OF i(3)] md assms(1)
      by (simp add: row_call_def reg_args_def text_of_def row_items row_formats_def cells_def option.map_comp comp_def del: of_nat_add)
  next
    case False
    then show ?thesis
      using render_cell [OF i(1)] render_cell [OF i(2)] render_cell [OF i(3)] render_cell [OF i(4)] md assms(1)
      by (simp add: row_call_def reg_args_def text_of_def row_items row_formats_def cells_def option.map_comp comp_def del: of_nat_add)
  qed
qed

lemma cells_append: "cells m regs (is @ js) = cells m regs is @ cells m regs js"
  by (simp add: cells_def)

lemma row_calls_cells:
  assumes "literals m lit L" "row_formats \<subseteq> L"
  shows "i mod 4 = 0 \<Longrightarrow> printfs m lit (row_calls m regs i) = Some (map ucast (cells m regs [i..<31]))"
  using assms
proof (induction m regs i rule: row_calls.induct)
  case (1 m regs i)
  show ?case
  proof (cases "i < 31")
    case True
    obtain f ap where r: "row_call m regs i = (f, ap)" by (cases "row_call m regs i")
    note t = row_text [OF "1.prems"(1) True, of m regs, unfolded r prod.case]
    have "printf m (lit f) ap = Some (0, map ucast (cells m regs (if i + 3 = 31 then [i, i + 1, i + 2] else [i, i + 1, i + 2, i + 3])))"
      by (rule printf_literal [OF "1.prems"(2)]) (use t "1.prems"(3) in auto)
    moreover have "[i..<31] = (if i + 3 = 31 then [i, i + 1, i + 2] else [i, i + 1, i + 2, i + 3]) @ [i + 4..<31]"
    proof -
      have "i \<in> {0, 4, 8, 12, 16, 20, 24, 28}" using "1.prems"(1) True by (simp, presburger)
      then show ?thesis by (elim insertE emptyE) (simp_all add: upt_rec)
    qed
    ultimately show ?thesis
      using 1 True r by (subst row_calls.simps) (simp add: cells_append)
  qed (subst row_calls.simps, simp add: cells_def)
qed

section \<open>The syndrome\<close>

definition line :: "string \<Rightarrow> u8 list \<Rightarrow> u8 list" where "line label t = ascii label @ t @ [10]"

definition hex :: "u64 \<Rightarrow> u8 list" where "hex v = digits 16 (unat v)"

definition dabt_lines :: "u32 \<Rightarrow> bool \<Rightarrow> bool \<Rightarrow> bool \<Rightarrow> bool \<Rightarrow> u8 list list" where
  "dabt_lines dfsc wnR s1ptw cm ea =
     [line ''  Data Abort Details:'' [],
      line ''    Data Fault Status Code (DFSC): 0x'' (hex (ucast dfsc)),
      line ''    Write not Read (WnR): '' (ascii (if wnR then ''Write'' else ''Read'')),
      line ''    Stage 1 Translation Table Walk (S1PTW): '' (ascii (if s1ptw then ''Yes'' else ''No'')),
      line ''    Cache Maintenance (CM): '' (ascii (if cm then ''Yes'' else ''No'')),
      line ''    External Abort (EA): '' (ascii (if ea then ''Yes'' else ''No''))]"

definition esr_lines :: "u64 \<Rightarrow> u8 list list" where
  "esr_lines esr =
     (let r = dump_esr esr
      in [line ''Error Syndrome (ESR): 0x'' (hex esr),
          line ''  Exception Class (EC): 0x'' (hex (rep_ec r)),
          line ''  Instruction Length (IL): '' (ascii (if rep_il32 r then ''32 bits'' else ''16 bits'')),
          line ''  Instruction Specific Syndrome (ISS): 0x'' (hex (rep_iss r))] @
         (case rep_dabt r of
            None \<Rightarrow> []
          | Some (dfsc, wnR, s1ptw, cm, ea) \<Rightarrow> dabt_lines dfsc wnR s1ptw cm ea))"

definition esr_literals :: "string set" where
  "esr_literals = {''Error Syndrome (ESR): 0x%lx'' @ newline, ''  Exception Class (EC): 0x%x'' @ newline,
     ''  Instruction Length (IL): %s'' @ newline, ''  Instruction Specific Syndrome (ISS): 0x%lx'' @ newline,
     ''  Data Abort Details:'' @ newline, ''    Data Fault Status Code (DFSC): 0x%x'' @ newline,
     ''    Write not Read (WnR): %s'' @ newline, ''    Stage 1 Translation Table Walk (S1PTW): %s'' @ newline,
     ''    Cache Maintenance (CM): %s'' @ newline, ''    External Abort (EA): %s'' @ newline,
     ''32 bits'', ''16 bits'', ''Write'', ''Read'', ''Yes'', ''No''}"

text \<open>The formats with one conversion at the end of the line.\<close>

definition ends_line :: "string \<Rightarrow> conv \<Rightarrow> string \<Rightarrow> bool" where
  "ends_line f k label \<longleftrightarrow> items (ascii f) = Some (map Text (ascii label) @ Conv False False [] k # map Text [10])"

lemma says_hex:
  assumes "ends_line f k label" "k = Clx \<or> k = Cx" "f \<in> L"
  shows "says m L (f, [v]) (line label (hex v))"
proof -
  have "conv_text m 0 False k v = Some (map ucast (digits 16 (unat v)))" using assms(2) conv_number [of m v] by auto
  then show ?thesis using text_conv [OF assms(1) [unfolded ends_line_def]] assms(3) by (simp add: says_def line_def hex_def)
qed

lemma says_string:
  assumes "literals m lit L" "ends_line f Cs label" "f \<in> L" "g \<in> L"
  shows "says m L (f, [lit g]) (line label (ascii g))"
  using text_conv [OF assms(2) [unfolded ends_line_def] conv_string [OF assms(1,4)]] assms(3) by (simp add: says_def line_def)

lemma says_plain: "items (ascii f) = Some (map Text t) \<Longrightarrow> f \<in> L \<Longrightarrow> says m L (f, []) t"
  using text_plain by (simp add: says_def)

lemma esr_formats:
  "ends_line (''Error Syndrome (ESR): 0x%lx'' @ newline) Clx ''Error Syndrome (ESR): 0x''"
  "ends_line (''  Exception Class (EC): 0x%x'' @ newline) Cx ''  Exception Class (EC): 0x''"
  "ends_line (''  Instruction Length (IL): %s'' @ newline) Cs ''  Instruction Length (IL): ''"
  "ends_line (''  Instruction Specific Syndrome (ISS): 0x%lx'' @ newline) Clx ''  Instruction Specific Syndrome (ISS): 0x''"
  "ends_line (''    Data Fault Status Code (DFSC): 0x%x'' @ newline) Cx ''    Data Fault Status Code (DFSC): 0x''"
  "ends_line (''    Write not Read (WnR): %s'' @ newline) Cs ''    Write not Read (WnR): ''"
  "ends_line (''    Stage 1 Translation Table Walk (S1PTW): %s'' @ newline) Cs ''    Stage 1 Translation Table Walk (S1PTW): ''"
  "ends_line (''    Cache Maintenance (CM): %s'' @ newline) Cs ''    Cache Maintenance (CM): ''"
  "ends_line (''    External Abort (EA): %s'' @ newline) Cs ''    External Abort (EA): ''"
  by code_simp+

lemma details_format: "items (ascii (''  Data Abort Details:'' @ newline)) = Some (map Text (line ''  Data Abort Details:'' []))"
  by code_simp

lemma esr_calls_lines:
  assumes "literals m lit L" "esr_literals \<subseteq> L"
  shows "list_all2 (says m L) (esr_calls lit esr) (esr_lines esr)"
proof -
  have L: "f \<in> esr_literals \<Longrightarrow> f \<in> L" for f using assms(2) by blast
  have pick: "f \<in> esr_literals \<Longrightarrow> g \<in> esr_literals \<Longrightarrow> (if b then f else g) \<in> L" for b f g using L by simp
  note says = esr_formats(1,2,4,5) [THEN says_hex, OF _ L] says_string [OF assms(1) _ L pick] says_plain [OF _ L]
  note mem = esr_literals_def insert_iff simp_thms conv.distinct
  have dabt: "list_all2 (says m L) (dabt_calls lit dfsc wnR s1ptw cm ea) (dabt_lines dfsc wnR s1ptw cm ea)" for dfsc wnR s1ptw cm ea
    unfolding dabt_calls_def dabt_lines_def by (intro list.rel_intros says esr_formats(6-9) details_format; simp only: mem)
  have "list_all2 (says m L)
      (case d of None \<Rightarrow> [] | Some (dfsc, wnR, s1ptw, cm, ea) \<Rightarrow> dabt_calls lit dfsc wnR s1ptw cm ea)
      (case d of None \<Rightarrow> [] | Some (dfsc, wnR, s1ptw, cm, ea) \<Rightarrow> dabt_lines dfsc wnR s1ptw cm ea)" for d
    using dabt by (simp split: option.split)
  then show ?thesis
    unfolding esr_calls_def esr_lines_def Let_def
    by (intro list_all2_appendI) (intro list.rel_intros says esr_formats(3); simp only: mem)
qed

section \<open>The report\<close>

definition state_line :: "u64 \<Rightarrow> u64 \<Rightarrow> u64 \<Rightarrow> u8 list" where
  "state_line sp pc ps = ascii ''SP: 0x'' @ hex sp @ ascii '', PC: 0x'' @ hex pc @ ascii '', Pstate: 0x'' @ hex ps @ [10]"

definition frame_line :: "nat \<times> u64 \<Rightarrow> u8 list" where
  "frame_line = (\<lambda>(i, pc). ascii ''  Frame '' @ digits 10 i @ ascii '': PC = 0x'' @ hex pc @ [10])"

definition register_text :: "mem \<Rightarrow> addr \<Rightarrow> u64 \<Rightarrow> u64 \<Rightarrow> u8 list" where
  "register_text m regs esr far =
     concat (esr_lines esr) @ line ''Register dump:'' [] @ line ''FAR: 0x'' (hex far) @
     state_line (load64 m (regs + 248)) (load64 m (regs + 256)) (load64 m (regs + 264)) @
     cells m regs [0..<31] @ line ''Backtrace: '' [] @ concat (map frame_line (enumerate 0 (aarch64_backtrace m regs 10)))"

definition register_literals :: "string set" where
  "register_literals = {''Register dump:'' @ newline, ''FAR: 0x%lx'' @ newline, ''SP: 0x%lx, PC: 0x%lx, Pstate: 0x%lx'' @ newline,
     ''Backtrace: '' @ newline, ''  Frame %d: PC = 0x%lx'' @ newline} \<union> esr_literals \<union> row_formats"

lemma says_state: "''SP: 0x%lx, PC: 0x%lx, Pstate: 0x%lx'' @ newline \<in> L \<Longrightarrow>
    says m L (''SP: 0x%lx, PC: 0x%lx, Pstate: 0x%lx'' @ newline, [sp, pc, ps]) (state_line sp pc ps)"
proof -
  have "items (ascii (''SP: 0x%lx, PC: 0x%lx, Pstate: 0x%lx'' @ newline)) =
    Some (map Text (ascii ''SP: 0x'') @ [Conv False False [] Clx] @ map Text (ascii '', PC: 0x'') @ [Conv False False [] Clx] @
      map Text (ascii '', Pstate: 0x'') @ [Conv False False [] Clx] @ map Text [10])"
    by code_simp
  then show "''SP: 0x%lx, PC: 0x%lx, Pstate: 0x%lx'' @ newline \<in> L \<Longrightarrow> ?thesis"
    by (simp add: says_def text_of_def texts state_line_def hex_def ascii_def)
qed

lemma says_frame:
  assumes "''  Frame %d: PC = 0x%lx'' @ newline \<in> L" "i < 2147483648"
  shows "says m L (''  Frame %d: PC = 0x%lx'' @ newline, [of_nat i, pc]) (frame_line (i, pc))"
proof -
  have "items (ascii (''  Frame %d: PC = 0x%lx'' @ newline)) =
    Some (map Text (ascii ''  Frame '') @ [Conv False False [] Cd] @ map Text (ascii '': PC = 0x'') @ [Conv False False [] Clx] @ map Text [10])"
    by code_simp
  then show ?thesis using assms by (simp add: says_def text_of_def texts frame_line_def hex_def ascii_def)
qed

lemma backtrace_length: "length (backtrace_from m fp n) \<le> n"
  by (induction n arbitrary: fp) auto

lemma head_formats:
  "items (ascii (''Register dump:'' @ newline)) = Some (map Text (line ''Register dump:'' []))"
  "ends_line (''FAR: 0x%lx'' @ newline) Clx ''FAR: 0x''"
  "items (ascii (''Backtrace: '' @ newline)) = Some (map Text (line ''Backtrace: '' []))"
  by code_simp+

lemma register_calls_text:
  assumes "literals m lit L" "register_literals \<subseteq> L"
  shows "printfs m lit (register_calls lit m regs esr far) = Some (map ucast (register_text m regs esr far))"
proof -
  have L: "f \<in> register_literals \<Longrightarrow> f \<in> L" for f using assms(2) by blast
  note mem = register_literals_def insert_iff Un_iff simp_thms
  have esr: "printfs m lit (esr_calls lit esr) = Some (map ucast (concat (esr_lines esr)))"
    using assms(2) by (intro printfs_literal [OF assms(1)] esr_calls_lines [OF assms(1)]) (auto simp only: register_literals_def)
  have rows: "printfs m lit (row_calls m regs 0) = Some (map ucast (cells m regs [0..<31]))"
    using assms(2) by (intro row_calls_cells [OF assms(1)]) (auto simp only: register_literals_def)
  have head: "list_all2 (says m L)
      [(''Register dump:'' @ newline, []), (''FAR: 0x%lx'' @ newline, [far]), (''SP: 0x%lx, PC: 0x%lx, Pstate: 0x%lx'' @ newline, [sp, pc, ps])]
      [line ''Register dump:'' [], line ''FAR: 0x'' (hex far), state_line sp pc ps]" for sp pc ps
    by (intro list.rel_intros says_plain says_hex [OF head_formats(2)] says_state head_formats(1) L; simp only: mem)
  have frames: "list_all2 (says m L) (map (\<lambda>(i, pc). (''  Frame %d: PC = 0x%lx'' @ newline, [of_nat i, pc])) xs) (map frame_line xs)"
    if "\<forall>(i, pc) \<in> set xs. i < 2147483648" for xs
  proof -
    have "says m L (''  Frame %d: PC = 0x%lx'' @ newline, [of_nat i, pc]) (frame_line (i, pc))" if "i < 2147483648" for i pc
      by (rule says_frame [OF L that]) (simp only: mem)
    then show ?thesis using that by (induction xs) (auto simp del: append.simps)
  qed
  let ?bt = "enumerate 0 (aarch64_backtrace m regs 10)"
  have "\<forall>(i, pc) \<in> set ?bt. i < 2147483648"
    using backtrace_length [of m "load64 m (regs + 8 * 29)" 10] by (auto simp: in_set_enumerate_eq aarch64_backtrace_def)
  then have bt: "list_all2 (says m L) (backtrace_calls m regs 10) (line ''Backtrace: '' [] # map frame_line ?bt)"
    unfolding backtrace_calls_def by (intro list.rel_intros says_plain head_formats(3) frames L) (simp_all only: mem)
  show ?thesis
    using esr rows printfs_literal [OF assms(1) head] printfs_literal [OF assms(1) bt]
    by (simp add: register_calls_def register_text_def printfs_append del: printfs.simps append.simps)
qed

lemma dump_registers_prints:
  assumes "literals m lit L" "register_literals \<subseteq> L" "read_esr_el2 hw tr = (esr, tr1)" "read_far_el2 hw tr1 = (far, tr2)"
  shows "dump_registers_text hw lit regs tr m = Some (map ucast (register_text m regs esr far))"
  using register_calls_text [OF assms(1,2)] assms(3,4) by (simp add: dump_registers_text_def)

section \<open>On the console\<close>

lemma on_console_uart:
  assumes "only_uart hw cs i" "uart_drains hw (g_pl011_base_addr s)"
  shows "\<exists>s'. on_console cs (Some out) s = Some s' \<and> g_pl011_base_addr s' = g_pl011_base_addr s \<and>
    writes_to (REG s PL011_DR) (pl_trace s') = writes_to (REG s PL011_DR) (pl_trace s) @ out"
  using emit_uart [OF assms(1,2), of out] by (auto simp: on_console_def)

lemma REG_base: "g_pl011_base_addr s' = g_pl011_base_addr s \<Longrightarrow> REG s' r = REG s r"
  by (simp add: REG_def)

definition sync_literals :: "string set" where
  "sync_literals = {''EL2 Sync Exception occurred! '' @ newline, ''Unhandled EL2 Sync Exception! '' @ newline,
     ''EL2 FIQ Exception occurred! '' @ newline} \<union> register_literals"

lemma sync_formats:
  "items (ascii (''EL2 Sync Exception occurred! '' @ newline)) = Some (map Text (line ''EL2 Sync Exception occurred! '' []))"
  "items (ascii (''Unhandled EL2 Sync Exception! '' @ newline)) = Some (map Text (line ''Unhandled EL2 Sync Exception! '' []))"
  "items (ascii (''EL2 FIQ Exception occurred! '' @ newline)) = Some (map Text (line ''EL2 FIQ Exception occurred! '' []))"
  by code_simp+

lemma printf_plain: "literals m lit L \<Longrightarrow> f \<in> L \<Longrightarrow> items (ascii f) = Some (map Text t) \<Longrightarrow> printf m (lit f) [] = Some (0, map ucast t)"
  by (rule printf_literal) (auto intro: text_plain)

lemma two_prints:
  assumes "only_uart hw cs i" "uart_drains hw (g_pl011_base_addr s)"
  shows "\<exists>s'. Option.bind (on_console cs (Some a) s) (on_console cs (Some b)) = Some s' \<and>
    writes_to (REG s PL011_DR) (pl_trace s') = writes_to (REG s PL011_DR) (pl_trace s) @ a @ b"
proof -
  obtain s1 where s1: "on_console cs (Some a) s = Some s1" "g_pl011_base_addr s1 = g_pl011_base_addr s"
    "writes_to (REG s PL011_DR) (pl_trace s1) = writes_to (REG s PL011_DR) (pl_trace s) @ a"
    using on_console_uart [OF assms] by blast
  then show ?thesis using on_console_uart [OF assms(1), of s1 b] assms(2) by (auto simp: REG_base [OF s1(2)])
qed

lemma flush_between:
  assumes "only_uart hw cs i" "uart_drains hw (g_pl011_base_addr s)" "uart_empties hw (g_pl011_base_addr s)"
  shows "\<exists>s'. Option.bind (on_console cs (Some a) s) (\<lambda>w. Option.bind (fflush cs w) (\<lambda>(_, w). on_console cs (Some b) w)) = Some s' \<and>
    writes_to (REG s PL011_DR) (pl_trace s') = writes_to (REG s PL011_DR) (pl_trace s) @ a @ b"
proof -
  obtain s1 where s1: "on_console cs (Some a) s = Some s1" "g_pl011_base_addr s1 = g_pl011_base_addr s"
    "writes_to (REG s PL011_DR) (pl_trace s1) = writes_to (REG s PL011_DR) (pl_trace s) @ a"
    using on_console_uart [OF assms(1,2)] by blast
  obtain s2 where s2: "fflush cs s1 = Some (0, s2)" "g_pl011_base_addr s2 = g_pl011_base_addr s"
    "writes_to (REG s PL011_DR) (pl_trace s2) = writes_to (REG s PL011_DR) (pl_trace s1)"
    using fflush_uart [OF assms(1), of s1 "REG s PL011_DR"] assms(3) s1(2) by auto
  then show ?thesis using on_console_uart [OF assms(1), of s2 b] assms(2) s1 by (auto simp: REG_base [OF s2(2)])
qed

text \<open>
  C38. The report of a synchronous exception reaches the serial line in full: with the UART as the
  enabled console, \<open>el2_sync\<close> writes its heading, the decoded syndrome, the fault address, stack pointer, program
  counter and processor state, then each of the registers \<open>x0\<close> to \<open>x30\<close> once, in order, with sixteen hexadecimal digits,
  and the backtrace; and it does not return. For an exception other than a data abort the UART also has to get
  empty, because the handler flushes the console after the heading.
\<close>

theorem sync_report_reaches_uart:
  assumes "only_uart hw cs i" "uart_drains hw (g_pl011_base_addr s)" "literals (ram h) lit L" "sync_literals \<subseteq> L"
    and "read_esr_el2 hw (gic_trace (hgic h)) = (esr0, tr1)" "read_esr_el2 hw tr1 = (esr, tr2)" "read_far_el2 hw tr2 = (far, tr3)"
    and "ESR_EC esr0 \<in> {0x24, 0x25} \<or> uart_empties hw (g_pl011_base_addr s)"
  shows "(\<exists>s'. el2_sync_print hw cs lit regs (gic_trace (hgic h)) (ram h) s = Some s' \<and>
      writes_to (REG s PL011_DR) (pl_trace s') = writes_to (REG s PL011_DR) (pl_trace s) @ map ucast
        (line (if ESR_EC esr0 \<in> {0x24, 0x25} then ''EL2 Sync Exception occurred! '' else ''Unhandled EL2 Sync Exception! '') [] @
         register_text (ram h) regs esr far)) \<and>
    el2_sync hw regs h = None"
proof -
  have L: "f \<in> sync_literals \<Longrightarrow> f \<in> L" for f using assms(4) by blast
  note mem = sync_literals_def insert_iff Un_iff simp_thms
  have heads: "printf (ram h) (lit (''EL2 Sync Exception occurred! '' @ newline)) [] = Some (0, map ucast (line ''EL2 Sync Exception occurred! '' []))"
    "printf (ram h) (lit (''Unhandled EL2 Sync Exception! '' @ newline)) [] = Some (0, map ucast (line ''Unhandled EL2 Sync Exception! '' []))"
    by (intro printf_plain [OF assms(3)] L sync_formats; simp only: mem)+
  have "register_literals \<subseteq> L" using assms(4) by (auto simp only: sync_literals_def)
  note dump = dump_registers_prints [OF assms(3) this assms(6,7)]
  have "el2_sync hw regs h = None"
    using assms(5-7) by (simp add: el2_sync_def el2_dabt_def dump_registers_def hang_def hret_def Let_def split: prod.splits)
  moreover note two_prints [OF assms(1,2), of "map ucast (line ''EL2 Sync Exception occurred! '' [])" "map ucast (register_text (ram h) regs esr far)"]
    flush_between [OF assms(1,2), of "map ucast (line ''Unhandled EL2 Sync Exception! '' [])" "map ucast (register_text (ram h) regs esr far)"]
  ultimately show ?thesis
    using heads dump assms(5,8) by (auto simp: el2_sync_print_def EC_DATA_ABORT_LOWER_EL_def EC_DATA_ABORT_SAME_EL_def simp del: append.simps)
qed

lemma fiq_report_reaches_uart:
  assumes "only_uart hw cs i" "uart_drains hw (g_pl011_base_addr s)" "literals m lit L" "sync_literals \<subseteq> L"
    and "read_esr_el2 hw tr = (esr, tr1)" "read_far_el2 hw tr1 = (far, tr2)"
  shows "\<exists>s'. el2_fiq_print hw cs lit regs tr m s = Some s' \<and>
    writes_to (REG s PL011_DR) (pl_trace s') = writes_to (REG s PL011_DR) (pl_trace s) @
      map ucast (line ''EL2 FIQ Exception occurred! '' []) @ map ucast (register_text m regs esr far)"
proof -
  have L: "f \<in> sync_literals \<Longrightarrow> f \<in> L" for f using assms(4) by blast
  have head: "printf m (lit (''EL2 FIQ Exception occurred! '' @ newline)) [] = Some (0, map ucast (line ''EL2 FIQ Exception occurred! '' []))"
    by (intro printf_plain [OF assms(3)] L sync_formats; simp only: sync_literals_def insert_iff Un_iff simp_thms)
  have "register_literals \<subseteq> L" using assms(4) by (auto simp only: sync_literals_def)
  from dump_registers_prints [OF assms(3) this assms(5,6)] head show ?thesis
    using two_prints [OF assms(1,2)] by (simp add: el2_fiq_print_def del: append.simps)
qed

definition sync_strings :: "string list" where
  "sync_strings = [''EL2 Sync Exception occurred! '' @ newline, ''Unhandled EL2 Sync Exception! '' @ newline,
     ''EL2 FIQ Exception occurred! '' @ newline,
     ''Register dump:'' @ newline, ''FAR: 0x%lx'' @ newline, ''SP: 0x%lx, PC: 0x%lx, Pstate: 0x%lx'' @ newline,
     ''Backtrace: '' @ newline, ''  Frame %d: PC = 0x%lx'' @ newline,
     ''Error Syndrome (ESR): 0x%lx'' @ newline, ''  Exception Class (EC): 0x%x'' @ newline,
     ''  Instruction Length (IL): %s'' @ newline, ''  Instruction Specific Syndrome (ISS): 0x%lx'' @ newline,
     ''  Data Abort Details:'' @ newline, ''    Data Fault Status Code (DFSC): 0x%x'' @ newline,
     ''    Write not Read (WnR): %s'' @ newline, ''    Stage 1 Translation Table Walk (S1PTW): %s'' @ newline,
     ''    Cache Maintenance (CM): %s'' @ newline, ''    External Abort (EA): %s'' @ newline,
     ''32 bits'', ''16 bits'', ''Write'', ''Read'', ''Yes'', ''No'', row3_format, row4_format]"

lemma sync_strings_plain: "plain_strings sync_strings"
  by code_simp

lemma sync_strings_place: "placeable 0x7000 sync_strings" "sync_literals \<subseteq> set sync_strings"
proof -
  show "placeable 0x7000 sync_strings" using sync_strings_plain by (simp add: placeable_def sync_strings_def del: append.simps)
  show "sync_literals \<subseteq> set sync_strings"
    unfolding sync_literals_def register_literals_def esr_literals_def row_formats_def
    by (simp only: sync_strings_def list.set Un_subset_iff insert_subset insert_iff simp_thms empty_subsetI)
qed

definition abort_hw :: hardware where
  "abort_hw = idle_hw\<lparr>sysreg_rd := \<lambda>tr r. if r = ''ESR_EL2'' then 0x96000046 else 0\<rparr>"

definition abort_consoles :: "pl011 console list" where
  "abort_consoles = [(pl011_console abort_hw 0x200)\<lparr>con_enabled := True\<rparr>]"

lemma abort_uart: "only_uart abort_hw abort_consoles 0" "uart_drains abort_hw b"
  by (simp add: only_uart_def abort_consoles_def pl011_console_def)
    (auto simp: uart_drains_def seen_def abort_hw_def idle_hw_def tx_busy_def)

theorem sync_report_reaches_uart_witness:
  "\<exists>m lit s'. el2_sync_print abort_hw abort_consoles lit 0x100 [] m demo_uart = Some s' \<and>
     writes_to 0x9000000 (pl_trace s') = map ucast (line ''EL2 Sync Exception occurred! '' [] @ register_text m 0x100 0x96000046 0)"
proof -
  define h where "h = demo_hyper\<lparr>ram := place (\<lambda>_. 0) 0x7000 sync_strings, hgic := (hgic demo_hyper)\<lparr>gic_trace := []\<rparr>\<rparr>"
  have r: "read_esr_el2 abort_hw tr = (0x96000046, tr @ [Mrs ''ESR_EL2'' 0x96000046])" "read_far_el2 abort_hw tr = (0, tr @ [Mrs ''FAR_EL2'' 0])" for tr
    by (simp_all add: read_esr_el2_def read_far_el2_def read_sysreg_def abort_hw_def)
  have ec: "ESR_EC 0x96000046 = 0x25" by (simp add: ESR_EC_def drop_bit_eq_div)
  have l: "literals (ram h) (place_of 0x7000 sync_strings) (set sync_strings)"
    using place_literals [OF sync_strings_place(1)] by (simp add: h_def)
  show ?thesis
    using sync_report_reaches_uart [OF abort_uart l sync_strings_place(2) r(1) r(1) r(2), of demo_uart "0x100"] ec
    by (auto simp: h_def demo_uart_def REG_def PL011_BASE_ADDR_def PL011_DR_def simp del: append_Cons map_append)
qed

definition panic_literals :: "string set" where
  "panic_literals = {''-------------- PANIC: '', '' --------------'' @ newline, ''-------------- PANIC --------------'' @ newline,
     ''Unhandled EL2 IRQ Exception! intid: %d'' @ newline}"

lemma panic_formats:
  "items (ascii ''-------------- PANIC: '') = Some (map Text (ascii ''-------------- PANIC: ''))"
  "items (ascii ('' --------------'' @ newline)) = Some (map Text (line '' --------------'' []))"
  "items (ascii (''-------------- PANIC --------------'' @ newline)) = Some (map Text (line ''-------------- PANIC --------------'' []))"
  "ends_line (''Unhandled EL2 IRQ Exception! intid: %d'' @ newline) Cd ''Unhandled EL2 IRQ Exception! intid: ''"
  by code_simp+

lemma panic_prints:
  assumes "literals m lit L" "panic_literals \<subseteq> L" "f \<in> L" "text_of m f ap = Some msg"
  shows "panic_text m lit (lit f) ap = Some (map ucast (ascii ''-------------- PANIC: '') @ msg @ map ucast (line '' --------------'' []))"
    and "abort_text m lit = Some (map ucast (line ''-------------- PANIC --------------'' []))"
proof -
  have L: "g \<in> panic_literals \<Longrightarrow> g \<in> L" for g using assms(2) by blast
  note mem = panic_literals_def insert_iff simp_thms
  have p: "printf m (lit ''-------------- PANIC: '') [] = Some (0, map ucast (ascii ''-------------- PANIC: ''))"
    "printf m (lit ('' --------------'' @ newline)) [] = Some (0, map ucast (line '' --------------'' []))"
    "printf m (lit (''-------------- PANIC --------------'' @ newline)) [] = Some (0, map ucast (line ''-------------- PANIC --------------'' []))"
    by (intro printf_plain [OF assms(1)] L panic_formats; simp only: mem)+
  have "vprintf m (lit f) ap = Some (0, msg)" using printf_literal [OF assms(1,3,4)] by (auto simp: printf_def vprintf_def)
  moreover have "lit f \<noteq> NULL" using assms(1,3) by (auto simp: literals_def)
  ultimately show "panic_text m lit (lit f) ap = Some (map ucast (ascii ''-------------- PANIC: '') @ msg @ map ucast (line '' --------------'' []))"
    "abort_text m lit = Some (map ucast (line ''-------------- PANIC --------------'' []))"
    using p by (simp_all add: panic_text_def abort_text_def del: append.simps)
qed

lemma unhandled_prints:
  assumes "literals m lit L" "panic_literals \<subseteq> L" "unat n < 2147483648"
  shows "irq_unhandled_text m lit n =
    Some (map ucast (line ''Unhandled EL2 IRQ Exception! intid: '' (digits 10 (unat n)) @ line ''-------------- PANIC --------------'' []))"
proof -
  have L: "g \<in> panic_literals \<Longrightarrow> g \<in> L" for g using assms(2) by blast
  note mem = panic_literals_def insert_iff simp_thms
  have "(ucast n :: u64) = of_nat (unat n)" by simp
  then have "conv_text m 0 False Cd (ucast n) = Some (map ucast (digits 10 (unat n)))"
    using int_text [OF assms(3)] by (simp add: field_def)
  from text_conv [OF panic_formats(4) [unfolded ends_line_def] this]
  have "text_of m (''Unhandled EL2 IRQ Exception! intid: %d'' @ newline) [ucast n] =
      Some (map ucast (line ''Unhandled EL2 IRQ Exception! intid: '' (digits 10 (unat n))))"
    by (simp add: line_def del: append.simps)
  moreover have "''Unhandled EL2 IRQ Exception! intid: %d'' @ newline \<in> L" by (rule L) (simp only: mem)
  ultimately have "printf m (lit (''Unhandled EL2 IRQ Exception! intid: %d'' @ newline)) [ucast n] =
      Some (0, map ucast (line ''Unhandled EL2 IRQ Exception! intid: '' (digits 10 (unat n))))"
    by (intro printf_literal [OF assms(1)])
  moreover have "panic_text m lit NULL [] = Some (map ucast (line ''-------------- PANIC --------------'' []))"
  proof -
    have "text_of m ''-------------- PANIC: '' [] = Some (map ucast (ascii ''-------------- PANIC: ''))" by (rule text_plain [OF panic_formats(1)])
    moreover have "''-------------- PANIC: '' \<in> L" by (rule L) (simp only: mem)
    ultimately show ?thesis using panic_prints(2) [OF assms(1,2)] by (simp only: abort_text_def)
  qed
  ultimately show ?thesis by (simp add: irq_unhandled_text_def del: append.simps)
qed

text \<open>
  C39. A panic is seen: with the UART as the enabled console, \<open>panic\<close> with a message writes exactly that
  message, formatted with its arguments, between its two markers, \<open>abort\<close> writes the line without a message,
  and an interrupt that nobody handles is named by its number before that line.
\<close>

theorem panic_reaches_uart:
  assumes "only_uart hw cs i" "uart_drains hw (g_pl011_base_addr s)" "literals m lit L" "panic_literals \<subseteq> L"
    and "f \<in> L" "text_of m f ap = Some msg" "unat n < 2147483648"
    and "dr = writes_to (REG s PL011_DR)"
  shows "(\<exists>s'. on_console cs (panic_text m lit (lit f) ap) s = Some s' \<and>
      dr (pl_trace s') = dr (pl_trace s) @ map ucast (ascii ''-------------- PANIC: '') @ msg @ map ucast (line '' --------------'' [])) \<and>
    (\<exists>s'. on_console cs (abort_text m lit) s = Some s' \<and>
      dr (pl_trace s') = dr (pl_trace s) @ map ucast (line ''-------------- PANIC --------------'' [])) \<and>
    (\<exists>s'. on_console cs (irq_unhandled_text m lit n) s = Some s' \<and>
      dr (pl_trace s') = dr (pl_trace s) @ map ucast (line ''Unhandled EL2 IRQ Exception! intid: '' (digits 10 (unat n)) @ line ''-------------- PANIC --------------'' []))"
proof -
  note uart = on_console_uart [OF assms(1,2)]
  show ?thesis
    unfolding panic_prints [OF assms(3-6)] unhandled_prints [OF assms(3,4,7)] assms(8) using uart by blast
qed

definition panic_strings :: "string list" where
  "panic_strings = [''miniheap_free: invalid free'' @ newline, ''-------------- PANIC: '', '' --------------'' @ newline,
     ''-------------- PANIC --------------'' @ newline, ''Unhandled EL2 IRQ Exception! intid: %d'' @ newline]"

lemma panic_strings_plain: "plain_strings panic_strings"
  by code_simp

lemma panic_strings_place: "placeable 0x7000 panic_strings" "panic_literals \<subseteq> set panic_strings" "''miniheap_free: invalid free'' @ newline \<in> set panic_strings"
proof -
  show "placeable 0x7000 panic_strings" using panic_strings_plain by (simp add: placeable_def panic_strings_def del: append.simps)
  show "panic_literals \<subseteq> set panic_strings" "''miniheap_free: invalid free'' @ newline \<in> set panic_strings"
    by (simp_all only: panic_literals_def panic_strings_def list.set insert_subset insert_iff simp_thms empty_subsetI)
qed

theorem panic_reaches_uart_witness:
  "\<exists>m lit s'. on_console demo_consoles (panic_text m lit (lit (''miniheap_free: invalid free'' @ newline)) []) demo_uart = Some s' \<and>
     writes_to 0x9000000 (pl_trace s') =
       map ucast (ascii ''-------------- PANIC: '') @ map ucast (line ''miniheap_free: invalid free'' []) @ map ucast (line '' --------------'' [])"
proof -
  have t: "text_of m (''miniheap_free: invalid free'' @ newline) [] = Some (map ucast (line ''miniheap_free: invalid free'' []))" for m
    by (rule text_plain) code_simp
  have "unat (1023 :: u32) < 2147483648" by simp
  from panic_reaches_uart [OF demo_only_uart idle_drains place_literals [OF panic_strings_place(1)] panic_strings_place(2,3) t this refl, of "\<lambda>_. 0" demo_uart]
  show ?thesis by (auto simp: demo_uart_def REG_def PL011_BASE_ADDR_def PL011_DR_def simp del: append_Cons map_append)
qed

section \<open>The distributor\<close>

definition show_formats :: "(string \<times> conv list) list" where
  "show_formats =
     [(''GICD: gicd_regs=0x%lx'' @ newline, [Clx]),
      (''GICD: itlinesnumber=%u, spi_count=%u, cpunumber=%u'' @ newline @ ''securityextn=%u, mbis=%u, lpis=%u, num_lpis=%u, a3v=%u, no1n=%u'' @ newline,
       [Cu, Cu, Cu, Cu, Cu, Cu, Cu, Cu, Cu]),
      (''GICD: implementer=0x%x, revision=%u, variant=%u, productid=0x%x'' @ newline, [Cx, Cu, Cu, Cx]),
      (''GICD: ds=%u, enable_grp0=%u, enable_grp1=%u, are=%u'' @ newline, [Cu, Cu, Cu, Cu]),
      (''GICD: e1nwf=%u'' @ newline, [Cu])]"

lemma show_formats_ok: "formats_ok show_formats"
  by code_simp

lemma show_calls_fit: "calls_fit m show_formats (show_calls c)"
  by (simp add: calls_fit_def show_formats_def show_calls_def arg_ok_def del: append.simps)

lemma gicv3_show_distributor_returns:
  "literals m lit L \<Longrightarrow> fst ` set show_formats \<subseteq> L \<Longrightarrow> \<exists>s. gicv3_show_distributor m lit c = Some s"
  unfolding gicv3_show_distributor_def by (rule printfs_total [OF _ _ show_formats_ok show_calls_fit])

end
