(* ===== verification/Report.thy ===== *)
theory Report
  imports Text Miniheap_Props
begin

text \<open>
  What \<open>dump_miniheap\<close> of \<^verbatim>\<open>src/src/libc/miniheap.c\<close> prints. The loop over the free list may not end on a list with
  a cycle, so it is a partial function; the theorem shows that on a well-formed heap it ends and what the lines say.
\<close>

section \<open>The free list\<close>

partial_function (option) dump_blocks :: "mem \<Rightarrow> (string \<Rightarrow> addr) \<Rightarrow> u32 \<Rightarrow> addr \<Rightarrow> u32 list \<Rightarrow> u32 list option" where
  "dump_blocks m lit i cur out =
     (if cur \<noteq> NULL
      then Option.bind (printf m (lit (''Free block[%d]: addr = %p, size = %u'' @ newline)) [ucast i, cur, ucast (blk_size m cur)])
        (\<lambda>(_, s). dump_blocks m lit (i + 1) (blk_next m cur) (out @ s))
      else Some out)"

definition dump_miniheap :: "mem \<Rightarrow> (string \<Rightarrow> addr) \<Rightarrow> miniheap \<Rightarrow> u32 list option" where
  "dump_miniheap m lit heap =
     Option.bind (printf m (lit (''Miniheap dump: base = %p, size = %u, free = %u'' @ newline)) [mh_base heap, mh_size heap, free_bytes heap])
       (\<lambda>(_, s). dump_blocks m lit 0 (free_list heap) s)"

text \<open>The free segments of a tiling that starts at \<open>a\<close>: address and size.\<close>

fun free_blocks :: "nat \<Rightarrow> seg list \<Rightarrow> (nat \<times> nat) list" where
  "free_blocks a [] = []"
| "free_blocks a (Used n # r) = free_blocks (a + n) r"
| "free_blocks a (Free n # r) = (a, n) # free_blocks (a + n) r"

definition block_line :: "nat \<Rightarrow> nat \<times> nat \<Rightarrow> u8 list" where
  "block_line i = (\<lambda>(a, n). ascii ''Free block['' @ digits 10 i @ ascii '']: addr = 0x'' @ digits 16 a @ ascii '', size = '' @ digits 10 n @ [10])"

definition heap_line :: "nat \<Rightarrow> nat \<Rightarrow> nat \<Rightarrow> u8 list" where
  "heap_line base sz fr =
     ascii ''Miniheap dump: base = 0x'' @ digits 16 base @ ascii '', size = '' @ digits 10 sz @ ascii '', free = '' @ digits 10 fr @ [10]"

definition heap_formats :: "string set" where
  "heap_formats = {''Free block[%d]: addr = %p, size = %u'' @ newline, ''Miniheap dump: base = %p, size = %u, free = %u'' @ newline}"

lemma free_blocks_total: "sum_list (map snd (free_blocks a xs)) = free_total xs"
  by (induction a xs rule: free_blocks.induct) auto

lemma free_blocks_sorted:
  "segs_ok xs \<Longrightarrow> sorted_wrt (<) (map fst (free_blocks a xs)) \<and> (\<forall>b \<in> fst ` set (free_blocks a xs). a \<le> b \<and> b < a + segs_size xs) \<and>
    16 * length (free_blocks a xs) \<le> segs_size xs"
  by (induction a xs rule: free_blocks.induct) (fastforce simp: segs_ok_def segs_size_def)+

lemma block_line_text:
  assumes "i < 2147483648" "a < 18446744073709551616" "n < 4294967296"
  shows "text_of m (''Free block[%d]: addr = %p, size = %u'' @ newline) [of_nat i, of_nat a, of_nat n] = Some (map ucast (block_line i (a, n)))"
proof -
  have "items (ascii (''Free block[%d]: addr = %p, size = %u'' @ newline)) =
    Some (map Text (ascii ''Free block['') @ [Conv False False [] Cd] @ map Text (ascii '']: addr = '') @ [Conv False False [] Cp] @
      map Text (ascii '', size = '') @ [Conv False False [] Cu] @ map Text [10])"
    by code_simp
  moreover have "unat (of_nat n :: u64) = n" "unat (of_nat a :: u64) = a" using assms by (simp_all add: unat_of_nat64)
  ultimately show ?thesis
    using assms by (simp add: text_of_def texts block_line_def ascii_def)
qed

lemma heap_line_text:
  assumes "unat s < 4294967296" "unat f < 4294967296"
  shows "text_of m (''Miniheap dump: base = %p, size = %u, free = %u'' @ newline) [b, s, f] = Some (map ucast (heap_line (unat b) (unat s) (unat f)))"
proof -
  have "items (ascii (''Miniheap dump: base = %p, size = %u, free = %u'' @ newline)) =
    Some (map Text (ascii ''Miniheap dump: base = '') @ [Conv False False [] Cp] @ map Text (ascii '', size = '') @ [Conv False False [] Cu] @
      map Text (ascii '', free = '') @ [Conv False False [] Cu] @ map Text [10])"
    by code_simp
  then show ?thesis using assms by (simp add: text_of_def texts heap_line_def ascii_def)
qed

lemma dump_blocks_path:
  assumes L: "literals m lit heap_formats"
  shows "heap_path m a p xs NULL \<Longrightarrow> segs_ok xs \<Longrightarrow> 0 < a \<Longrightarrow> a + segs_size xs < 18446744073709551616 \<Longrightarrow> segs_size xs < 4294967296 \<Longrightarrow>
    i + length (free_blocks a xs) \<le> 2147483648 \<Longrightarrow>
    dump_blocks m lit (of_nat i) p out = Some (out @ map ucast (concat (map (\<lambda>(j, b). block_line j b) (enumerate i (free_blocks a xs)))))"
proof (induction a xs arbitrary: i p out rule: free_blocks.induct)
  case (1 a)
  then show ?case by (subst dump_blocks.simps) simp
next
  case (2 a n r)
  then show ?case by (auto simp: segs_ok_def segs_size_def add.assoc)
next
  case (3 a n r)
  have p: "p = of_nat a" "blk_size m (of_nat a) = of_nat n" "heap_path m (a + n) (blk_next m (of_nat a)) r NULL" using "3.prems"(1) by auto
  have n: "n < 4294967296" "a < 18446744073709551616" "i < 2147483648" using "3.prems"(4-6) by (auto simp: segs_size_def)
  have "(ucast (of_nat i :: u32) :: u64) = of_nat i" "(ucast (of_nat n :: u32) :: u64) = of_nat n"
    using n by (simp_all add: word_unat_eq_iff unsigned_ucast_eq unat_of_nat64 unat_of_nat32 take_bit_nat_eq_self)
  then have "printf m (lit (''Free block[%d]: addr = %p, size = %u'' @ newline)) [ucast (of_nat i :: u32), p, ucast (blk_size m p)] =
      Some (0, map ucast (block_line i (a, n)))"
    using printf_literal [OF L _ block_line_text [OF n(3,2,1)]] p by (simp add: heap_formats_def)
  moreover have "p \<noteq> NULL" using of_nat_neq_NULL [OF "3.prems"(3) n(2)] p(1) by simp
  ultimately have "dump_blocks m lit (of_nat i) p out = dump_blocks m lit (of_nat (Suc i)) (blk_next m (of_nat a)) (out @ map ucast (block_line i (a, n)))"
    using p(1) by (subst dump_blocks.simps) (simp add: add.commute)
  also have "\<dots> = Some ((out @ map ucast (block_line i (a, n))) @
      map ucast (concat (map (\<lambda>(j, b). block_line j b) (enumerate (Suc i) (free_blocks (a + n) r)))))"
    by (rule "3.IH" [OF p(3)]) (use "3.prems" in \<open>auto simp: segs_ok_def segs_size_def\<close>)
  finally show ?case by simp
qed

lemma dump_miniheap_ok:
  assumes "heap_rep h m xs" "literals m lit heap_formats" "bs = free_blocks (unat (mh_base h)) xs"
  shows "dump_miniheap m lit h = Some (map ucast (heap_line (unat (mh_base h)) (unat (mh_size h)) (unat (free_bytes h)) @
      concat (map (\<lambda>(i, b). block_line i b) (enumerate 0 bs)))) \<and>
    sorted_wrt (<) (map fst bs) \<and> sum_list (map snd bs) = unat (free_bytes h)"
proof -
  note r = assms(1) [unfolded heap_rep_def]
  have ok: "segs_ok xs" "segs_size xs < 4294967296" "unat (mh_base h) + segs_size xs < 18446744073709551616" "0 < unat (mh_base h)"
    "heap_path m (unat (mh_base h)) (free_list h) xs NULL" and sz: "unat (mh_size h) = segs_size xs" "unat (free_bytes h) = free_total xs"
    using r by auto
  note s = free_blocks_sorted [OF ok(1), of "unat (mh_base h)"] and t = free_blocks_total [of "unat (mh_base h)" xs]
  have "free_total xs \<le> segs_size xs" by (induction xs rule: free_total.induct) (auto simp: segs_size_def)
  then have "printf m (lit (''Miniheap dump: base = %p, size = %u, free = %u'' @ newline)) [mh_base h, mh_size h, free_bytes h] =
      Some (0, map ucast (heap_line (unat (mh_base h)) (unat (mh_size h)) (unat (free_bytes h))))"
    using ok(2) sz by (intro printf_literal [OF assms(2)] heap_line_text) (auto simp: heap_formats_def)
  moreover have "length (free_blocks (unat (mh_base h)) xs) \<le> 2147483648" using s ok(2) by linarith
  ultimately show ?thesis
    using dump_blocks_path [OF assms(2) ok(5,1,4,3,2), of 0] s t sz(2) by (simp add: dump_miniheap_def assms(3))
qed

text \<open>
  C12. \<open>dump_miniheap\<close> lists the free memory. On any well-formed heap it returns, and prints the base, the
  size and the free bytes, and then one line for each free segment, in the order of addresses and
  numbered from 0, with its address and size; the sizes add up to the free bytes.
\<close>

theorem dump_miniheap_lists_free:
  assumes "heap_rep h m xs" "literals m lit heap_formats" "bs = free_blocks (unat (mh_base h)) xs"
  shows "dump_miniheap m lit h = Some (map ucast (heap_line (unat (mh_base h)) (unat (mh_size h)) (unat (free_bytes h)) @
      concat (map (\<lambda>(i, b). block_line i b) (enumerate 0 bs)))) \<and>
    sorted_wrt (<) (map fst bs) \<and> sum_list (map snd bs) = unat (free_bytes h)"
  using dump_miniheap_ok [OF assms] .

definition heap_strings :: "string list" where
  "heap_strings = [''Free block[%d]: addr = %p, size = %u'' @ newline, ''Miniheap dump: base = %p, size = %u, free = %u'' @ newline]"

lemma heap_strings_plain: "plain_strings heap_strings"
  by code_simp

lemma heap_strings_place: "placeable 0x7000 heap_strings" "set heap_strings = heap_formats"
  using heap_strings_plain by (simp_all add: placeable_def heap_strings_def heap_formats_def del: append.simps)

theorem dump_miniheap_lists_free_witness:
  "\<exists>h m lit. heap_rep h m [Free 256] \<and>
     dump_miniheap m lit h = Some (map ucast (heap_line 4096 256 256 @ block_line 0 (4096, 256)))"
proof -
  obtain h m where h: "mh_base h = 0x1000" "mh_size h = 0x100" "heap_rep h m [Free 256]"
    using init_rep [of "0x100" "0x1000" undefined "\<lambda>_. 0"] by auto
  let ?m = "place m 0x7000 heap_strings"
  have "agree (hdrs 4096 [Free 256]) m ?m"
    by (intro agree_sym [OF agree_mono [OF place_agree [OF heap_strings_place(1)]]]) (auto simp: span_nowrap heap_strings_def)
  then have r: "heap_rep h ?m [Free 256]" using h path_frame by (auto simp: heap_rep_def simp del: heap_path.simps hdrs.simps)
  have "literals ?m (place_of 0x7000 heap_strings) heap_formats"
    using place_literals [OF heap_strings_place(1)] by (simp only: heap_strings_place(2))
  moreover have "unat (free_bytes h) = 256" using r by (simp add: heap_rep_def)
  ultimately have "dump_miniheap ?m (place_of 0x7000 heap_strings) h = Some (map ucast (heap_line 4096 256 256 @ block_line 0 (4096, 256)))"
    using dump_miniheap_lists_free [OF r _ refl, of "place_of 0x7000 heap_strings"] h(1,2) by simp
  with r show ?thesis by blast
qed

end
