(* ===== verification/Boot.thy ===== *)
theory Boot
  imports Exception Console
begin

text \<open>
  \<open>platform_init\<close> of \<^verbatim>\<open>src/platform/aarch64/main/main.c\<close>, which brings all components up in order:
  exception vectors, console, heap, interrupt controller, timer and a first periodic timer; then it
  waits for interrupts forever. The model ends where that loop begins. What it prints is in \<^verbatim>\<open>Messages\<close>.
  The theorem puts the results of the component theories together.
\<close>

record 'w platform =
  consoles :: "pl011 console list"
  uart :: pl011
  miniheap_once :: u32
  hyp :: "'w hyper"

definition ZHYPER_HEAP_SIZE :: u64 where "ZHYPER_HEAP_SIZE = 0x100000"

definition on_hyp :: "('w, 'a) hrun \<Rightarrow> 'w platform \<Rightarrow> ('a \<times> 'w platform) outcome option" where
  "on_hyp f p = andthen (f (hyp p)) (\<lambda>(v, s). Some (Inr (v, p\<lparr>hyp := s\<rparr>)))"

definition el2_exception_init :: "symbols \<Rightarrow> 'w hyper \<Rightarrow> 'w hyper" where
  "el2_exception_init sy s =
     hisb (s\<lparr>hgic := (hgic s)\<lparr>gic_trace := set_vbar_el2 (gic_trace (hgic s)) (hyper_vector sy)\<rparr>\<rparr>)"

definition miniheap_init_fn :: "symbols \<Rightarrow> 'w platform \<Rightarrow> (int \<times> 'w platform) outcome option" where
  "miniheap_init_fn sy p =
     (case miniheap_init (g_miniheap (hyp p)) (ram (hyp p)) (heap_start sy) ZHYPER_HEAP_SIZE of
        Inl e \<Rightarrow> Some (Inl e)
      | Inr (_, h, m) \<Rightarrow> Some (Inr (0, p\<lparr>hyp := (hyp p)\<lparr>g_miniheap := h, ram := m\<rparr>\<rparr>)))"

text \<open>The part of \<open>platform_init\<close> after the console: heap, interrupt controller, timer, first timer.\<close>

definition bring_up :: "hardware \<Rightarrow> symbols \<Rightarrow> 'w platform \<Rightarrow> 'w platform outcome option" where
  "bring_up hw sy p =
     andthen (run_once miniheap_once miniheap_once_update (miniheap_init_fn sy) p) (\<lambda>(_, p).
     andthen (on_hyp (on_gic (plat_gicv3_init hw)) p) (\<lambda>(_, p).
     andthen (on_hyp (plat_timer_init hw sy (1000 div HZ hw)) p) (\<lambda>(_, p).
     andthen (on_hyp (create_timer_periodic 1000 (test_timer_cb_at sy) NULL) p) (\<lambda>(timer, p).
     andthen (on_hyp (start_timer hw sy timer NULL) p) (\<lambda>(_, p).
       let (_, tr) = get_current_el hw (gic_trace (hgic (hyp p)))
       in Some (Inr (p\<lparr>hyp := (hyp p)\<lparr>hgic := (hgic (hyp p))\<lparr>gic_trace := tr\<rparr>\<rparr>\<rparr>)))))))"

definition platform_init :: "hardware \<Rightarrow> symbols \<Rightarrow> 'w platform \<Rightarrow> 'w platform outcome option" where
  "platform_init hw sy p =
     (let p = p\<lparr>hyp := el2_exception_init sy (hyp p)\<rparr>
      in case find_console (ram (hyp p)) (consoles p) (pl011_string sy) of
           None \<Rightarrow> None
         | Some None \<Rightarrow> Some (Inl (Panic (''pl011 console not found'' @ newline)))
         | Some (Some i) \<Rightarrow>
             (case console_init (consoles p) (Some i) (uart p) of
                None \<Rightarrow> None
              | Some (_, cs, u) \<Rightarrow> bring_up hw sy (p\<lparr>consoles := cs, uart := u\<rparr>)))"

text \<open>
  The callback of the first timer: it counts its calls; \<^verbatim>\<open>Messages\<close> has what it prints. \<open>s_count\<close> is the state of the rest of
  the program here. Functions other callbacks may point to are the parameter \<open>others\<close>.
\<close>

definition test_timer_cb :: "addr \<Rightarrow> addr \<Rightarrow> u32 hyper \<Rightarrow> u32 hyper outcome option" where
  "test_timer_cb timer a s = Some (Inr (s\<lparr>world := world s + 1\<rparr>))"

definition callback_table :: "symbols \<Rightarrow> u32 callbacks \<Rightarrow> u32 callbacks" where
  "callback_table sy others f = (if f = test_timer_cb_at sy then test_timer_cb else others f)"

text \<open>The loop at the end of \<open>platform_init\<close>, up to the \<open>n\<close>-th interrupt: \<open>wfi\<close> waits for one, the vector runs \<open>el2_irq\<close>.\<close>

fun wfi_loop :: "'w handlers \<Rightarrow> hardware \<Rightarrow> addr \<Rightarrow> nat \<Rightarrow> 'w hyper \<Rightarrow> 'w hyper outcome option" where
  "wfi_loop handlers hw regs 0 s = Some (Inr s)"
| "wfi_loop handlers hw regs (Suc n) s = andthen (el2_irq handlers hw regs s) (\<lambda>(_, s). wfi_loop handlers hw regs n s)"

section \<open>The steps\<close>

lemma miniheap_init_fn_ok:
  assumes "heap_start sy \<noteq> NULL" "unat (heap_start sy) + 0x100000 < 18446744073709551616"
  obtains h m where "miniheap_init_fn sy p = Some (Inr (0, p\<lparr>hyp := (hyp p)\<lparr>g_miniheap := h, ram := m\<rparr>\<rparr>))"
    "heap_owns h m {}" "heap_region h = span (heap_start sy) 0x100000" "unat (mh_size h) = 0x100000"
proof -
  obtain h m where i: "miniheap_init (g_miniheap (hyp p)) (ram (hyp p)) (heap_start sy) ZHYPER_HEAP_SIZE = Inr (0, h, m)"
    "mh_base h = heap_start sy" "mh_size h = 0x100000" "heap_rep h m [Free 0x100000]"
    using init_rep [of ZHYPER_HEAP_SIZE "heap_start sy" "g_miniheap (hyp p)" "ram (hyp p)"] assms
    by (auto simp: ZHYPER_HEAP_SIZE_def)
  then show ?thesis using that heap_ownsI [OF i(4)] by (auto simp: miniheap_init_fn_def heap_region_def)
qed

text \<open>On an empty heap there is room for a timer.\<close>

lemma create_first_timer:
  assumes ok: "timers_ok mgr s {} []" and sz: "unat (mh_size (g_miniheap s)) = 0x100000"
  obtains t c h m where "create_timer p ms f a s = Some (Inr (t, s\<lparr>g_miniheap := h, ram := m\<rparr>))" "56 \<le> c"
    "timers_ok mgr (s\<lparr>g_miniheap := h, ram := m\<rparr>) {(t, c)} []" "is_periodic m t = p" "callback m t = f" "interval_ms m t = ms"
    "nr_timers m mgr = nr_timers (ram s) mgr" "heap_region h = heap_region (g_miniheap s)"
proof -
  have o: "heap_owns (g_miniheap s) (ram s) {}" using ok by (simp add: timers_ok_def)
  then have "unat (mh_base (g_miniheap s)) + 0x100000 < 18446744073709551616"
    using sz by (auto simp: heap_owns_def heap_rep_def)
  then have "unat (mh_base (g_miniheap s) + 16) = unat (mh_base (g_miniheap s)) + 16" by (subst unat_add64) auto
  then have nn: "mh_base (g_miniheap s) + 16 \<noteq> NULL" by auto
  have "mh_size (g_miniheap s) \<noteq> 0" using sz by auto
  then obtain h' m' where "malloc (g_miniheap s) (ram s) 56 = Some (h', m', mh_base (g_miniheap s) + 16)"
    using empty_heap_alloc [OF o, of 56] sz by (auto simp: block_size_def)
  then have "create_timer p ms f a s \<noteq> Some (Inr (NULL, s))"
    using nn by (simp add: create_timer_def sizeof_timer_def hret_def)
  then obtain t c h m where c: "create_timer p ms f a s = Some (Inr (t, s\<lparr>g_miniheap := h, ram := m\<rparr>))" "56 \<le> c"
    "timers_ok mgr (s\<lparr>g_miniheap := h, ram := m\<rparr>) {(t, c)} []" "is_periodic m t = p" "callback m t = f" "interval_ms m t = ms"
    "agree (timer_bytes mgr []) m (ram s)" "heap_region h = heap_region (g_miniheap s)"
    using create_timer_ok [OF ok, of p ms f a] by auto
  moreover have "nr_timers m mgr = nr_timers (ram s) mgr"
    unfolding nr_timers_def by (rule c32.rd_frame [OF c(7)]) (use manager_fields(4) [of mgr] in \<open>simp add: timer_bytes_def\<close>)
  ultimately show ?thesis using that by blast
qed

text \<open>Starting a timer on this processor's manager.\<close>

lemma start_timer_here:
  assumes "boots hw cpu" "manager_of sy cpu \<noteq> NULL" "t \<noteq> NULL"
  shows "\<exists>x. start_timer hw sy t NULL s = start_timer hw sy t (manager_of sy cpu)
    (s\<lparr>hgic := (hgic s)\<lparr>gic_trace := gic_trace (hgic s) @ [Mrs ''MPIDR_EL1'' x]\<rparr>\<rparr>)"
proof -
  obtain x where "get_percpu_timer_manager hw sy s =
      Some (Inr (manager_of sy cpu, s\<lparr>hgic := (hgic s)\<lparr>gic_trace := gic_trace (hgic s) @ [Mrs ''MPIDR_EL1'' x]\<rparr>\<rparr>))"
    using get_manager [OF assms(1)] by metis
  then show ?thesis using assms(2,3) by (intro exI [of _ x]) (simp add: start_timer_def hret_def)
qed

text \<open>The interrupt controller of a processor that has been initialised is ready for its private interrupts.\<close>

lemma booted_ready:
  assumes "boots hw cpu" "gicr_settles hw b" "plain hw rst (private_plain (b + 0x10000))"
    "gicr_regs (gicr_of cpu g) = b" "gicr_sgi_regs (gicr_of cpu g) = b + 0x10000"
  shows "private_ready hw rst cpu g"
  using assms by (simp add: private_ready_def boots_def gicr_settles_def Let_def)

text \<open>What the machine and the layout of the image have to provide for the start of one processor.\<close>

definition boot_hw :: "hardware \<Rightarrow> (addr \<Rightarrow> u32) \<Rightarrow> u32 \<Rightarrow> addr \<Rightarrow> bool" where
  "boot_hw hw rst cpu b \<longleftrightarrow> boots hw cpu \<and> settles hw (gicd_reg GICD_BASE ''statusr'' 0) rwp_set \<and> gicr_settles hw b \<and>
     plain hw rst (private_plain (b + 0x10000))"

definition boot_layout :: "symbols \<Rightarrow> u32 \<Rightarrow> bool" where
  "boot_layout sy cpu \<longleftrightarrow> heap_start sy \<noteq> NULL \<and> unat (heap_start sy) + 0x100000 < 18446744073709551616 \<and>
     manager_of sy cpu \<noteq> NULL \<and> span (manager_of sy cpu) 32 \<inter> span (heap_start sy) 0x100000 = {}"

text \<open>The first timer: created, then started on this processor's manager.\<close>

lemma first_timer:
  fixes s :: "'w hyper"
  assumes b: "boots hw cpu" "manager_of sy cpu \<noteq> NULL" and ok: "timers_ok (manager_of sy cpu) s {} []"
    and sz: "unat (mh_size (g_miniheap s)) = 0x100000" and n: "nr_timers (ram s) (manager_of sy cpu) = 0"
  shows "\<exists>t c x h m m1. create_timer True ms f NULL s = Some (Inr (t, s\<lparr>g_miniheap := h, ram := m1\<rparr>)) \<and>
    start_timer hw sy t NULL (s\<lparr>g_miniheap := h, ram := m1\<rparr>) =
       Some (Inr (0, s\<lparr>g_miniheap := h, hgic := (hgic s)\<lparr>gic_trace := gic_trace (hgic s) @ [Mrs ''MPIDR_EL1'' x]\<rparr>, ram := m\<rparr>)) \<and>
    timers_ok (manager_of sy cpu) (s\<lparr>g_miniheap := h, ram := m\<rparr>) {(t, c)} [t] \<and> is_active m t \<and> is_periodic m t \<and>
    callback m t = f \<and> interval_ms m t = ms \<and> nr_timers m (manager_of sy cpu) = 1 \<and>
    heap_region h = heap_region (g_miniheap s)"
proof -
  let ?mgr = "manager_of sy cpu"
  obtain t c h m1 where crt: "create_timer True ms f NULL s = Some (Inr (t, s\<lparr>g_miniheap := h, ram := m1\<rparr>))"
    "56 \<le> c" "timers_ok ?mgr (s\<lparr>g_miniheap := h, ram := m1\<rparr>) {(t, c)} []" "is_periodic m1 t" "callback m1 t = f"
    "interval_ms m1 t = ms" "nr_timers m1 ?mgr = nr_timers (ram s) ?mgr" "heap_region h = heap_region (g_miniheap s)"
    by (rule create_first_timer [OF ok sz, of True ms f NULL]) simp
  have nn: "t \<noteq> NULL" using heap.not_null [of h m1 "{(t, c)}" t c] crt(3) by (simp add: timers_ok_def)
  obtain x where here: "start_timer hw sy t NULL (s\<lparr>g_miniheap := h, ram := m1\<rparr>) = start_timer hw sy t ?mgr
      (s\<lparr>g_miniheap := h, ram := m1, hgic := (hgic s)\<lparr>gic_trace := gic_trace (hgic s) @ [Mrs ''MPIDR_EL1'' x]\<rparr>\<rparr>)"
    using start_timer_here [OF b nn, of "s\<lparr>g_miniheap := h, ram := m1\<rparr>"] by (elim exE) simp
  let ?s = "s\<lparr>g_miniheap := h, ram := m1, hgic := (hgic s)\<lparr>gic_trace := gic_trace (hgic s) @ [Mrs ''MPIDR_EL1'' x]\<rparr>\<rparr>"
  have "timers_ok ?mgr ?s {(t, c)} []" using crt(3) by (simp add: timers_ok_def)
  from start_timer_ok [OF this singletonI crt(2) _ b(2)] obtain m where
    st: "start_timer hw sy t ?mgr ?s = Some (Inr (0, ?s\<lparr>ram := m\<rparr>))" "timers_ok ?mgr (?s\<lparr>ram := m\<rparr>) {(t, c)} [t]"
      "is_active m t" "is_periodic m t = is_periodic m1 t" "callback m t = callback m1 t" "interval_ms m t = interval_ms m1 t"
      "nr_timers m ?mgr = nr_timers m1 ?mgr + 1" by auto
  have "timers_ok ?mgr (s\<lparr>g_miniheap := h, ram := m\<rparr>) {(t, c)} [t]" using st(2) by (simp add: timers_ok_def)
  then show ?thesis
    by (intro exI [of _ t] exI [of _ c] exI [of _ x] exI [of _ h] exI [of _ m] exI [of _ m1] conjI) (use st here crt n in simp_all)
qed

lemma bring_up_ok:
  fixes p :: "'w platform"
  assumes hw: "boot_hw hw rst cpu (GICR_BASE + ucast (GICR_STRIDE * gicr_cpu_id (gicr_of cpu (hgic (hyp p)))))"
    and sy: "boot_layout sy cpu" and once: "miniheap_once p = 0"
  obtains s t c where "bring_up hw sy p = Some (Inr (p\<lparr>miniheap_once := 1, hyp := s\<rparr>))"
    "timers_ok (manager_of sy cpu) s {(t, c)} [t]" "is_active (ram s) t" "is_periodic (ram s) t"
    "callback (ram s) t = test_timer_cb_at sy" "interval_ms (ram s) t = 1000" "nr_timers (ram s) (manager_of sy cpu) = 1"
    "timer_irq_ready sy cpu (manager_of sy cpu) (hgic s)" "\<forall>j < 32. cf_enabled (private_config rst en cpu (hgic s) j) = (j = 26)"
    "heap_region (g_miniheap s) = span (heap_start sy) 0x100000" "world s = world (hyp p)" "g_counter s = g_counter (hyp p)"
proof -
  let ?mgr = "manager_of sy cpu" and ?k = "gicr_cpu_id (gicr_of cpu (hgic (hyp p)))" and ?s = "hyp p"
  let ?b = "GICR_BASE + ucast (GICR_STRIDE * ?k)"
  note h = hw [unfolded boot_hw_def] and l = sy [unfolded boot_layout_def]
  obtain hp m where heap: "miniheap_init_fn sy p = Some (Inr (0, p\<lparr>hyp := ?s\<lparr>g_miniheap := hp, ram := m\<rparr>\<rparr>))"
    "heap_owns hp m {}" "heap_region hp = span (heap_start sy) 0x100000" "unat (mh_size hp) = 0x100000"
    using miniheap_init_fn_ok [of sy p] l by metis
  obtain g1 where gic: "plat_gicv3_init hw (hgic ?s) = Some (Inr (0, g1))" "gicr_regs (gicr_of cpu g1) = ?b"
    "gicr_sgi_regs (gicr_of cpu g1) = ?b + 0x10000" "\<forall>j < 32. \<not> cf_enabled (private_config rst en cpu g1 j)"
    using plat_gicv3_init_ok [of hw cpu ?k "hgic ?s" rst en] h by auto
  define s1 where "s1 = ?s\<lparr>g_miniheap := hp, ram := m, hgic := g1\<rparr>"
  have "private_ready hw rst cpu (hgic s1)" using booted_ready [OF _ _ _ gic(2,3)] h by (simp add: s1_def)
  from plat_timer_init_ok [OF this refl, where sy = sy and L = "{}" and ms = "1000 div HZ hw" and en = en] obtain s2 where
    tim: "plat_timer_init hw sy (1000 div HZ hw) s1 = Some (Inr ((), s2))" "timers_ok ?mgr s2 {} []" "nr_timers (ram s2) ?mgr = 0"
      "g_miniheap s2 = hp" "timer_irq_ready sy cpu ?mgr (hgic s2)" "world s2 = world ?s" "g_counter s2 = g_counter ?s"
    and cfg: "\<forall>j < 32. private_config rst en cpu (hgic s2) j = (if j = 26 then (private_config rst en cpu g1 j)
         \<lparr>cf_enabled := True, cf_priority := 0x80, cf_trigger := 1, cf_group := True\<rparr> else private_config rst en cpu g1 j)"
    using l heap by (auto simp: s1_def)
  obtain t c x h3 m4 m3 where crt: "create_timer True 1000 (test_timer_cb_at sy) NULL s2 = Some (Inr (t, s2\<lparr>g_miniheap := h3, ram := m3\<rparr>))"
    and st: "start_timer hw sy t NULL (s2\<lparr>g_miniheap := h3, ram := m3\<rparr>) =
       Some (Inr (0, s2\<lparr>g_miniheap := h3, hgic := (hgic s2)\<lparr>gic_trace := gic_trace (hgic s2) @ [Mrs ''MPIDR_EL1'' x]\<rparr>, ram := m4\<rparr>))"
    and t: "timers_ok ?mgr (s2\<lparr>g_miniheap := h3, ram := m4\<rparr>) {(t, c)} [t]" "is_active m4 t" "is_periodic m4 t"
      "callback m4 t = test_timer_cb_at sy" "interval_ms m4 t = 1000" "nr_timers m4 ?mgr = 1" "heap_region h3 = heap_region hp"
    using first_timer [OF _ _ tim(2) _ tim(3), of hw 1000 "test_timer_cb_at sy"] h l tim(4) heap(4) by (elim meta_impE) auto
  define y where "y = sysreg_rd hw (gic_trace (hgic s2) @ [Mrs ''MPIDR_EL1'' x]) ''CurrentEL''"
  define g where "g = (hgic s2)\<lparr>gic_trace := gic_trace (hgic s2) @ [Mrs ''MPIDR_EL1'' x, Mrs ''CurrentEL'' y]\<rparr>"
  have "run_once miniheap_once miniheap_once_update (miniheap_init_fn sy) p =
      Some (Inr (0, p\<lparr>miniheap_once := 1, hyp := ?s\<lparr>g_miniheap := hp, ram := m\<rparr>\<rparr>))"
    using heap(1) once by (simp add: run_once_def)
  then have "bring_up hw sy p = Some (Inr (p\<lparr>miniheap_once := 1, hyp := s2\<lparr>g_miniheap := h3, ram := m4, hgic := g\<rparr>\<rparr>))"
    by (simp add: bring_up_def on_hyp_def on_gic_def hret_def gic(1) s1_def [symmetric] tim(1) create_timer_periodic_def crt st
        get_current_el_def read_sysreg_def y_def [symmetric] g_def Let_def)
  moreover have "private_config rst en cpu g = private_config rst en cpu (hgic s2)" "timer_irq_ready sy cpu ?mgr g"
    using tim(5) by (simp_all add: g_def private_config_quiet timer_irq_ready_def)
  ultimately show ?thesis using that [of "s2\<lparr>g_miniheap := h3, ram := m4, hgic := g\<rparr>" t c] t cfg gic(4) tim(6,7) heap(3) by (simp add: timers_ok_def)
qed

text \<open>The state the platform is in from then on.\<close>

definition ticking :: "symbols \<Rightarrow> u32 \<Rightarrow> addr \<Rightarrow> nat \<Rightarrow> 'w hyper \<Rightarrow> bool" where
  "ticking sy cpu t c s \<longleftrightarrow> timers_ok (manager_of sy cpu) s {(t, c)} [t] \<and> is_active (ram s) t \<and> is_periodic (ram s) t \<and>
     callback (ram s) t = test_timer_cb_at sy \<and> timer_irq_ready sy cpu (manager_of sy cpu) (hgic s) \<and>
     heap_region (g_miniheap s) = span (heap_start sy) 0x100000"

lemma platform_init_ok:
  assumes "boot_hw hw rst cpu (GICR_BASE + ucast (GICR_STRIDE * gicr_cpu_id (gicr_of cpu (hgic (hyp p)))))"
    and "boot_layout sy cpu" "miniheap_once p = 0"
    and con: "find_console (ram (hyp p)) (consoles p) (pl011_string sy) = Some (Some i)" "i < length (consoles p)"
      "con_ops (consoles p ! i) = Some (s_pl011_ops hw)"
  shows "\<exists>p' t c. ticking sy cpu t c (hyp p') \<and> world (hyp p') = world (hyp p) \<and>
    g_counter (hyp p') = g_counter (hyp p) \<and> platform_init hw sy p = Some (Inr p') \<and> con_enabled (consoles p' ! i) \<and>
    g_pl011_base_addr (uart p') = PL011_BASE_ADDR \<and> miniheap_once p' = 1 \<and>
    timers_ok (manager_of sy cpu) (hyp p') {(t, c)} [t] \<and> is_active (ram (hyp p')) t \<and> is_periodic (ram (hyp p')) t \<and>
    callback (ram (hyp p')) t = test_timer_cb_at sy \<and> interval_ms (ram (hyp p')) t = 1000 \<and>
    nr_timers (ram (hyp p')) (manager_of sy cpu) = 1 \<and> timer_irq_ready sy cpu (manager_of sy cpu) (hgic (hyp p')) \<and>
    (\<forall>j < 32. cf_enabled (private_config rst en cpu (hgic (hyp p')) j) = (j = 26))"
proof -
  define p1 where "p1 = p\<lparr>hyp := el2_exception_init sy (hyp p), consoles := set_enabled (consoles p) i True,
    uart := pl011_init PL011_BASE_ADDR (uart p)\<rparr>"
  have s0: "ram (el2_exception_init sy (hyp p)) = ram (hyp p)" "gicr_of cpu (hgic (hyp p1)) = gicr_of cpu (hgic (hyp p))"
      "world (hyp p1) = world (hyp p)" "g_counter (hyp p1) = g_counter (hyp p)"
    by (simp_all add: p1_def el2_exception_init_def hisb_def gisb_def)
  have "console_init (consoles p) (Some i) (uart p) = Some (0, set_enabled (consoles p) i True, pl011_init PL011_BASE_ADDR (uart p))"
    using con(3) by (simp add: console_init_def the_op_def s_pl011_ops_def pl011_op_init_def)
  then have run: "platform_init hw sy p = bring_up hw sy p1"
    using con(1) by (simp add: platform_init_def s0(1) p1_def Let_def)
  have "con_enabled (consoles p1 ! i)" using con(2) by (simp add: p1_def set_enabled_def)
  moreover have "g_pl011_base_addr (uart p1) = PL011_BASE_ADDR" by (simp add: p1_def pl011_init_def reg_write_def Let_def)
  moreover have "miniheap_once p1 = 0" using assms(3) by (simp add: p1_def)
  ultimately show ?thesis
    unfolding run using bring_up_ok [of hw rst cpu p1 sy en, unfolded s0(2-4), OF assms(1,2), of thesis for thesis]
    by (elim meta_impE meta_allE) (auto simp: ticking_def intro!: exI)
qed

text \<open>One interrupt of the timer.\<close>

lemma tick:
  assumes "boots hw cpu" "manager_of sy cpu \<noteq> NULL" "timer_irq_handler_at sy \<noteq> NULL" "test_timer_cb_at sy \<noteq> NULL"
    and iar: "\<forall>tr. ucast (sysreg_rd hw tr ''ICC_IAR1_EL1'') = (26 :: u32)"
    and pol: "polite others eff (span (heap_start sy) 0x100000 \<union> span (manager_of sy cpu) 32)"
    and tk: "ticking sy cpu t c s"
  shows "\<exists>s'. el2_irq (image sy (callback_table sy others) hs hw) hw regs s = Some (Inr (0, s')) \<and> ticking sy cpu t c s' \<and>
    world s' = world s + 1 \<and> g_counter s' = g_counter s + 1"
proof -
  let ?mgr = "manager_of sy cpu" and ?eff = "\<lambda>f t a w. if f = test_timer_cb_at sy then w + 1 else eff f t a w"
  note k = tk [unfolded ticking_def]
  have "polite (callback_table sy others) ?eff (heap_region (g_miniheap s) \<union> span ?mgr 32)"
    unfolding polite_def
  proof (intro allI)
    fix f t a and u :: "u32 hyper"
    show "\<exists>m. callback_table sy others f t a u = Some (Inr (u\<lparr>ram := m, world := ?eff f t a (world u)\<rparr>)) \<and>
        agree (heap_region (g_miniheap s) \<union> span ?mgr 32) m (ram u)"
    proof (cases "f = test_timer_cb_at sy")
      case True
      then show ?thesis by (intro exI [of _ "ram u"]) (simp add: callback_table_def test_timer_cb_def)
    next
      case False
      then show ?thesis using pol k unfolding polite_def by (simp add: callback_table_def)
    qed
  qed
  moreover have "stays (ram s) t" "fires ?eff (ram s) t (world s) = world s + 1" using k assms(4) by (simp_all add: stays_def fires_def)
  ultimately obtain s' where s': "el2_irq (image sy (callback_table sy others) hs hw) hw regs s = Some (Inr (0, s'))"
    "timers_ok ?mgr s' {(t, c)} [t]" "world s' = world s + 1" "g_counter s' = g_counter s + 1" "agree (span t 40) (ram s') (ram s)"
    "timer_irq_ready sy cpu ?mgr (hgic s')" "heap_region (g_miniheap s') = heap_region (g_miniheap s)"
    using el2_irq_ok [OF assms(1) _ assms(2,3) _ _ , of s "{(t, c)}" "[t]" "callback_table sy others" ?eff hs regs] k iar
    by (auto simp: without_def)
  moreover note timer_frame [OF s'(5) subset_refl]
  ultimately show ?thesis using k by (auto simp: ticking_def)
qed

lemma ticks:
  assumes "boots hw cpu" "manager_of sy cpu \<noteq> NULL" "timer_irq_handler_at sy \<noteq> NULL" "test_timer_cb_at sy \<noteq> NULL"
    "\<forall>tr. ucast (sysreg_rd hw tr ''ICC_IAR1_EL1'') = (26 :: u32)"
    "polite others eff (span (heap_start sy) 0x100000 \<union> span (manager_of sy cpu) 32)" "ticking sy cpu t c s"
  shows "\<exists>s'. wfi_loop (image sy (callback_table sy others) hs hw) hw regs n s = Some (Inr s') \<and> ticking sy cpu t c s' \<and>
    world s' = world s + of_nat n \<and> g_counter s' = g_counter s + of_nat n"
  using assms(7)
proof (induction n arbitrary: s)
  case (Suc n)
  obtain s1 where s1: "el2_irq (image sy (callback_table sy others) hs hw) hw regs s = Some (Inr (0, s1))" "ticking sy cpu t c s1"
    "world s1 = world s + 1" "g_counter s1 = g_counter s + 1" using tick [OF assms(1-6) Suc.prems, of hs regs] by auto
  then show ?case using Suc.IH [OF s1(2)] by auto
qed simp

section \<open>Properties\<close>



text \<open>A machine with one processor on which the statement applies.\<close>

definition boot_demo_hw :: hardware where
  "boot_demo_hw = \<lparr>mmio_rd = (\<lambda>tr a. if 0x80b0000 \<le> a then shadow (\<lambda>_. 0) tr a else 0), mmio_rd64 = (\<lambda>_ _. 0),
     sysreg_rd = (\<lambda>_ r. if r = ''ICC_IAR1_EL1'' then 26 else 0), NR_CPU = 1, HZ = 250\<rparr>"

lemma boot_demo_settles: "a < 0x80b0000 \<Longrightarrow> \<not> P 0 \<Longrightarrow> settles boot_demo_hw a P"
  by (auto simp: settles_def seen_def boot_demo_hw_def word_le_def word_less_def)

lemma boot_demo_plain: "plain boot_demo_hw (\<lambda>_. 0) (private_plain (GICR_BASE + 0x10000))"
proof -
  have "134938624 \<le> uint (134939648 + 4 * ucast k :: addr)" if "uint k < 8" for k :: u32
    using that uint_ge_0 [of k] by (simp add: uint_word_ariths uint_up_ucast is_up)
  then have "0x80b0000 \<le> a" if "a \<in> private_plain (GICR_BASE + 0x10000)" for a
    using that by (auto simp: private_plain_def gicr_sgi_reg_def GICR_BASE_def word_le_def word_less_def)
  then show ?thesis by (auto simp: plain_def boot_demo_hw_def)
qed

definition boot_demo :: "u32 platform" where
  "boot_demo = \<lparr>consoles = [pl011_console boot_demo_hw 0x7100], uart = \<lparr>g_pl011_base_addr = 0, pl_trace = []\<rparr>, miniheap_once = 0,
     hyp = \<lparr>hgic = zero_gic, g_miniheap = demo_heap,
       ram = (\<lambda>_. 0)(0x7000 := 112, 0x7001 := 108, 0x7100 := 112, 0x7101 := 108), g_counter = 0, world = 0\<rparr>\<rparr>"

definition boot_symbols :: symbols where "boot_symbols = demo_symbols\<lparr>heap_start := 0x100000\<rparr>"

lemma boot_demo_ok:
  "boot_hw boot_demo_hw (\<lambda>_. 0) 0 (GICR_BASE + ucast (GICR_STRIDE * gicr_cpu_id (gicr_of 0 (hgic (hyp boot_demo)))))"
  "manager_of boot_symbols 0 = 0x5000" "boot_layout boot_symbols 0" "miniheap_once boot_demo = 0"
  "find_console (ram (hyp boot_demo)) (consoles boot_demo) (pl011_string boot_symbols) = Some (Some 0)"
  "0 < length (consoles boot_demo)" "con_ops (consoles boot_demo ! 0) = Some (s_pl011_ops boot_demo_hw)"
proof -
  have "boot_hw boot_demo_hw (\<lambda>_. 0) 0 GICR_BASE"
    using boot_demo_plain unfolding boot_hw_def boots_def gicr_settles_def
    by (auto simp: gicr_reg_def gicd_reg_def GICR_BASE_def GICD_BASE_def gicr_rwp_set_def asleep_def rwp_set_def
        boot_demo_hw_def [THEN arg_cong [where f = sysreg_rd]] boot_demo_hw_def [THEN arg_cong [where f = NR_CPU]]
        intro!: boot_demo_settles)
  then show "boot_hw boot_demo_hw (\<lambda>_. 0) 0 (GICR_BASE + ucast (GICR_STRIDE * gicr_cpu_id (gicr_of 0 (hgic (hyp boot_demo)))))"
    by (simp add: boot_demo_def zero_gic_def zero_gicd_def zero_gicr_def)
  show m: "manager_of boot_symbols 0 = 0x5000" by (simp add: manager_of_def demo_symbols_def boot_symbols_def)
  then show "boot_layout boot_symbols 0" by (auto simp: boot_layout_def span_nowrap boot_symbols_def)
  show "find_console (ram (hyp boot_demo)) (consoles boot_demo) (pl011_string boot_symbols) = Some (Some 0)"
  proof -
    have "cstr (ram (hyp boot_demo)) 0x7100 [112, 108]" "cstr (ram (hyp boot_demo)) 0x7000 [112, 108]" by (simp_all add: boot_demo_def)
    from strcmp_cstr [OF this] show ?thesis
      by (auto simp: find_console_def boot_demo_def pl011_console_def demo_symbols_def boot_symbols_def)
  qed
qed (simp_all add: boot_demo_def pl011_console_def)



end
