(* ===== verification/Messages.thy ===== *)
theory Messages
  imports Exc_Report Report Boot Stress
begin

text \<open>
  The progress messages: the calls of \<open>printf\<close> in \<open>platform_init\<close> and the callback of its timer (\<^verbatim>\<open>main.c\<close>), in
  \<open>plat_timer_init\<close> (\<^verbatim>\<open>timer.c\<close>), in the drivers of the interrupt controller (\<^verbatim>\<open>gicd.c\<close>, \<^verbatim>\<open>gicr.c\<close>, \<^verbatim>\<open>gicv3.c\<close>, \<^verbatim>\<open>ppi.c\<close>) and in the
  stress test. The functions themselves are in the theories of their components; here are the
  arguments they pass. Every message prints: each format gets as many arguments as it has conversions.
\<close>

section \<open>The calls\<close>

definition platform_start_calls :: "(string \<times> u64 list) list" where
  "platform_start_calls = [(''Platform initialization started'' @ newline, [])]"

definition platform_done_calls :: "hardware \<Rightarrow> trace \<Rightarrow> (string \<times> u64 list) list" where
  "platform_done_calls hw tr =
     [(''software EL: %d'' @ newline, [ucast (fst (get_current_el hw tr))]), (''Platform initialized'' @ newline, [])]"

text \<open>\<open>s_count++\<close>, then the message; \<open>n\<close> is the counter before the call.\<close>

definition timer_cb_call :: "u32 \<Rightarrow> string \<times> u64 list" where
  "timer_cb_call n = (''Timer callback invoked! Counter: %d'' @ newline, [ucast (n + 1)])"

definition timer_init_calls :: "u64 \<Rightarrow> u32 \<Rightarrow> (string \<times> u64 list) list" where
  "timer_init_calls cntfrq_el0 ms =
     [(''frequency: %lu Hz, interval: %u ms, cntv_tval: %lu'' @ newline, [cntfrq_el0, ucast ms, (cntfrq_el0 div 1000) * ucast ms])]"

definition gicd_init_calls :: "(string \<times> u64 list) list" where
  "gicd_init_calls = [(''GICv3 Distributor init: 0x%lx'' @ newline, [gicd_reg GICD_BASE ''ctlr'' 0])]"

definition gicd_done_calls :: "(string \<times> u64 list) list" where "gicd_done_calls = [(''gicd init done!'' @ newline, [])]"

definition gicr_init_calls :: "gicr_context \<Rightarrow> (string \<times> u64 list) list" where
  "gicr_init_calls r =
     [(''GICR: plpis=%u, vlpis=%u, direct_lpis=%u, last=%u, dpgs=%u, processor_number=%u, common_lpi_aff=%u, affinity=0x%lx'' @ newline,
       [of_bool (plpis r), of_bool (vlpis r), of_bool (direct_lpis r), of_bool (gicr_last r), of_bool (dpgs r),
        ucast (processor_number r), ucast (common_lpi_aff r), ucast (gicr_affinity r)])]"

definition invalid_intid_calls :: "u32 \<Rightarrow> (string \<times> u64 list) list" where
  "invalid_intid_calls i = [(''Invalid intid: %u'' @ newline, [ucast i])]"

definition invalid_ppi_calls :: "irq_context \<Rightarrow> (string \<times> u64 list) list" where
  "invalid_ppi_calls ctx = [(''Invalid PPI intid: %u'' @ newline, [ucast (intid ctx)])]"

definition stress_start_calls :: "stress \<Rightarrow> (string \<times> u64 list) list" where
  "stress_start_calls st =
     [(''===== miniheap reliability stress test start ====='' @ newline, []),
      (''heap size=%u free=%u slots=%u loops=%u'' @ newline,
       [mh_size (st_heap st), free_bytes (st_heap st), of_nat STRESS_SLOTS, of_nat STRESS_ITERATIONS])]"

definition stress_pass_text :: "(string \<Rightarrow> addr) \<Rightarrow> stress \<Rightarrow> u32 list option" where
  "stress_pass_text lit st =
     (let m = st_mem st
      in Option.bind (printfs m lit [(''miniheap stress PASS: alloc_ok=%u alloc_fail=%u free_ok=%u verify_ok=%u'' @ newline,
             [ucast (alloc_ok st), ucast (alloc_fail st), ucast (free_ok st), ucast (verify_ok st)])]) (\<lambda>a.
         Option.bind (dump_miniheap m lit (st_heap st)) (\<lambda>b.
         Option.bind (printfs m lit [(''===== miniheap reliability stress test end ====='' @ newline, [])]) (\<lambda>c. Some (a @ b @ c)))))"

text \<open>Before its last panic, when memory is lost.\<close>

definition stress_mismatch_text :: "(string \<Rightarrow> addr) \<Rightarrow> stress \<Rightarrow> u32 list option" where
  "stress_mismatch_text lit st =
     (let m = st_mem st
      in Option.bind (printfs m lit [(''heap final state mismatch: size=%u free=%u'' @ newline, [mh_size (st_heap st), free_bytes (st_heap st)])]) (\<lambda>a.
         map_option ((@) a) (dump_miniheap m lit (st_heap st))))"

section \<open>Every message prints\<close>

definition message_formats :: "(string \<times> conv list) list" where
  "message_formats =
     [(''Platform initialization started'' @ newline, []), (''software EL: %d'' @ newline, [Cd]), (''Platform initialized'' @ newline, []),
      (''Timer callback invoked! Counter: %d'' @ newline, [Cd]),
      (''frequency: %lu Hz, interval: %u ms, cntv_tval: %lu'' @ newline, [Clu, Cu, Clu]),
      (''GICv3 Distributor init: 0x%lx'' @ newline, [Clx]), (''gicd init done!'' @ newline, []),
      (''GICR: plpis=%u, vlpis=%u, direct_lpis=%u, last=%u, dpgs=%u, processor_number=%u, common_lpi_aff=%u, affinity=0x%lx'' @ newline,
       [Cu, Cu, Cu, Cu, Cu, Cu, Cu, Clx]),
      (''Invalid intid: %u'' @ newline, [Cu]), (''Invalid PPI intid: %u'' @ newline, [Cu]),
      (''===== miniheap reliability stress test start ====='' @ newline, []),
      (''heap size=%u free=%u slots=%u loops=%u'' @ newline, [Cu, Cu, Cu, Cu]),
      (''miniheap stress PASS: alloc_ok=%u alloc_fail=%u free_ok=%u verify_ok=%u'' @ newline, [Cu, Cu, Cu, Cu]),
      (''===== miniheap reliability stress test end ====='' @ newline, []),
      (''heap final state mismatch: size=%u free=%u'' @ newline, [Cu, Cu])]"

lemma message_formats_ok: "formats_ok message_formats"
  by code_simp

lemmas message_defs = platform_start_calls_def platform_done_calls_def timer_cb_call_def timer_init_calls_def gicd_init_calls_def gicd_done_calls_def
  gicr_init_calls_def invalid_intid_calls_def invalid_ppi_calls_def stress_start_calls_def

lemma messages_fit:
  "calls_fit m message_formats platform_start_calls" "calls_fit m message_formats (platform_done_calls hw tr)"
  "calls_fit m message_formats [timer_cb_call n]" "calls_fit m message_formats (timer_init_calls f ms)"
  "calls_fit m message_formats gicd_init_calls" "calls_fit m message_formats gicd_done_calls" "calls_fit m message_formats (gicr_init_calls r)"
  "calls_fit m message_formats (invalid_intid_calls i)" "calls_fit m message_formats (invalid_ppi_calls ctx)"
  "calls_fit m message_formats (stress_start_calls st)"
  by (simp_all add: calls_fit_def message_formats_def message_defs arg_ok_def split: prod.split del: append.simps)

theorem messages_print:
  assumes "literals m lit L" "fst ` set message_formats \<subseteq> L"
    and "cs \<in> {platform_start_calls, platform_done_calls hw tr, [timer_cb_call n], timer_init_calls f ms, gicd_init_calls, gicd_done_calls, gicr_init_calls r,
      invalid_intid_calls i, invalid_ppi_calls ctx, stress_start_calls st}"
  shows "\<exists>s. printfs m lit cs = Some s"
proof (rule printfs_total [OF assms(1,2) message_formats_ok])
  show "calls_fit m message_formats cs" using assms(3) messages_fit by blast
qed

text \<open>The end of the stress test: it lists the free memory, after the numbers of its operations or of the bytes lost.\<close>

lemma stress_prints:
  assumes "heap_rep (st_heap st) (st_mem st) xs" "literals (st_mem st) lit L" "fst ` set message_formats \<union> heap_formats \<subseteq> L"
    and "list = map ucast (heap_line (unat (mh_base (st_heap st))) (unat (mh_size (st_heap st))) (unat (free_bytes (st_heap st))) @
      concat (map (\<lambda>(i, b). block_line i b) (enumerate 0 (free_blocks (unat (mh_base (st_heap st))) xs))))"
  shows "\<exists>a c. stress_pass_text lit st = Some (a @ list @ c)" "\<exists>a. stress_mismatch_text lit st = Some (a @ list)"
proof -
  have l: "literals (st_mem st) lit heap_formats" and f: "fst ` set message_formats \<subseteq> L" using assms(2,3) by (auto simp: literals_def)
  note dump = dump_miniheap_ok [OF assms(1) l refl, THEN conjunct1]
  let ?pass = "(''miniheap stress PASS: alloc_ok=%u alloc_fail=%u free_ok=%u verify_ok=%u'' @ newline,
    [ucast (alloc_ok st), ucast (alloc_fail st), ucast (free_ok st), ucast (verify_ok st)]) :: string \<times> u64 list"
  let ?last = "(''===== miniheap reliability stress test end ====='' @ newline, []) :: string \<times> u64 list"
  let ?lost = "(''heap final state mismatch: size=%u free=%u'' @ newline, [mh_size (st_heap st), free_bytes (st_heap st)]) :: string \<times> u64 list"
  have "calls_fit (st_mem st) message_formats [?lost]" "calls_fit (st_mem st) message_formats [?pass]" "calls_fit (st_mem st) message_formats [?last]"
    by (simp_all add: calls_fit_def message_formats_def arg_ok_def del: append.simps)
  then obtain a c d where "printfs (st_mem st) lit [?lost] = Some d" "printfs (st_mem st) lit [?pass] = Some a" "printfs (st_mem st) lit [?last] = Some c"
    using printfs_total [OF assms(2) f message_formats_ok] by meson
  then show "\<exists>a c. stress_pass_text lit st = Some (a @ list @ c)" "\<exists>a. stress_mismatch_text lit st = Some (a @ list)"
    using dump unfolding stress_pass_text_def stress_mismatch_text_def Let_def assms(4) by (simp_all only: bind.bind_lunit option.map) blast+
qed

section \<open>What the timer prints\<close>

text \<open>The callback counts on the console: its first \<open>n\<close> calls print the numbers 1 to \<open>n\<close>.\<close>

lemma cb_format: "ends_line (''Timer callback invoked! Counter: %d'' @ newline) Cd ''Timer callback invoked! Counter: ''"
  by code_simp

lemma says_cb:
  assumes "''Timer callback invoked! Counter: %d'' @ newline \<in> L" "Suc k < 2147483648"
  shows "says m L (timer_cb_call (of_nat k)) (line ''Timer callback invoked! Counter: '' (digits 10 (Suc k)))"
proof -
  have "of_nat k + 1 = (of_nat (Suc k) :: u32)" by simp
  moreover have "(ucast (of_nat (Suc k) :: u32) :: u64) = of_nat (Suc k)"
    using assms(2) by (simp add: word_unat_eq_iff unsigned_ucast_eq unat_of_nat64 unat_of_nat32 take_bit_nat_eq_self del: of_nat_Suc)
  ultimately have "(ucast (of_nat k + 1 :: u32) :: u64) = of_nat (Suc k)" by (simp only:)
  then have "conv_text m 0 False Cd (ucast (of_nat k + 1 :: u32)) = Some (map ucast (digits 10 (Suc k)))"
    using int_text [OF assms(2)] by (simp add: field_def)
  from text_conv [OF cb_format [unfolded ends_line_def] this] show ?thesis
    using assms(1) by (simp add: says_def timer_cb_call_def line_def del: append.simps)
qed

lemma timer_counts:
  assumes "literals m lit L" "''Timer callback invoked! Counter: %d'' @ newline \<in> L" "n < 2147483648"
  shows "printfs m lit (map (\<lambda>k. timer_cb_call (of_nat k)) [0..<n]) =
    Some (map ucast (concat (map (\<lambda>k. line ''Timer callback invoked! Counter: '' (digits 10 (Suc k))) [0..<n])))"
  using assms(3) by (intro printfs_literal [OF assms(1)]) (auto simp: list_all2_map1 list_all2_map2 list_all2_same intro!: says_cb [OF assms(2)])

end
