(* ===== verification/Mutex.thy ===== *)
theory Mutex
  imports Prelude
begin

text \<open>
  The contract of a lock, as a locale over its step function: \<open>exec c i s\<close> is one instruction of processor \<open>i\<close>,
  with \<open>c\<close> for what the instruction leaves open, and \<open>holds s i\<close> says that \<open>i\<close> is between taking the lock
  and giving it back. \<open>Spinlock\<close> and \<open>Rwlock\<close> interpret it on their instructions, and \<open>Run_Once\<close> is a client.
  A lock that several processors may share for reading extends it.
\<close>

fun after :: "('c \<Rightarrow> nat \<Rightarrow> 's \<Rightarrow> 's) \<Rightarrow> ('c \<times> nat) list \<Rightarrow> 's \<Rightarrow> 's" where
  "after exec [] s = s"
| "after exec ((c, i) # r) s = after exec r (exec c i s)"

locale mutex =
  fixes start :: 's
    and exec :: "'c \<Rightarrow> nat \<Rightarrow> 's \<Rightarrow> 's"
    and reach :: "nat \<Rightarrow> 's \<Rightarrow> bool"
    and holds :: "'s \<Rightarrow> nat \<Rightarrow> bool"
    and small :: "nat \<Rightarrow> bool"
  assumes start: "reach n start" "\<not> holds start i"
    and step: "reach n s \<Longrightarrow> i < n \<Longrightarrow> reach n (exec c i s)"
    and other: "j \<noteq> i \<Longrightarrow> holds (exec c i s) j = holds s j"
    and exclusive: "reach n s \<Longrightarrow> small n \<Longrightarrow> i < n \<Longrightarrow> j < n \<Longrightarrow> holds s i \<Longrightarrow> holds s j \<Longrightarrow> i = j"
begin

lemma after_reach: "reach n s \<Longrightarrow> \<forall>(c, i) \<in> set r. i < n \<Longrightarrow> reach n (after exec r s)"
  by (induction r arbitrary: s) (auto simp: step)

lemma after_holds: "\<forall>(c, j) \<in> set r. j \<noteq> i \<Longrightarrow> holds (after exec r s) i = holds s i"
  by (induction r arbitrary: s) (auto simp: other)

text \<open>A section that is entered only with the lock held has one processor at most.\<close>

lemma guarded_unique:
  assumes "reach n s" "small n" "\<And>k. k < n \<Longrightarrow> P k \<Longrightarrow> holds s k" "i < n" "j < n" "P i" "P j"
  shows "i = j"
  using assms by (intro exclusive [OF assms(1,2)]) auto

text \<open>While a processor stays in its section nobody else enters, whatever the others do.\<close>

lemma undisturbed:
  assumes "reach n s" "small n" "i < n" "holds s i" "\<forall>(c, k) \<in> set r. k < n \<and> k \<noteq> i" "j < n" "j \<noteq> i"
  shows "\<not> holds (after exec r s) j"
proof -
  have "reach n (after exec r s)" "holds (after exec r s) i" using after_reach [OF assms(1), of r] after_holds [of r i s] assms(4,5) by auto
  then show ?thesis using exclusive assms by blast
qed

end

locale shared_mutex = mutex start exec reach holds small
  for start :: 's and exec :: "'c \<Rightarrow> nat \<Rightarrow> 's \<Rightarrow> 's" and reach :: "nat \<Rightarrow> 's \<Rightarrow> bool" and holds :: "'s \<Rightarrow> nat \<Rightarrow> bool"
    and small :: "nat \<Rightarrow> bool" +
  fixes shares :: "'s \<Rightarrow> nat \<Rightarrow> bool"
  assumes sharing: "reach n s \<Longrightarrow> small n \<Longrightarrow> i < n \<Longrightarrow> j < n \<Longrightarrow> holds s i \<Longrightarrow> \<not> shares s j"
    and other_shares: "j \<noteq> i \<Longrightarrow> shares (exec c i s) j = shares s j"
begin

lemma after_shares: "\<forall>(c, j) \<in> set r. j \<noteq> i \<Longrightarrow> shares (after exec r s) i = shares s i"
  by (induction r arbitrary: s) (auto simp: other_shares)

text \<open>What a writer does is seen by no reader before it is finished, and a reader sees no writer.\<close>

lemma undisturbed_by_readers:
  assumes "reach n s" "small n" "i < n" "holds s i" "\<forall>(c, k) \<in> set r. k < n \<and> k \<noteq> i" "j < n"
  shows "\<not> shares (after exec r s) j"
proof -
  have "reach n (after exec r s)" "holds (after exec r s) i" using after_reach [OF assms(1), of r] after_holds [of r i s] assms(4,5) by auto
  then show ?thesis using sharing assms by blast
qed

lemma reader_sees_no_writer:
  assumes "reach n s" "small n" "i < n" "shares s i" "\<forall>(c, k) \<in> set r. k < n \<and> k \<noteq> i" "j < n"
  shows "\<not> holds (after exec r s) j"
proof -
  have "reach n (after exec r s)" "shares (after exec r s) i" using after_reach [OF assms(1), of r] after_shares [of r i s] assms(4,5) by auto
  then show ?thesis using sharing assms by blast
qed

end

end
