(* ===== verification/Rwlock.thy ===== *)
theory Rwlock
  imports Mutex
begin

text \<open>
  The reader-writer lock of \<^verbatim>\<open>src/platform/aarch64/include/spinlock/arch_spinlock.h\<close>, at the level of its
  instructions, as the ticket lock in \<^verbatim>\<open>Spinlock\<close>: \<open>n\<close> processors share one word (bit 31: a writer, else
  the number of readers) and call the six routines any number of times; one step is one
  instruction of one processor, and an exclusive store succeeds only with the reservation, which any
  store to the word takes away.
\<close>

section \<open>The instructions\<close>

datatype rwpc =
    RIdle
  | WL_sevl | WL_wfe | WL_ldaxr | WL_cbnz | WL_stxr | WL_cbnz2
  | WT_ldaxr | WT_cbnz | WT_stxr | WT_ret
  | Writing | WU_stlr
  | RL_sevl | RL_wfe | RL_ldaxr | RL_add | RL_tbnz | RL_stxr | RL_cbnz
  | RT_ldaxr | RT_add | RT_tbnz | RT_stxr | RT_ret
  | Reading | RU_ldxr | RU_sub | RU_stlxr | RU_cbnz

record rw_cpu =
  rpc :: rwpc
  tmp :: u32
  tmp2 :: u32

record rw =
  rwlock :: u32
  rexcl :: "nat \<Rightarrow> bool"
  rcpus :: "nat \<Rightarrow> rw_cpu"

definition rupd :: "nat \<Rightarrow> rw_cpu \<Rightarrow> rw \<Rightarrow> rw" where
  "rupd i c s = s\<lparr>rcpus := (rcpus s)(i := c)\<rparr>"

definition rldx :: "nat \<Rightarrow> rw \<Rightarrow> rw" where
  "rldx i s = s\<lparr>rexcl := (rexcl s)(i := True)\<rparr>"

definition rstore :: "u32 \<Rightarrow> rw \<Rightarrow> rw" where
  "rstore v s = s\<lparr>rwlock := v, rexcl := (\<lambda>_. False)\<rparr>"

definition rstx :: "bool \<Rightarrow> nat \<Rightarrow> u32 \<Rightarrow> rw \<Rightarrow> u32 \<times> rw" where
  "rstx ok i v s = (if ok \<and> rexcl s i then (0, rstore v s) else (1, s\<lparr>rexcl := (rexcl s)(i := False)\<rparr>))"

text \<open>
  One instruction of processor \<open>i\<close> with registers \<open>c\<close>. Outside, \<open>ok\<close> and \<open>alt\<close> choose the routine that is
  called; at an exclusive store \<open>ok\<close> says whether it may succeed. A \<open>trylock\<close> returns \<open>!tmp\<close> or \<open>!tmp2\<close>.
\<close>

fun rw_instr :: "bool \<Rightarrow> bool \<Rightarrow> nat \<Rightarrow> rw_cpu \<Rightarrow> rwpc \<Rightarrow> rw \<Rightarrow> rw" where
  "rw_instr ok alt i c RIdle s =
     rupd i (if ok then c\<lparr>rpc := (if alt then WL_sevl else WT_ldaxr)\<rparr>
             else if alt then c\<lparr>rpc := RL_sevl\<rparr> else c\<lparr>rpc := RT_ldaxr, tmp2 := 1\<rparr>) s"
| "rw_instr ok alt i c WL_sevl s = rupd i (c\<lparr>rpc := WL_wfe\<rparr>) s"
| "rw_instr ok alt i c WL_wfe s = rupd i (c\<lparr>rpc := WL_ldaxr\<rparr>) s"
| "rw_instr ok alt i c WL_ldaxr s = rupd i (c\<lparr>rpc := WL_cbnz, tmp := rwlock s\<rparr>) (rldx i s)"
| "rw_instr ok alt i c WL_cbnz s = rupd i (c\<lparr>rpc := (if tmp c \<noteq> 0 then WL_wfe else WL_stxr)\<rparr>) s"
| "rw_instr ok alt i c WL_stxr s = (let (r, s) = rstx ok i 0x80000000 s in rupd i (c\<lparr>rpc := WL_cbnz2, tmp := r\<rparr>) s)"
| "rw_instr ok alt i c WL_cbnz2 s = rupd i (c\<lparr>rpc := (if tmp c \<noteq> 0 then WL_ldaxr else Writing)\<rparr>) s"
| "rw_instr ok alt i c WT_ldaxr s = rupd i (c\<lparr>rpc := WT_cbnz, tmp := rwlock s\<rparr>) (rldx i s)"
| "rw_instr ok alt i c WT_cbnz s = rupd i (c\<lparr>rpc := (if tmp c \<noteq> 0 then WT_ret else WT_stxr)\<rparr>) s"
| "rw_instr ok alt i c WT_stxr s = (let (r, s) = rstx ok i 0x80000000 s in rupd i (c\<lparr>rpc := WT_ret, tmp := r\<rparr>) s)"
| "rw_instr ok alt i c WT_ret s = rupd i (c\<lparr>rpc := (if tmp c = 0 then Writing else RIdle)\<rparr>) s"
| "rw_instr ok alt i c Writing s = rupd i (c\<lparr>rpc := WU_stlr\<rparr>) s"
| "rw_instr ok alt i c WU_stlr s = rupd i (c\<lparr>rpc := RIdle\<rparr>) (rstore 0 s)"
| "rw_instr ok alt i c RL_sevl s = rupd i (c\<lparr>rpc := RL_wfe\<rparr>) s"
| "rw_instr ok alt i c RL_wfe s = rupd i (c\<lparr>rpc := RL_ldaxr\<rparr>) s"
| "rw_instr ok alt i c RL_ldaxr s = rupd i (c\<lparr>rpc := RL_add, tmp := rwlock s\<rparr>) (rldx i s)"
| "rw_instr ok alt i c RL_add s = rupd i (c\<lparr>rpc := RL_tbnz, tmp := tmp c + 1\<rparr>) s"
| "rw_instr ok alt i c RL_tbnz s = rupd i (c\<lparr>rpc := (if bit (tmp c) 31 then RL_wfe else RL_stxr)\<rparr>) s"
| "rw_instr ok alt i c RL_stxr s = (let (r, s) = rstx ok i (tmp c) s in rupd i (c\<lparr>rpc := RL_cbnz, tmp2 := r\<rparr>) s)"
| "rw_instr ok alt i c RL_cbnz s = rupd i (c\<lparr>rpc := (if tmp2 c \<noteq> 0 then RL_ldaxr else Reading)\<rparr>) s"
| "rw_instr ok alt i c RT_ldaxr s = rupd i (c\<lparr>rpc := RT_add, tmp := rwlock s\<rparr>) (rldx i s)"
| "rw_instr ok alt i c RT_add s = rupd i (c\<lparr>rpc := RT_tbnz, tmp := tmp c + 1\<rparr>) s"
| "rw_instr ok alt i c RT_tbnz s = rupd i (c\<lparr>rpc := (if bit (tmp c) 31 then RT_ret else RT_stxr)\<rparr>) s"
| "rw_instr ok alt i c RT_stxr s = (let (r, s) = rstx ok i (tmp c) s in rupd i (c\<lparr>rpc := RT_ret, tmp2 := r\<rparr>) s)"
| "rw_instr ok alt i c RT_ret s = rupd i (c\<lparr>rpc := (if tmp2 c = 0 then Reading else RIdle)\<rparr>) s"
| "rw_instr ok alt i c Reading s = rupd i (c\<lparr>rpc := RU_ldxr\<rparr>) s"
| "rw_instr ok alt i c RU_ldxr s = rupd i (c\<lparr>rpc := RU_sub, tmp := rwlock s\<rparr>) (rldx i s)"
| "rw_instr ok alt i c RU_sub s = rupd i (c\<lparr>rpc := RU_stlxr, tmp := tmp c - 1\<rparr>) s"
| "rw_instr ok alt i c RU_stlxr s = (let (r, s) = rstx ok i (tmp c) s in rupd i (c\<lparr>rpc := RU_cbnz, tmp2 := r\<rparr>) s)"
| "rw_instr ok alt i c RU_cbnz s = rupd i (c\<lparr>rpc := (if tmp2 c \<noteq> 0 then RU_ldxr else RIdle)\<rparr>) s"

definition rw_exec :: "bool \<Rightarrow> bool \<Rightarrow> nat \<Rightarrow> rw \<Rightarrow> rw" where
  "rw_exec ok alt i s = rw_instr ok alt i (rcpus s i) (rpc (rcpus s i)) s"

definition rw_lock_unlocked :: rw where
  "rw_lock_unlocked = \<lparr>rwlock = 0, rexcl = (\<lambda>_. False), rcpus = (\<lambda>_. \<lparr>rpc = RIdle, tmp = 0, tmp2 = 0\<rparr>)\<rparr>"

definition arch_write_can_lock :: "u32 \<Rightarrow> bool" where "arch_write_can_lock l \<longleftrightarrow> l = 0"
definition arch_read_can_lock :: "u32 \<Rightarrow> bool" where "arch_read_can_lock l \<longleftrightarrow> l < 0x80000000"

inductive rw_reach :: "nat \<Rightarrow> rw \<Rightarrow> bool" for n where
  init: "rw_reach n rw_lock_unlocked"
| step: "rw_reach n s \<Longrightarrow> i < n \<Longrightarrow> rw_reach n (rw_exec ok alt i s)"

section \<open>Who holds the lock\<close>

text \<open>From the store that takes the lock to the store that gives it back.\<close>

definition writes :: "rw_cpu \<Rightarrow> bool" where
  "writes c \<longleftrightarrow> rpc c \<in> {Writing, WU_stlr} \<or> rpc c \<in> {WL_cbnz2, WT_ret} \<and> tmp c = 0"

definition reads :: "rw_cpu \<Rightarrow> bool" where
  "reads c \<longleftrightarrow> rpc c \<in> {Reading, RU_ldxr, RU_sub, RU_stlxr} \<or> rpc c \<in> {RL_cbnz, RT_ret} \<and> tmp2 c = 0 \<or>
     rpc c = RU_cbnz \<and> tmp2 c \<noteq> 0"

definition writers :: "nat \<Rightarrow> rw \<Rightarrow> nat set" where "writers n s = {i. i < n \<and> writes (rcpus s i)}"
definition readers :: "nat \<Rightarrow> rw \<Rightarrow> nat set" where "readers n s = {i. i < n \<and> reads (rcpus s i)}"

text \<open>What holds at each instruction while the processor has its reservation (\<open>e\<close>) of the word \<open>l\<close>.\<close>

fun rw_at :: "u32 \<Rightarrow> bool \<Rightarrow> rw_cpu \<Rightarrow> rwpc \<Rightarrow> bool" where
  "rw_at l e c WL_cbnz \<longleftrightarrow> (e \<longrightarrow> tmp c = l)"
| "rw_at l e c WL_stxr \<longleftrightarrow> (e \<longrightarrow> l = 0)"
| "rw_at l e c WT_cbnz \<longleftrightarrow> (e \<longrightarrow> tmp c = l)"
| "rw_at l e c WT_stxr \<longleftrightarrow> (e \<longrightarrow> l = 0)"
| "rw_at l e c RL_add \<longleftrightarrow> (e \<longrightarrow> tmp c = l)"
| "rw_at l e c RL_tbnz \<longleftrightarrow> (e \<longrightarrow> tmp c = l + 1)"
| "rw_at l e c RL_stxr \<longleftrightarrow> (e \<longrightarrow> tmp c = l + 1 \<and> \<not> bit (l + 1) 31)"
| "rw_at l e c RT_ldaxr \<longleftrightarrow> tmp2 c = 1"
| "rw_at l e c RT_add \<longleftrightarrow> (e \<longrightarrow> tmp c = l) \<and> tmp2 c = 1"
| "rw_at l e c RT_tbnz \<longleftrightarrow> (e \<longrightarrow> tmp c = l + 1) \<and> tmp2 c = 1"
| "rw_at l e c RT_stxr \<longleftrightarrow> (e \<longrightarrow> tmp c = l + 1 \<and> \<not> bit (l + 1) 31)"
| "rw_at l e c RU_sub \<longleftrightarrow> (e \<longrightarrow> tmp c = l)"
| "rw_at l e c RU_stlxr \<longleftrightarrow> (e \<longrightarrow> tmp c = l - 1)"
| "rw_at l e c _ \<longleftrightarrow> True"

text \<open>The word against its holders: one writer alone, or the number of readers.\<close>

definition rw_word :: "u32 \<Rightarrow> nat set \<Rightarrow> nat set \<Rightarrow> bool" where
  "rw_word l W R \<longleftrightarrow> (W = {} \<and> unat l = card R \<and> card R < 0x80000000) \<or> (\<exists>w. W = {w} \<and> R = {} \<and> l = 0x80000000)"

definition rw_rep :: "nat \<Rightarrow> rw \<Rightarrow> bool" where
  "rw_rep n s \<longleftrightarrow> rw_word (rwlock s) (writers n s) (readers n s) \<and>
     (\<forall>i < n. rw_at (rwlock s) (rexcl s i) (rcpus s i) (rpc (rcpus s i)))"

lemma rw_at_lost: "rw_at l e c p \<Longrightarrow> rw_at l' False c p"
  by (cases p) auto

lemma finite_readers [simp]: "finite (readers n s)" by (simp add: readers_def)

lemma writers_upd: "i < n \<Longrightarrow> rcpus s' = (rcpus s)(i := c) \<Longrightarrow>
    writers n s' = (if writes c then insert i (writers n s) else writers n s - {i})"
  and readers_upd: "i < n \<Longrightarrow> rcpus s' = (rcpus s)(i := c) \<Longrightarrow>
    readers n s' = (if reads c then insert i (readers n s) else readers n s - {i})"
  by (auto simp: writers_def readers_def)

text \<open>A step that does not change the word, and one that does.\<close>

lemma rw_silent:
  assumes "rw_rep n s" "i < n" "rwlock s' = rwlock s" "\<And>j. j \<noteq> i \<Longrightarrow> rcpus s' j = rcpus s j" "\<And>j. j \<noteq> i \<Longrightarrow> rexcl s' j = rexcl s j"
    and "writes (rcpus s' i) = writes (rcpus s i)" "reads (rcpus s' i) = reads (rcpus s i)"
    "rw_at (rwlock s) (rexcl s' i) (rcpus s' i) (rpc (rcpus s' i))"
  shows "rw_rep n s'"
proof -
  have "writes (rcpus s' j) = writes (rcpus s j)" "reads (rcpus s' j) = reads (rcpus s j)" for j
    using assms(4,6,7) by (cases "j = i"; simp)+
  then have "writers n s' = writers n s" "readers n s' = readers n s" by (simp_all add: writers_def readers_def)
  moreover have "rw_at (rwlock s) (rexcl s' j) (rcpus s' j) (rpc (rcpus s' j))" if "j < n" for j
    using assms(1,4,5,8) that by (cases "j = i") (auto simp: rw_rep_def)
  ultimately show ?thesis using assms(1,3) by (simp add: rw_rep_def)
qed

lemma rw_stores:
  assumes "rw_rep n s" "i < n" "rcpus s' = (rcpus s)(i := c)" "rexcl s' = (\<lambda>_. False)"
    and "rw_word (rwlock s') (if writes c then insert i (writers n s) else writers n s - {i})
      (if reads c then insert i (readers n s) else readers n s - {i})" "rw_at (rwlock s') False c (rpc c)"
  shows "rw_rep n s'"
  using assms(1) assms(5,6) unfolding rw_rep_def writers_upd [OF assms(2,3)] readers_upd [OF assms(2,3)]
  by (auto simp: assms(3,4) rw_at_lost)

section \<open>The word after each kind of store\<close>

lemma bit31: "bit (l :: u32) 31 \<longleftrightarrow> 0x80000000 \<le> unat l"
proof -
  have "bit l 31 \<longleftrightarrow> bit (unat l) 31" by (simp add: bit_unsigned_iff)
  also have "\<dots> \<longleftrightarrow> odd (unat l div 2147483648)" by (simp add: bit_iff_odd)
  finally have "bit l 31 \<longleftrightarrow> odd (unat l div 2147483648)" .
  moreover have "unat l < 4294967296" using unsigned_less [of l] by simp
  then have "unat l div 2147483648 = (if unat l < 2147483648 then 0 else 1)" by (auto intro: div_nat_eqI)
  ultimately show ?thesis by auto
qed

lemma word_take_write: "rw_word 0 W R \<Longrightarrow> finite R \<Longrightarrow> rw_word 0x80000000 (insert i W) (R - {i})"
  by (auto simp: rw_word_def)

lemma word_drop_write: "rw_word l W R \<Longrightarrow> i \<in> W \<Longrightarrow> rw_word 0 (W - {i}) (R - {i})"
  by (auto simp: rw_word_def)

lemma word_take_read:
  assumes "rw_word l W R" "finite R" "i \<notin> R" "\<not> bit (l + 1) 31"
  shows "rw_word (l + 1) (W - {i}) (insert i R)"
proof -
  have "l \<noteq> 0x80000000" using assms(4) by (auto simp: bit31)
  then have w: "W = {}" "unat l = card R" "card R < 0x80000000" using assms(1) by (auto simp: rw_word_def)
  then have "unat (l + 1) = card R + 1" by (simp add: unat_word_ariths)
  then show ?thesis using w assms by (auto simp: rw_word_def bit31)
qed

lemma word_drop_read:
  assumes "rw_word l W R" "finite R" "i \<in> R"
  shows "rw_word (l - 1) (W - {i}) (R - {i})"
proof -
  have "card R \<noteq> 0" using assms(2,3) by auto
  moreover have w: "W = {}" "unat l = card R" "card R < 0x80000000" using assms(1,3) by (auto simp: rw_word_def)
  ultimately have "unat (l - 1) = card R - 1" by (subst unat_sub) (auto simp: word_le_nat_alt)
  then show ?thesis using w assms by (auto simp: rw_word_def card_Diff_singleton)
qed

text \<open>Every instruction keeps the representation.\<close>

lemma rw_exec_rep:
  assumes rep: "rw_rep n s" and i: "i < n"
  shows "rw_rep n (rw_exec ok alt i s)"
proof -
  let ?c = "rcpus s i"
  have at: "rw_at (rwlock s) (rexcl s i) ?c (rpc ?c)" and w: "rw_word (rwlock s) (writers n s) (readers n s)"
    using rep i by (auto simp: rw_rep_def)
  note silent = rw_silent [OF rep i] and stores = rw_stores [OF rep i]
  note defs = rw_exec_def rupd_def rldx_def rstx_def rstore_def writes_def reads_def
  have R: "reads ?c \<longleftrightarrow> i \<in> readers n s" and W: "writes ?c \<longleftrightarrow> i \<in> writers n s" using i by (auto simp: readers_def writers_def)
  have take_w: "rw_rep n s'" if "rpc ?c \<in> {WL_stxr, WT_stxr}" "rexcl s i" "rwlock s' = 0x80000000" "rcpus s' = (rcpus s)(i := c)"
    "rexcl s' = (\<lambda>_. False)" "writes c" "\<not> reads c" "rw_at 0x80000000 False c (rpc c)" for s' c
  proof (rule stores [OF that(4,5)])
    have "rwlock s = 0" using that(1,2) at by auto
    then show "rw_word (rwlock s') (if writes c then insert i (writers n s) else writers n s - {i})
        (if reads c then insert i (readers n s) else readers n s - {i})" using w that(3,6,7) word_take_write by simp
  qed (use that(3,8) in simp)
  have take_r: "rw_rep n s'" if "rpc ?c \<in> {RL_stxr, RT_stxr}" "rexcl s i" "rwlock s' = tmp ?c" "rcpus s' = (rcpus s)(i := c)"
    "rexcl s' = (\<lambda>_. False)" "\<not> writes c" "reads c" "rw_at (tmp ?c) False c (rpc c)" for s' c
  proof (rule stores [OF that(4,5)])
    have "tmp ?c = rwlock s + 1" "\<not> bit (rwlock s + 1) 31" using that(1,2) at by auto
    moreover have "i \<notin> readers n s" using that(1) R by (auto simp: reads_def)
    ultimately show "rw_word (rwlock s') (if writes c then insert i (writers n s) else writers n s - {i})
        (if reads c then insert i (readers n s) else readers n s - {i})" using w that(3,6,7) word_take_read by simp
  qed (use that(3,8) in simp)
  show ?thesis
  proof (cases "rpc ?c")
    case WL_stxr
    show ?thesis
    proof (cases "ok \<and> rexcl s i")
      case True
      then show ?thesis using WL_stxr by (intro take_w [of _ "?c\<lparr>rpc := WL_cbnz2, tmp := 0\<rparr>"]) (auto simp: defs)
    next
      case False
      then show ?thesis using WL_stxr by (intro silent) (auto simp: defs)
    qed
  next
    case WT_stxr
    show ?thesis
    proof (cases "ok \<and> rexcl s i")
      case True
      then show ?thesis using WT_stxr by (intro take_w [of _ "?c\<lparr>rpc := WT_ret, tmp := 0\<rparr>"]) (auto simp: defs)
    next
      case False
      then show ?thesis using WT_stxr by (intro silent) (auto simp: defs)
    qed
  next
    case RL_stxr
    show ?thesis
    proof (cases "ok \<and> rexcl s i")
      case True
      then show ?thesis using RL_stxr by (intro take_r [of _ "?c\<lparr>rpc := RL_cbnz, tmp2 := 0\<rparr>"]) (auto simp: defs)
    next
      case False
      then show ?thesis using RL_stxr by (intro silent) (auto simp: defs)
    qed
  next
    case RT_stxr
    show ?thesis
    proof (cases "ok \<and> rexcl s i")
      case True
      then show ?thesis using RT_stxr by (intro take_r [of _ "?c\<lparr>rpc := RT_ret, tmp2 := 0\<rparr>"]) (auto simp: defs)
    next
      case False
      then show ?thesis using RT_stxr by (intro silent) (auto simp: defs)
    qed
  next
    case RU_stlxr
    then have mem: "i \<in> readers n s" using R by (simp add: reads_def)
    show ?thesis
    proof (cases "ok \<and> rexcl s i")
      case True
      then have "tmp ?c = rwlock s - 1" using at RU_stlxr by simp
      then show ?thesis using RU_stlxr True w mem word_drop_read
        by (intro stores [of _ "?c\<lparr>rpc := RU_cbnz, tmp2 := 0\<rparr>"]) (auto simp: defs)
    next
      case False
      then show ?thesis using RU_stlxr by (intro silent) (auto simp: defs)
    qed
  next
    case WU_stlr
    then have "i \<in> writers n s" using W by (simp add: writes_def)
    then show ?thesis using WU_stlr w word_drop_write
      by (intro stores [of _ "?c\<lparr>rpc := RIdle\<rparr>"]) (auto simp: defs)
  qed (rule silent; use at in \<open>auto simp: defs\<close>)+
qed

lemma rw_reach_rep: "rw_reach n s \<Longrightarrow> rw_rep n s"
proof (induction rule: rw_reach.induct)
  case init
  show ?case by (auto simp: rw_rep_def rw_word_def rw_lock_unlocked_def writers_def readers_def writes_def reads_def)
qed (simp add: rw_exec_rep)

lemma rw_exec_other: "j \<noteq> i \<Longrightarrow> rcpus (rw_exec ok alt i s) j = rcpus s j"
  by (cases "rpc (rcpus s i)") (auto simp: rw_exec_def rupd_def rldx_def rstx_def rstore_def)

interpretation rwl: shared_mutex rw_lock_unlocked "\<lambda>(ok, alt). rw_exec ok alt" rw_reach
  "\<lambda>s i. writes (rcpus s i)" "\<lambda>_. True" "\<lambda>s i. reads (rcpus s i)"
proof unfold_locales
  show "\<not> writes (rcpus rw_lock_unlocked i)" for i by (simp add: rw_lock_unlocked_def writes_def)
next
  fix n s i j
  assume r: "rw_reach n s" and ij: "i < n" "j < n" and w: "writes (rcpus s i)"
  have word: "rw_word (rwlock s) (writers n s) (readers n s)" "i \<in> writers n s"
    using rw_reach_rep [OF r] ij w by (auto simp: rw_rep_def writers_def)
  show "i = j" if "writes (rcpus s j)"
  proof -
    have "j \<in> writers n s" using that ij by (simp add: writers_def)
    then show ?thesis using word by (auto simp: rw_word_def)
  qed
  show "\<not> reads (rcpus s j)" using word ij by (auto simp: rw_word_def readers_def)
qed (auto simp: rw_exec_other intro: rw_reach.intros)

section \<open>Property\<close>

text \<open>
  C18. The reader-writer lock excludes, for any number of processors in any interleaving: while one
  writes, nobody else writes or reads. The word always tells who holds it: bit 31 alone for a
  writer, otherwise the number of readers, which never reaches bit 31; so \<open>arch_write_can_lock\<close> is
  true exactly when nobody holds the lock and \<open>arch_read_can_lock\<close> exactly when no writer does.
\<close>

theorem rw_exclusion:
  assumes "rw_reach n s"
  shows "(\<forall>i j. i < n \<and> j < n \<and> rpc (rcpus s i) = Writing \<and> rpc (rcpus s j) \<in> {Writing, Reading} \<longrightarrow> i = j) \<and>
    (writers n s = {} \<longrightarrow> unat (rwlock s) = card (readers n s)) \<and>
    (arch_write_can_lock (rwlock s) \<longleftrightarrow> writers n s = {} \<and> readers n s = {}) \<and>
    (arch_read_can_lock (rwlock s) \<longleftrightarrow> writers n s = {})"
proof -
  have w: "rw_word (rwlock s) (writers n s) (readers n s)" using rw_reach_rep [OF assms] by (simp add: rw_rep_def)
  have "i = j" if "i < n" "j < n" "rpc (rcpus s i) = Writing" "rpc (rcpus s j) \<in> {Writing, Reading}" for i j
    using that rwl.exclusive [OF assms TrueI that(1,2)] rwl.sharing [OF assms TrueI that(1,2)] by (auto simp: writes_def reads_def)
  moreover have "rwlock s = 0 \<longleftrightarrow> writers n s = {} \<and> readers n s = {}"
    using w by (auto simp: rw_word_def unat_eq_0 [symmetric])
  moreover have "rwlock s < 0x80000000 \<longleftrightarrow> writers n s = {}"
    using w by (auto simp: rw_word_def word_less_nat_alt)
  ultimately show ?thesis using w by (auto simp: arch_write_can_lock_def arch_read_can_lock_def rw_word_def)
qed

text \<open>Two processors that run one after the other.\<close>

fun rw_run :: "nat list \<Rightarrow> rw \<Rightarrow> rw" where
  "rw_run [] s = s"
| "rw_run (i # is) s = rw_run is (rw_exec (rpc (rcpus s i) \<noteq> RIdle) True i s)"

lemma rw_run_reach: "rw_reach n s \<Longrightarrow> \<forall>i \<in> set is. i < n \<Longrightarrow> rw_reach n (rw_run is s)"
  by (induction "is" arbitrary: s) (auto intro: rw_reach.step)

theorem rw_exclusion_witness:
  "let s = rw_run ([0, 0, 0, 0, 0, 0, 0, 0] @ [1, 1, 1, 1, 1, 1, 1, 1]) rw_lock_unlocked
   in rpc (rcpus s 0) = Reading \<and> rpc (rcpus s 1) = Reading \<and> rwlock s = 2 \<and> \<not> arch_write_can_lock (rwlock s) \<and>
      (arch_read_can_lock (rwlock s) \<longleftrightarrow> writers 2 s = {})"
proof -
  let ?s = "rw_run ([0, 0, 0, 0, 0, 0, 0, 0] @ [1, 1, 1, 1, 1, 1, 1, 1]) rw_lock_unlocked"
  have r: "rw_reach 2 ?s" by (rule rw_run_reach [OF rw_reach.init]) simp
  have "rpc (rcpus ?s 0) = Reading" "rpc (rcpus ?s 1) = Reading" "rwlock ?s = 2"
    by (simp_all add: rw_exec_def rw_lock_unlocked_def rupd_def rldx_def rstx_def rstore_def bit31)
  then show ?thesis using rw_exclusion [OF r] by (auto simp: Let_def arch_write_can_lock_def simp del: rw_run.simps append.simps)
qed

end
