(* ===== verification/Spinlock.thy ===== *)
theory Spinlock
  imports Mutex
begin

text \<open>
  The ticket spinlock of \<^verbatim>\<open>src/platform/aarch64/include/spinlock/arch_spinlock.h\<close>, at the level of its
  instructions: \<open>n\<close> processors share one lock word, \<open>owner\<close> in the low and \<open>next\<close> in the high half,
  and run \<open>arch_spin_lock\<close>, \<open>arch_spin_trylock\<close> and \<open>arch_spin_unlock\<close> any number of times; one step is
  one instruction of one processor. An exclusive store succeeds only with the processor's
  reservation, which any store to the word takes away, and may fail even then. \<open>wfe\<close> may wake at any
  time. Memory is sequentially consistent: the acquire and release variants are not distinguished.
\<close>

section \<open>The lock word\<close>

definition TICKET_SHIFT :: nat where "TICKET_SHIFT = 16"

definition lock_owner :: "u32 \<Rightarrow> u16" where "lock_owner l = ucast l"
definition lock_next :: "u32 \<Rightarrow> u16" where "lock_next l = ucast (drop_bit 16 l)"

definition ticket_inc :: u32 where "ticket_inc = push_bit TICKET_SHIFT 1"

definition set_owner :: "u32 \<Rightarrow> u16 \<Rightarrow> u32" where
  "set_owner l v = (l AND 0xFFFF0000) OR ucast v"

text \<open>\<open>eor w1, w0, w0, ror #16\<close>\<close>

definition eor_ror16 :: "u32 \<Rightarrow> u32" where
  "eor_ror16 w = w XOR word_rotr 16 w"

definition arch_spin_value_unlocked :: "u32 \<Rightarrow> bool" where
  "arch_spin_value_unlocked l \<longleftrightarrow> lock_owner l = lock_next l"

definition arch_spin_is_locked :: "u32 \<Rightarrow> bool" where
  "arch_spin_is_locked l \<longleftrightarrow> \<not> arch_spin_value_unlocked l"

text \<open>The two halves are promoted to \<open>int\<close> before the subtraction.\<close>

definition arch_spin_is_contended :: "u32 \<Rightarrow> bool" where
  "arch_spin_is_contended l \<longleftrightarrow> uint (lock_next l) - uint (lock_owner l) > 1"

text \<open>The wrappers of \<^verbatim>\<open>src/include/spinlock/spinlock.h\<close>.\<close>

definition spin_is_locked :: "u32 \<Rightarrow> bool" where "spin_is_locked l \<longleftrightarrow> arch_spin_is_locked l"
definition spin_is_contended :: "u32 \<Rightarrow> bool" where "spin_is_contended l \<longleftrightarrow> arch_spin_is_contended l"

section \<open>The instructions\<close>

text \<open>Where a processor is: in \<open>arch_spin_lock\<close>, \<open>arch_spin_trylock\<close>, \<open>arch_spin_unlock\<close>, or outside.\<close>

datatype pc =
    Idle
  | L_ldaxr | L_add | L_stxr | L_cbnz | L_eor | L_cbz | L_wfe | L_ldaxrh | L_eor2 | L_cbnz2
  | Critical
  | U_ldrh | U_stlrh
  | T_ldaxr | T_eor | T_cbnz | T_add | T_stxr | T_cbnz2

record spin_cpu =
  pc :: pc
  w0 :: u32
  w1 :: u32
  w2 :: u32

record spin =
  lockw :: u32
  excl :: "nat \<Rightarrow> bool"
  cpus :: "nat \<Rightarrow> spin_cpu"

text \<open>
  One instruction of processor \<open>i\<close> whose registers are \<open>c\<close>. The flag \<open>ok\<close> resolves what the code
  leaves open: outside the lock, which routine is called; at an exclusive store, whether it may
  succeed. The result of an exclusive store is 0 on success.
\<close>

definition upd :: "nat \<Rightarrow> spin_cpu \<Rightarrow> spin \<Rightarrow> spin" where
  "upd i c s = s\<lparr>cpus := (cpus s)(i := c)\<rparr>"

definition ldx :: "nat \<Rightarrow> spin \<Rightarrow> spin" where
  "ldx i s = s\<lparr>excl := (excl s)(i := True)\<rparr>"

definition store_lock :: "u32 \<Rightarrow> spin \<Rightarrow> spin" where
  "store_lock v s = s\<lparr>lockw := v, excl := (\<lambda>_. False)\<rparr>"

definition stx :: "bool \<Rightarrow> nat \<Rightarrow> u32 \<Rightarrow> spin \<Rightarrow> u32 \<times> spin" where
  "stx ok i v s =
     (if ok \<and> excl s i then (0, store_lock v s) else (1, s\<lparr>excl := (excl s)(i := False)\<rparr>))"

fun spin_instr :: "bool \<Rightarrow> nat \<Rightarrow> spin_cpu \<Rightarrow> pc \<Rightarrow> spin \<Rightarrow> spin" where
  "spin_instr ok i c Idle s = upd i (c\<lparr>pc := (if ok then L_ldaxr else T_ldaxr)\<rparr>) s"
| "spin_instr ok i c L_ldaxr s = upd i (c\<lparr>pc := L_add, w0 := lockw s\<rparr>) (ldx i s)"
| "spin_instr ok i c L_add s = upd i (c\<lparr>pc := L_stxr, w1 := w0 c + ticket_inc\<rparr>) s"
| "spin_instr ok i c L_stxr s = (let (r, s) = stx ok i (w1 c) s in upd i (c\<lparr>pc := L_cbnz, w2 := r\<rparr>) s)"
| "spin_instr ok i c L_cbnz s = upd i (c\<lparr>pc := (if w2 c \<noteq> 0 then L_ldaxr else L_eor)\<rparr>) s"
| "spin_instr ok i c L_eor s = upd i (c\<lparr>pc := L_cbz, w1 := eor_ror16 (w0 c)\<rparr>) s"
| "spin_instr ok i c L_cbz s = upd i (c\<lparr>pc := (if w1 c = 0 then Critical else L_wfe)\<rparr>) s"
| "spin_instr ok i c L_wfe s = upd i (c\<lparr>pc := L_ldaxrh\<rparr>) s"
| "spin_instr ok i c L_ldaxrh s = upd i (c\<lparr>pc := L_eor2, w2 := ucast (lock_owner (lockw s))\<rparr>) (ldx i s)"
| "spin_instr ok i c L_eor2 s = upd i (c\<lparr>pc := L_cbnz2, w1 := w2 c XOR drop_bit 16 (w0 c)\<rparr>) s"
| "spin_instr ok i c L_cbnz2 s = upd i (c\<lparr>pc := (if w1 c \<noteq> 0 then L_wfe else Critical)\<rparr>) s"
| "spin_instr ok i c Critical s = upd i (c\<lparr>pc := U_ldrh\<rparr>) s"
| "spin_instr ok i c U_ldrh s = upd i (c\<lparr>pc := U_stlrh, w1 := ucast (lock_owner (lockw s)) + 1\<rparr>) s"
| "spin_instr ok i c U_stlrh s = upd i (c\<lparr>pc := Idle\<rparr>) (store_lock (set_owner (lockw s) (ucast (w1 c))) s)"
| "spin_instr ok i c T_ldaxr s = upd i (c\<lparr>pc := T_eor, w0 := lockw s\<rparr>) (ldx i s)"
| "spin_instr ok i c T_eor s = upd i (c\<lparr>pc := T_cbnz, w1 := eor_ror16 (w0 c)\<rparr>) s"
| "spin_instr ok i c T_cbnz s = upd i (c\<lparr>pc := (if w1 c \<noteq> 0 then Idle else T_add)\<rparr>) s"
| "spin_instr ok i c T_add s = upd i (c\<lparr>pc := T_stxr, w0 := w0 c + ticket_inc\<rparr>) s"
| "spin_instr ok i c T_stxr s = (let (r, s) = stx ok i (w0 c) s in upd i (c\<lparr>pc := T_cbnz2, w1 := r\<rparr>) s)"
| "spin_instr ok i c T_cbnz2 s = upd i (c\<lparr>pc := (if w1 c \<noteq> 0 then T_ldaxr else Critical)\<rparr>) s"

definition spin_exec :: "bool \<Rightarrow> nat \<Rightarrow> spin \<Rightarrow> spin" where
  "spin_exec ok i s = spin_instr ok i (cpus s i) (pc (cpus s i)) s"

text \<open>\<open>arch_spin_trylock\<close> returns \<open>!tmp\<close>: true exactly when it leaves for the critical section.\<close>

definition spin_lock_init :: spin where
  "spin_lock_init = \<lparr>lockw = 0, excl = (\<lambda>_. False), cpus = (\<lambda>_. \<lparr>pc = Idle, w0 = 0, w1 = 0, w2 = 0\<rparr>)\<rparr>"

inductive spin_reach :: "nat \<Rightarrow> spin \<Rightarrow> bool" for n where
  init: "spin_reach n spin_lock_init"
| step: "spin_reach n s \<Longrightarrow> i < n \<Longrightarrow> spin_reach n (spin_exec ok i s)"

inductive_cases spin_reachE: "spin_reach n s"

section \<open>Arithmetic of the lock word\<close>

lemma halves: "lock_owner l = of_nat (unat l mod 65536)" "lock_next l = of_nat (unat l div 65536)"
proof -
  show "lock_owner l = of_nat (unat l mod 65536)"
    by (simp add: lock_owner_def word_unat_eq_iff unsigned_ucast_eq take_bit_eq_mod unat_of_nat)
  have "unat (drop_bit 16 l) = unat l div 65536" by (simp add: drop_bit_eq_div unat_div)
  then show "lock_next l = of_nat (unat l div 65536)"
    by (simp add: lock_next_def word_unat_eq_iff unsigned_ucast_eq take_bit_eq_mod unat_of_nat)
qed

lemma unat_ticket_inc: "unat (l + ticket_inc) = (unat l + 65536) mod 4294967296"
  by (simp add: ticket_inc_def TICKET_SHIFT_def unat_word_ariths)

lemma inc_halves: "lock_owner (l + ticket_inc) = lock_owner l" "lock_next (l + ticket_inc) = lock_next l + 1"
proof -
  have "unat (l + ticket_inc) mod 65536 = unat l mod 65536"
    unfolding unat_ticket_inc by (simp add: mod_mod_cancel)
  then show "lock_owner (l + ticket_inc) = lock_owner l" by (simp add: halves)
  have "(unat l + 65536) mod 4294967296 div 65536 = ((unat l + 65536) div 65536) mod 65536"
    using div_mult2_eq [of _ 65536 65536] by (simp add: mod_mult2_eq [of _ 65536 65536, simplified])
  also have "(unat l + 65536) div 65536 = unat l div 65536 + 1" by simp
  finally have "lock_next (l + ticket_inc) = of_nat ((unat l div 65536 + 1) mod 65536)"
    by (simp only: halves unat_ticket_inc)
  also have "\<dots> = of_nat (unat l div 65536 + 1)"
    by (simp only: word_unat_eq_iff unat_of_nat) simp
  also have "\<dots> = lock_next l + 1" by (simp add: halves)
  finally show "lock_next (l + ticket_inc) = lock_next l + 1" .
qed

lemma low16_add: "(ucast (a + b :: u32) :: u16) = ucast a + ucast b"
proof -
  have "(word_of_int (take_bit 32 k) :: u16) = word_of_int k" for k by transfer simp
  then have "(word_of_int (uint (a + b)) :: u16) = word_of_int (uint a + uint b)"
    by (simp add: uint_word_ariths take_bit_eq_mod)
  then show ?thesis by simp
qed

lemma low16_ucast [simp]: "(ucast (ucast (v :: u16) :: u32) :: u16) = v"
  by (rule bit_word_eqI) (auto simp: bit_simps)

lemma bit16_high: "16 \<le> n \<Longrightarrow> \<not> bit (v :: u16) n"
  using bit_imp_le_length [of v n] by auto

lemma set_owner_halves [simp]: "lock_owner (set_owner l v) = v" "lock_next (set_owner l v) = lock_next l"
proof -
  have m: "(0xFFFF0000 :: u32) = NOT (mask 16)" by (simp add: mask_numeral)
  show "lock_owner (set_owner l v) = v" "lock_next (set_owner l v) = lock_next l"
    unfolding lock_owner_def lock_next_def set_owner_def m
    by (rule bit_word_eqI; auto simp: bit_simps bit16_high)+
qed

lemma xor_zero_iff: "(a :: u32) XOR b = 0 \<longleftrightarrow> a = b"
  by (auto simp: bit_eq_iff bit_xor_iff)

lemma eor_ror16_zero: "eor_ror16 w = 0 \<longleftrightarrow> lock_owner w = lock_next w"
proof -
  have "w = word_rotr 16 w \<longleftrightarrow> (\<forall>n < 32. bit w n \<longleftrightarrow> bit w ((n + 16) mod 32))"
    by (auto simp: bit_eq_iff bit_word_rotr_iff dest: bit_imp_le_length)
  also have "\<dots> \<longleftrightarrow> (\<forall>n < 16. bit w n \<longleftrightarrow> bit w (16 + n))"
  proof (rule iffI; intro allI impI)
    fix n assume *: "\<forall>n<32. bit w n = bit w ((n + 16) mod 32)" and n: "n < (16 :: nat)"
    show "bit w n = bit w (16 + n)" using *[rule_format, of n] n by (simp add: add.commute)
  next
    fix n assume *: "\<forall>n<16. bit w n = bit w (16 + n)" and n: "n < (32 :: nat)"
    show "bit w n = bit w ((n + 16) mod 32)"
    proof (cases "n < 16")
      case True
      then show ?thesis using * by (simp add: add.commute)
    next
      case False
      then have "(n + 16) mod 32 = n - 16" using n by (simp add: mod_if)
      then show ?thesis using *[rule_format, of "n - 16"] False n by simp
    qed
  qed
  also have "\<dots> \<longleftrightarrow> lock_owner w = lock_next w"
    by (auto simp: lock_owner_def lock_next_def bit_eq_iff bit_simps)
  finally show ?thesis by (simp add: eor_ror16_def xor_zero_iff)
qed

lemma eor_owner_zero: "ucast (v :: u16) XOR drop_bit 16 (w :: u32) = 0 \<longleftrightarrow> v = lock_next w"
proof -
  have "ucast v = drop_bit 16 w \<longleftrightarrow> (\<forall>n < 32. bit v n \<longleftrightarrow> bit w (16 + n))"
    by (auto simp: bit_eq_iff bit_simps dest: bit_imp_le_length)
  also have "\<dots> \<longleftrightarrow> (\<forall>n < 16. bit v n \<longleftrightarrow> bit w (16 + n))"
  proof -
    have "\<not> bit v n \<and> \<not> bit w (16 + n)" if "16 \<le> n" for n
      using that bit16_high [of n v] bit_imp_le_length [of w "16 + n"] by auto
    moreover have "n < 32 \<longrightarrow> n < 16 \<or> 16 \<le> n" "n < 16 \<longrightarrow> n < (32 :: nat)" for n by auto
    ultimately show ?thesis by meson
  qed
  also have "\<dots> \<longleftrightarrow> v = lock_next w" by (auto simp: lock_next_def bit_eq_iff bit_simps dest: bit_imp_le_length)
  finally show ?thesis by (simp add: xor_zero_iff)
qed

section \<open>The queue behind the lock\<close>

text \<open>Processors that have drawn a ticket and not returned it, and those whose ticket is the high half of \<open>w0\<close>.\<close>

definition ticketed :: "spin_cpu \<Rightarrow> bool" where
  "ticketed c \<longleftrightarrow> pc c \<in> {L_eor, L_cbz, L_wfe, L_ldaxrh, L_eor2, L_cbnz2, Critical, U_ldrh, U_stlrh} \<or>
     (pc c = L_cbnz \<and> w2 c = 0) \<or> (pc c = T_cbnz2 \<and> w1 c = 0)"

definition waiting :: "spin_cpu \<Rightarrow> bool" where
  "waiting c \<longleftrightarrow> pc c \<in> {L_eor, L_cbz, L_wfe, L_ldaxrh, L_eor2, L_cbnz2} \<or> (pc c = L_cbnz \<and> w2 c = 0)"

definition in_critical :: "spin_cpu \<Rightarrow> bool" where
  "in_critical c \<longleftrightarrow> pc c \<in> {Critical, U_ldrh, U_stlrh}"

text \<open>
  What holds at each instruction, given the lock word, the processor's reservation and whether it is
  at the head of the queue.
\<close>

fun at_pc :: "u32 \<Rightarrow> bool \<Rightarrow> bool \<Rightarrow> spin_cpu \<Rightarrow> pc \<Rightarrow> bool" where
  "at_pc l e h c L_add \<longleftrightarrow> (e \<longrightarrow> w0 c = l)"
| "at_pc l e h c L_stxr \<longleftrightarrow> (e \<longrightarrow> w0 c = l) \<and> w1 c = w0 c + ticket_inc"
| "at_pc l e h c L_cbnz \<longleftrightarrow> (w2 c = 0 \<and> lock_owner (w0 c) = lock_next (w0 c) \<longrightarrow> h)"
| "at_pc l e h c L_eor \<longleftrightarrow> (lock_owner (w0 c) = lock_next (w0 c) \<longrightarrow> h)"
| "at_pc l e h c L_cbz \<longleftrightarrow> (w1 c = 0 \<longrightarrow> h)"
| "at_pc l e h c L_eor2 \<longleftrightarrow> (w2 c XOR drop_bit 16 (w0 c) = 0 \<longrightarrow> h)"
| "at_pc l e h c L_cbnz2 \<longleftrightarrow> (w1 c = 0 \<longrightarrow> h)"
| "at_pc l e h c Critical \<longleftrightarrow> h"
| "at_pc l e h c U_ldrh \<longleftrightarrow> h"
| "at_pc l e h c U_stlrh \<longleftrightarrow> h \<and> ucast (w1 c) = lock_owner l + 1"
| "at_pc l e h c T_eor \<longleftrightarrow> (e \<longrightarrow> w0 c = l)"
| "at_pc l e h c T_cbnz \<longleftrightarrow> (e \<longrightarrow> w0 c = l) \<and> w1 c = eor_ror16 (w0 c)"
| "at_pc l e h c T_add \<longleftrightarrow> (e \<longrightarrow> w0 c = l \<and> lock_owner l = lock_next l)"
| "at_pc l e h c T_stxr \<longleftrightarrow> (e \<longrightarrow> w0 c = l + ticket_inc \<and> lock_owner l = lock_next l)"
| "at_pc l e h c T_cbnz2 \<longleftrightarrow> (w1 c = 0 \<longrightarrow> h)"
| "at_pc l e h c _ \<longleftrightarrow> True"

definition is_head :: "nat \<Rightarrow> nat list \<Rightarrow> bool" where
  "is_head i q \<longleftrightarrow> q \<noteq> [] \<and> hd q = i"

text \<open>The lock word and the processors represent the queue \<open>q\<close> of the ticket holders.\<close>

definition spin_rep :: "nat \<Rightarrow> spin \<Rightarrow> nat list \<Rightarrow> bool" where
  "spin_rep n s q \<longleftrightarrow> distinct q \<and> set q = {i. i < n \<and> ticketed (cpus s i)} \<and>
     lock_next (lockw s) = lock_owner (lockw s) + of_nat (length q) \<and>
     (\<forall>k < length q. waiting (cpus s (q ! k)) \<longrightarrow>
        lock_next (w0 (cpus s (q ! k))) = lock_owner (lockw s) + of_nat k) \<and>
     (\<forall>i < n. at_pc (lockw s) (excl s i) (is_head i q) (cpus s i) (pc (cpus s i)))"

text \<open>A step that leaves the lock word alone keeps the queue.\<close>

lemma rep_silent:
  assumes rep: "spin_rep n s q" and i: "i < n"
    and s': "lockw s' = lockw s" "\<And>j. j \<noteq> i \<Longrightarrow> cpus s' j = cpus s j" "\<And>j. j \<noteq> i \<Longrightarrow> excl s' j = excl s j"
    and tk: "ticketed (cpus s' i) \<longleftrightarrow> ticketed (cpus s i)"
    and wt: "waiting (cpus s' i) \<Longrightarrow> waiting (cpus s i) \<and> w0 (cpus s' i) = w0 (cpus s i)"
    and at: "at_pc (lockw s) (excl s' i) (is_head i q) (cpus s' i) (pc (cpus s' i))"
  shows "spin_rep n s' q"
proof -
  have "ticketed (cpus s' j) \<longleftrightarrow> ticketed (cpus s j)" for j using tk s'(2) by (cases "j = i") auto
  then have "set q = {j. j < n \<and> ticketed (cpus s' j)}" using rep by (simp add: spin_rep_def)
  moreover have "lock_next (w0 (cpus s' (q ! k))) = lock_owner (lockw s') + of_nat k"
    if "k < length q" "waiting (cpus s' (q ! k))" for k
    using rep wt that s'(2) by (cases "q ! k = i") (auto simp: spin_rep_def s'(1))
  moreover have "at_pc (lockw s') (excl s' j) (is_head j q) (cpus s' j) (pc (cpus s' j))" if "j < n" for j
    using rep at that s'(2,3) [of j] by (cases "j = i") (auto simp: spin_rep_def s'(1))
  ultimately show ?thesis using rep by (auto simp: spin_rep_def s'(1))
qed

text \<open>What another processor knows survives a ticket being drawn or returned.\<close>

lemma at_pc_enqueue:
  assumes "at_pc l e (is_head j q) c (pc c)" "ticketed c \<Longrightarrow> j \<in> set q"
  shows "at_pc (l + ticket_inc) False (is_head j (q @ [i])) c (pc c)"
proof -
  have "is_head j q \<Longrightarrow> is_head j (q @ [i])" by (auto simp: is_head_def)
  then show ?thesis using assms by (cases "pc c") (auto simp: inc_halves ticketed_def)
qed

lemma at_pc_dequeue:
  assumes "at_pc l e (is_head j (i # q)) c (pc c)" "j \<noteq> i"
  shows "at_pc l' False (is_head j q) c (pc c)"
  using assms by (cases "pc c") (auto simp: is_head_def)

lemma rep_enqueue:
  assumes rep: "spin_rep n s q" and i: "i < n" "\<not> ticketed (cpus s i)" and n: "n < 65536"
    and s': "lockw s' = lockw s + ticket_inc" "cpus s' = (cpus s)(i := c)" "excl s' = (\<lambda>_. False)"
    and tk: "ticketed c" and wt: "waiting c \<Longrightarrow> lock_next (w0 c) = lock_next (lockw s)"
    and at: "at_pc (lockw s') False (is_head i (q @ [i])) c (pc c)"
  shows "spin_rep n s' (q @ [i])"
proof -
  have r: "distinct q" "set q = {j. j < n \<and> ticketed (cpus s j)}" "lock_next (lockw s) = lock_owner (lockw s) + of_nat (length q)"
    using rep by (simp_all add: spin_rep_def)
  have fresh: "i \<notin> set q" using i r(2) by blast
  have "set (q @ [i]) = {j. j < n \<and> ticketed (cpus s' j)}"
    using r(2) i tk by (auto simp: s')
  moreover have "lock_next (w0 (cpus s' ((q @ [i]) ! k))) = lock_owner (lockw s') + of_nat k"
    if "k < length (q @ [i])" "waiting (cpus s' ((q @ [i]) ! k))" for k
  proof (cases "k < length q")
    case True
    then have "q ! k \<noteq> i" using fresh by auto
    then show ?thesis using True that rep by (auto simp: nth_append s' spin_rep_def inc_halves)
  next
    case False
    then have "k = length q" using that(1) by simp
    then show ?thesis using that wt r(3) by (simp add: s' inc_halves)
  qed
  moreover have "at_pc (lockw s') (excl s' j) (is_head j (q @ [i])) (cpus s' j) (pc (cpus s' j))" if "j < n" for j
  proof (cases "j = i")
    case False
    have "at_pc (lockw s) (excl s j) (is_head j q) (cpus s j) (pc (cpus s j))"
      using rep that by (simp add: spin_rep_def)
    then have "at_pc (lockw s + ticket_inc) False (is_head j (q @ [i])) (cpus s j) (pc (cpus s j))"
      using that r(2) by (intro at_pc_enqueue) blast+
    with False show ?thesis by (simp add: s')
  qed (use at in \<open>simp add: s'(2,3)\<close>)
  ultimately show ?thesis using r fresh by (simp add: spin_rep_def s'(1) inc_halves add.assoc)
qed

lemma rep_dequeue:
  assumes rep: "spin_rep n s (i # q)" and at: "pc (cpus s i) = U_stlrh"
    and s': "lockw s' = set_owner (lockw s) (lock_owner (lockw s) + 1)" "cpus s' = (cpus s)(i := c)" "excl s' = (\<lambda>_. False)"
    and c: "pc c = Idle"
  shows "spin_rep n s' q"
proof -
  have r: "distinct (i # q)" "set (i # q) = {j. j < n \<and> ticketed (cpus s j)}"
    "lock_next (lockw s) = lock_owner (lockw s) + of_nat (length (i # q))"
    using rep by (simp_all only: spin_rep_def)
  have "set q = {j. j < n \<and> ticketed (cpus s' j)}" using r(1,2) c by (auto simp: s'(2) ticketed_def)
  moreover have "lock_next (w0 (cpus s' (q ! k))) = lock_owner (lockw s') + of_nat k"
    if k: "k < length q" "waiting (cpus s' (q ! k))" for k
  proof -
    have "q ! k \<noteq> i" using r(1) k(1) by auto
    then have "waiting (cpus s ((i # q) ! Suc k))" using k(2) by (simp add: s'(2))
    then have "lock_next (w0 (cpus s ((i # q) ! Suc k))) = lock_owner (lockw s) + of_nat (Suc k)"
      using rep k(1) by (simp only: spin_rep_def) (metis Suc_less_eq length_Cons)
    with \<open>q ! k \<noteq> i\<close> show ?thesis by (simp add: s' algebra_simps)
  qed
  moreover have "at_pc (lockw s') (excl s' j) (is_head j q) (cpus s' j) (pc (cpus s' j))" if "j < n" for j
  proof (cases "j = i")
    case False
    have "at_pc (lockw s) (excl s j) (is_head j (i # q)) (cpus s j) (pc (cpus s j))"
      using rep that by (simp add: spin_rep_def)
    then show ?thesis using False by (simp add: s'(2,3) at_pc_dequeue)
  qed (simp add: s'(2) c)
  ultimately show ?thesis using r by (simp add: spin_rep_def s'(1) algebra_simps)
qed

lemma rep_length:
  assumes "spin_rep n s q"
  shows "length q \<le> n"
proof -
  have "card (set q) \<le> card {..<n}" using assms by (intro card_mono) (auto simp: spin_rep_def)
  moreover have "distinct q" using assms by (simp add: spin_rep_def)
  then have "card (set q) = length q" by (rule distinct_card)
  ultimately show ?thesis by simp
qed

lemma of_nat16_zero: "k < 65536 \<Longrightarrow> (of_nat k :: u16) = 0 \<longleftrightarrow> k = 0"
proof -
  assume "k < 65536"
  then have "unat (of_nat k :: u16) = k" by (simp add: unat_of_nat)
  then show ?thesis by (simp only: word_unat_eq_iff unat_0)
qed

lemma rep_free:
  assumes "spin_rep n s q" "n < 65536"
  shows "lock_owner (lockw s) = lock_next (lockw s) \<longleftrightarrow> q = []"
proof -
  have "length q < 65536" using rep_length [OF assms(1)] assms(2) by simp
  then show ?thesis using assms(1) of_nat16_zero [of "length q"] by (auto simp: spin_rep_def)
qed

lemma rep_owner_head:
  assumes "spin_rep n s q" "n < 65536" "i < n" "waiting (cpus s i)" "lock_next (w0 (cpus s i)) = lock_owner (lockw s)"
  shows "is_head i q"
proof -
  have "i \<in> set q" using assms(1,3,4) by (auto simp: spin_rep_def waiting_def ticketed_def)
  then obtain k where k: "k < length q" "q ! k = i" by (auto simp: in_set_conv_nth)
  then have "lock_owner (lockw s) = lock_owner (lockw s) + of_nat k" using assms by (auto simp: spin_rep_def)
  then have "k = 0" using of_nat16_zero [of k] k rep_length [OF assms(1)] assms(2) by simp
  then show ?thesis using k by (cases q) (auto simp: is_head_def)
qed

text \<open>Every instruction keeps the representation: it draws a ticket, returns one, or leaves the queue as it is.\<close>

lemma spin_exec_rep:
  assumes rep: "spin_rep n s q" and i: "i < n" and n: "n < 65536"
  shows "\<exists>q'. spin_rep n (spin_exec ok i s) q' \<and> (q' = q \<or> q' = q @ [i] \<or> q = i # q')"
proof -
  let ?c = "cpus s i"
  have at: "at_pc (lockw s) (excl s i) (is_head i q) ?c (pc ?c)" using rep i by (simp add: spin_rep_def)
  have silent: "\<exists>q'. spin_rep n s' q' \<and> (q' = q \<or> q' = q @ [i] \<or> q = i # q')"
    if "lockw s' = lockw s" "\<And>j. j \<noteq> i \<Longrightarrow> cpus s' j = cpus s j" "\<And>j. j \<noteq> i \<Longrightarrow> excl s' j = excl s j"
      "ticketed (cpus s' i) \<longleftrightarrow> ticketed ?c" "waiting (cpus s' i) \<Longrightarrow> waiting ?c \<and> w0 (cpus s' i) = w0 ?c"
      "at_pc (lockw s) (excl s' i) (is_head i q) (cpus s' i) (pc (cpus s' i))" for s'
    using rep_silent [OF rep i that] by blast
  note defs = spin_exec_def upd_def ldx_def waiting_def ticketed_def
  show ?thesis
  proof (cases "pc ?c")
    case L_stxr
    show ?thesis
    proof (cases "ok \<and> excl s i")
      case True
      have w: "w0 ?c = lockw s" "w1 ?c = lockw s + ticket_inc" using at L_stxr True by simp_all
      have "spin_rep n (spin_exec ok i s) (q @ [i])"
        using L_stxr True w rep_free [OF rep n]
        by (intro rep_enqueue [OF rep i _ n, where c = "?c\<lparr>pc := L_cbnz, w2 := 0\<rparr>"])
          (auto simp: defs stx_def store_lock_def is_head_def)
      then show ?thesis by blast
    qed (use L_stxr in \<open>intro silent; auto simp: defs stx_def\<close>)
  next
    case T_stxr
    show ?thesis
    proof (cases "ok \<and> excl s i")
      case True
      have w: "w0 ?c = lockw s + ticket_inc" "lock_owner (lockw s) = lock_next (lockw s)"
        using at T_stxr True by simp_all
      have "spin_rep n (spin_exec ok i s) (q @ [i])"
        using T_stxr True w rep_free [OF rep n]
        by (intro rep_enqueue [OF rep i _ n, where c = "?c\<lparr>pc := T_cbnz2, w1 := 0\<rparr>"])
          (auto simp: defs stx_def store_lock_def is_head_def)
      then show ?thesis by blast
    qed (use T_stxr in \<open>intro silent; auto simp: defs stx_def\<close>)
  next
    case U_stlrh
    then obtain q' where q: "q = i # q'" using at by (cases q) (auto simp: is_head_def)
    have "spin_rep n (spin_exec ok i s) q'"
      using U_stlrh at by (intro rep_dequeue [OF rep [unfolded q], where c = "?c\<lparr>pc := Idle\<rparr>"])
        (auto simp: defs store_lock_def)
    then show ?thesis using q by blast
  next
    case L_ldaxrh
    then have "waiting ?c" by (simp add: waiting_def)
    then have "lock_owner (lockw s) = lock_next (w0 ?c) \<Longrightarrow> is_head i q"
      using rep_owner_head [OF rep n i] by simp
    then show ?thesis
      using L_ldaxrh by (intro silent) (auto simp: defs eor_owner_zero)
  qed (use at in \<open>(intro silent; auto simp: defs eor_ror16_zero inc_halves low16_add split: if_splits)+\<close>)
qed

lemma spin_init_rep: "spin_rep n spin_lock_init []"
  by (auto simp: spin_rep_def spin_lock_init_def ticketed_def lock_next_def lock_owner_def)

lemma reach_rep:
  assumes "n < 65536" "spin_reach n s"
  shows "\<exists>q. spin_rep n s q"
  using assms(2)
proof (induction rule: spin_reach.induct)
  case init
  show ?case using spin_init_rep by blast
next
  case (step s i ok)
  then show ?case using spin_exec_rep [OF _ _ assms(1)] by blast
qed

lemma rep_critical:
  assumes "spin_rep n s q" "i < n" "in_critical (cpus s i)"
  shows "is_head i q"
  using assms by (cases "pc (cpus s i)") (auto simp: spin_rep_def in_critical_def)

lemma critical_unique:
  assumes "spin_reach n s" "n < 65536" "i < n" "j < n" "in_critical (cpus s i)" "in_critical (cpus s j)"
  shows "i = j"
proof -
  obtain q where "spin_rep n s q" using reach_rep [OF assms(2,1)] by blast
  then have "is_head i q" "is_head j q" using rep_critical assms by blast+
  then show ?thesis by (simp add: is_head_def)
qed

text \<open>An instruction of one processor changes the registers of no other.\<close>

lemma spin_exec_other: "j \<noteq> i \<Longrightarrow> cpus (spin_exec ok i s) j = cpus s j"
  by (cases "pc (cpus s i)") (auto simp: spin_exec_def upd_def ldx_def stx_def store_lock_def)

interpretation sl: mutex spin_lock_init spin_exec spin_reach "\<lambda>s i. in_critical (cpus s i)" "\<lambda>n. n < 65536"
proof unfold_locales
  show "\<not> in_critical (cpus spin_lock_init i)" for i by (simp add: spin_lock_init_def in_critical_def)
qed (auto intro: spin_reach.intros critical_unique simp: spin_exec_other)

section \<open>A run for the witnesses\<close>

text \<open>One processor takes the lock, a second one waits for it.\<close>

fun run :: "(bool \<times> nat) list \<Rightarrow> spin \<Rightarrow> spin" where
  "run [] s = s"
| "run ((ok, i) # r) s = run r (spin_exec ok i s)"

lemma run_reach: "spin_reach n s \<Longrightarrow> \<forall>(ok, i) \<in> set r. i < n \<Longrightarrow> spin_reach n (run r s)"
  by (induction r s rule: run.induct) (auto intro: spin_reach.step)

definition demo_spin :: spin where
  "demo_spin = run (replicate 7 (True, 0) @ replicate 8 (True, 1)) spin_lock_init"

lemma demo_spin_reach: "spin_reach 2 demo_spin"
  unfolding demo_spin_def by (rule run_reach [OF spin_reach.init]) auto

lemma demo_spin_pcs: "pc (cpus demo_spin 0) = Critical" "pc (cpus demo_spin 1) = L_ldaxrh"
  by code_simp+

definition demo_free :: spin where
  "demo_free = run (replicate 3 (True, 0)) demo_spin"

lemma demo_free_facts: "spin_reach 2 demo_free" "pc (cpus demo_free 0) = Idle" "pc (cpus demo_free 1) = L_ldaxrh"
proof -
  show "spin_reach 2 demo_free" unfolding demo_free_def by (rule run_reach [OF demo_spin_reach]) auto
  show "pc (cpus demo_free 0) = Idle" "pc (cpus demo_free 1) = L_ldaxrh" by code_simp+
qed

section \<open>Properties\<close>

text \<open>
  C13. Mutual exclusion: for any number of processors below \<open>2 ^ 16\<close> that take the lock with
  \<open>arch_spin_lock\<close> or \<open>arch_spin_trylock\<close> and release it with \<open>arch_spin_unlock\<close>, in any interleaving of their
  instructions and however often exclusive stores fail and the 16-bit tickets wrap around, at most one is
  between acquisition and the store that releases.
\<close>

theorem spin_mutual_exclusion:
  assumes "spin_reach n s" "n < 65536" "i < n" "j < n" "in_critical (cpus s i)" "in_critical (cpus s j)"
  shows "i = j"
  by (rule critical_unique [OF assms])

theorem spin_mutual_exclusion_witness:
  "spin_reach 2 demo_spin \<and> in_critical (cpus demo_spin 0) \<and> \<not> in_critical (cpus demo_spin 1)"
proof -
  have "in_critical (cpus demo_spin 0)" by (simp add: in_critical_def demo_spin_pcs)
  then show ?thesis using spin_mutual_exclusion [OF demo_spin_reach, of 0 1] demo_spin_reach by auto
qed

text \<open>
  C14. The lock is a fair queue: the lock word and the registers represent the sequence of the
  processors that hold a ticket, in the order in which they drew it; an instruction appends its
  processor to the queue, removes it from the head, or leaves the queue as it is, and a processor
  is in its critical section only at the head. The length of the queue is \<open>next - owner\<close>.
\<close>

theorem spin_fifo:
  assumes "spin_rep n s q" "n < 65536" "i < n"
  shows "(\<exists>q'. spin_rep n (spin_exec ok i s) q' \<and> (q' = q \<or> q' = q @ [i] \<or> q = i # q')) \<and>
    (in_critical (cpus s i) \<longrightarrow> q \<noteq> [] \<and> hd q = i) \<and>
    length q = unat (lock_next (lockw s) - lock_owner (lockw s))"
proof -
  have "length q < 65536" using rep_length [OF assms(1)] assms(2) by simp
  then have "length q = unat (lock_next (lockw s) - lock_owner (lockw s))"
    using assms(1) by (simp add: spin_rep_def unat_of_nat)
  then show ?thesis
    using spin_exec_rep [OF assms(1,3,2)] rep_critical [OF assms(1,3)] by (auto simp: is_head_def)
qed

theorem spin_fifo_witness:
  "\<exists>q. spin_rep 2 demo_spin q \<and> hd q = 0 \<and> length q = 2"
proof -
  obtain q where q: "spin_rep 2 demo_spin q" using reach_rep [OF _ demo_spin_reach] by auto
  have "in_critical (cpus demo_spin 0)" by (simp add: in_critical_def demo_spin_pcs)
  moreover have "unat (lock_next (lockw demo_spin) - lock_owner (lockw demo_spin)) = 2" by code_simp
  ultimately show ?thesis using q spin_fifo [OF q, of 0] by auto
qed



text \<open>
  C16. \<open>arch_spin_is_contended\<close> is right until the ticket counter wraps: when \<open>next\<close> has wrapped below
  \<open>owner\<close> it returns false however many processors wait.
\<close>

theorem spin_contended_wrap:
  assumes "spin_rep n s q" "n < 65536"
  shows "(lock_owner (lockw s) \<le> lock_next (lockw s) \<longrightarrow> arch_spin_is_contended (lockw s) = (1 < length q)) \<and>
    (lock_next (lockw s) < lock_owner (lockw s) \<longrightarrow> \<not> arch_spin_is_contended (lockw s) \<and> 0 < length q)"
proof -
  have "length q < 65536" using rep_length [OF assms(1)] assms(2) by simp
  then have l: "length q = unat (lock_next (lockw s) - lock_owner (lockw s))"
    using assms(1) by (simp add: spin_rep_def unat_of_nat)
  let ?n = "lock_next (lockw s)" and ?o = "lock_owner (lockw s)"
  have u: "uint ?n = int (unat ?n)" "uint ?o = int (unat ?o)" by simp_all
  have "?o \<le> ?n \<Longrightarrow> unat (?n - ?o) = unat ?n - unat ?o" by (simp add: unat_sub word_le_nat_alt)
  moreover have "?n < ?o \<Longrightarrow> ?n - ?o \<noteq> 0" by auto
  then have "?n < ?o \<Longrightarrow> 0 < unat (?n - ?o)" by (simp add: unat_gt_0)
  moreover have "arch_spin_is_contended (lockw s) \<longleftrightarrow> unat ?o + 1 < unat ?n"
    unfolding arch_spin_is_contended_def u by linarith
  ultimately show ?thesis unfolding l word_le_nat_alt word_less_nat_alt by linarith
qed

theorem spin_contended_wrap_witness:
  "\<exists>q. spin_rep 2 demo_spin q \<and> length q = 2 \<and> arch_spin_is_contended (lockw demo_spin)"
proof -
  obtain q where q: "spin_rep 2 demo_spin q" using reach_rep [OF _ demo_spin_reach] by auto
  have "lock_owner (lockw demo_spin) \<le> lock_next (lockw demo_spin)" "arch_spin_is_contended (lockw demo_spin)"
    by code_simp+
  moreover from this have "1 < length q" using spin_contended_wrap [OF q] by simp
  moreover have "length q \<le> 2" by (rule rep_length [OF q])
  ultimately show ?thesis using q by auto
qed

end
