(* ===== verification/Run_Once.thy ===== *)
theory Run_Once
  imports Spinlock
begin

text \<open>
  \<open>run_once\<close> of \<^verbatim>\<open>src/include/utils/utils.h\<close> under contention: any number of processors call it on the same
  \<open>once_flag_t\<close>, any number of times, interleaved in any order with the instructions of the
  spinlock in it. \<open>func\<close> is a parameter that runs step by step on a state every processor may
  change at any time. Memory is sequentially consistent, so the barriers order nothing.
\<close>

section \<open>The code\<close>

datatype opc = O_out | O_read | O_lock | O_read2 | O_func | O_set | O_unlock | O_return

record once_cpu =
  opc :: opc
  oret :: int

text \<open>\<open>calls\<close> records, for the statements only, the completed calls of \<open>func\<close> with their results.\<close>

record 's once_flag =
  oflag :: u32
  olock :: spin
  ocpus :: "nat \<Rightarrow> once_cpu"
  shared :: 's
  calls :: "(nat \<times> int) list"

definition goto :: "nat \<Rightarrow> opc \<Rightarrow> 's once_flag \<Rightarrow> 's once_flag" where
  "goto i l s = s\<lparr>ocpus := (ocpus s)(i := (ocpus s i)\<lparr>opc := l\<rparr>)\<rparr>"

definition set_ret :: "nat \<Rightarrow> int \<Rightarrow> 's once_flag \<Rightarrow> 's once_flag" where
  "set_ret i r s = s\<lparr>ocpus := (ocpus s)(i := (ocpus s i)\<lparr>oret := r\<rparr>)\<rparr>"

text \<open>
  One step of processor \<open>i\<close>: an access to the flag, an instruction of \<open>spin_lock\<close> or \<open>spin_unlock\<close>, or a
  step of \<open>func\<close>, which has returned when its step has a result.
\<close>

fun once_instr :: "(nat \<Rightarrow> 's \<Rightarrow> int option \<times> 's) \<Rightarrow> bool \<Rightarrow> nat \<Rightarrow> opc \<Rightarrow> 's once_flag \<Rightarrow> 's once_flag" where
  "once_instr func ok i O_out s = goto i O_read (set_ret i 0 s)"
| "once_instr func ok i O_read s = goto i (if oflag s = 0 then O_lock else O_return) s"
| "once_instr func ok i O_lock s =
     (let p = pc (cpus (olock s) i)
      in if p = Critical then goto i O_read2 s else s\<lparr>olock := spin_exec (ok \<or> p = Idle) i (olock s)\<rparr>)"
| "once_instr func ok i O_read2 s = goto i (if oflag s = 0 then O_func else O_unlock) s"
| "once_instr func ok i O_func s =
     (case func i (shared s) of
        (None, x) \<Rightarrow> s\<lparr>shared := x\<rparr>
      | (Some r, x) \<Rightarrow>
          goto i (if r = 0 then O_set else O_unlock) (set_ret i r (s\<lparr>shared := x, calls := calls s @ [(i, r)]\<rparr>)))"
| "once_instr func ok i O_set s = goto i O_unlock (s\<lparr>oflag := 1\<rparr>)"
| "once_instr func ok i O_unlock s =
     (if pc (cpus (olock s) i) = Idle then goto i O_return s else s\<lparr>olock := spin_exec ok i (olock s)\<rparr>)"
| "once_instr func ok i O_return s = goto i O_out s"

definition once_exec :: "(nat \<Rightarrow> 's \<Rightarrow> int option \<times> 's) \<Rightarrow> bool \<Rightarrow> nat \<Rightarrow> 's once_flag \<Rightarrow> 's once_flag" where
  "once_exec func ok i s = once_instr func ok i (opc (ocpus s i)) s"

definition ONCE_INITIALIZER :: "'s \<Rightarrow> 's once_flag" where
  "ONCE_INITIALIZER x =
     \<lparr>oflag = 0, olock = spin_lock_init, ocpus = (\<lambda>_. \<lparr>opc = O_out, oret = 0\<rparr>), shared = x, calls = []\<rparr>"

inductive once_reach :: "(nat \<Rightarrow> 's \<Rightarrow> int option \<times> 's) \<Rightarrow> nat \<Rightarrow> 's once_flag \<Rightarrow> bool" for func n where
  init: "once_reach func n (ONCE_INITIALIZER x)"
| step: "once_reach func n s \<Longrightarrow> i < n \<Longrightarrow> once_reach func n (once_exec func ok i s)"
| other: "once_reach func n s \<Longrightarrow> once_reach func n (s\<lparr>shared := x\<rparr>)"

section \<open>The lock and the place in \<open>run_once\<close>\<close>

fun lock_at :: "opc \<Rightarrow> pc \<Rightarrow> bool" where
  "lock_at O_lock p \<longleftrightarrow> p \<in> {Idle, L_ldaxr, L_add, L_stxr, L_cbnz, L_eor, L_cbz, L_wfe, L_ldaxrh, L_eor2, L_cbnz2, Critical}"
| "lock_at O_read2 p \<longleftrightarrow> p = Critical"
| "lock_at O_func p \<longleftrightarrow> p = Critical"
| "lock_at O_set p \<longleftrightarrow> p = Critical"
| "lock_at O_unlock p \<longleftrightarrow> p \<in> {Critical, U_ldrh, U_stlrh, Idle}"
| "lock_at _ p \<longleftrightarrow> p = Idle"

lemma locks_at: "lock_at O_lock (pc (cpus l i)) \<Longrightarrow> pc (cpus l i) \<noteq> Critical \<Longrightarrow>
    lock_at O_lock (pc (cpus (spin_exec (ok \<or> pc (cpus l i) = Idle) i l) i))"
  by (cases "pc (cpus l i)") (auto simp: spin_exec_def upd_def ldx_def stx_def store_lock_def)

lemma unlocks_at: "lock_at O_unlock (pc (cpus l i)) \<Longrightarrow> pc (cpus l i) \<noteq> Idle \<Longrightarrow>
    lock_at O_unlock (pc (cpus (spin_exec ok i l) i))"
  by (cases "pc (cpus l i)") (auto simp: spin_exec_def upd_def ldx_def stx_def store_lock_def)

definition locks_ok :: "nat \<Rightarrow> 's once_flag \<Rightarrow> bool" where
  "locks_ok n s \<longleftrightarrow> spin_reach n (olock s) \<and> (\<forall>i. lock_at (opc (ocpus s i)) (pc (cpus (olock s) i)))"

lemma locks_ok_step:
  assumes "locks_ok n s" "i < n"
  shows "locks_ok n (once_exec func ok i s)"
proof -
  let ?s = "once_exec func ok i s"
  have at: "lock_at (opc (ocpus s j)) (pc (cpus (olock s) j))" for j using assms(1) by (simp add: locks_ok_def)
  have r: "spin_reach n (olock s)" using assms(1) by (simp add: locks_ok_def)
  have "spin_reach n (olock ?s)"
    using r assms(2)
    by (cases "opc (ocpus s i)") (auto simp: once_exec_def goto_def set_ret_def Let_def sl.step split: option.split prod.split)
  moreover have "lock_at O_lock Idle" "lock_at O_unlock Critical" by simp_all
  then have "lock_at (opc (ocpus ?s i)) (pc (cpus (olock ?s) i))"
    using at [of i] locks_at [of "olock s" i ok] unlocks_at [of "olock s" i ok]
    by (cases "opc (ocpus s i)") (auto simp: once_exec_def goto_def set_ret_def Let_def simp del: lock_at.simps(1,5) split: option.split prod.split)
  moreover have "ocpus ?s j = ocpus s j \<and> cpus (olock ?s) j = cpus (olock s) j" if "j \<noteq> i" for j
    using that by (cases "opc (ocpus s i)") (auto simp: once_exec_def goto_def set_ret_def Let_def spin_exec_other split: option.split prod.split)
  ultimately show ?thesis using at unfolding locks_ok_def by metis
qed

definition holding :: "opc \<Rightarrow> bool" where "holding l \<longleftrightarrow> l \<in> {O_read2, O_func, O_set}"

lemma holding_unique:
  assumes "locks_ok n s" "n < 65536" "i < n" "j < n" "holding (opc (ocpus s i))" "holding (opc (ocpus s j))"
  shows "i = j"
proof -
  have "in_critical (cpus (olock s) k)" if "holding (opc (ocpus s k))" for k
    using assms(1) that by (auto simp: locks_ok_def holding_def in_critical_def dest!: spec [of _ k])
  then show ?thesis using assms by (intro sl.guarded_unique [where P = "\<lambda>k. holding (opc (ocpus s k))"]) (auto simp: locks_ok_def)
qed

section \<open>The results\<close>

text \<open>What each processor knows of the flag and of the completed calls, and when the flag is set.\<close>

fun knows :: "u32 \<Rightarrow> (nat \<times> int) list \<Rightarrow> nat \<Rightarrow> opc \<Rightarrow> int \<Rightarrow> bool" where
  "knows f cs i O_out r \<longleftrightarrow> True"
| "knows f cs i O_func r \<longleftrightarrow> r = 0 \<and> f = 0"
| "knows f cs i O_set r \<longleftrightarrow> r = 0 \<and> f = 0"
| "knows f cs i O_unlock r \<longleftrightarrow> (if r = 0 then f \<noteq> 0 else (i, r) \<in> set cs)"
| "knows f cs i O_return r \<longleftrightarrow> (if r = 0 then f \<noteq> 0 else (i, r) \<in> set cs)"
| "knows f cs i _ r \<longleftrightarrow> r = 0"

definition once_inv :: "nat \<Rightarrow> 's once_flag \<Rightarrow> bool" where
  "once_inv n s \<longleftrightarrow> locks_ok n s \<and> 0 \<notin> set (butlast (map snd (calls s))) \<and>
     (0 \<in> set (map snd (calls s)) \<longleftrightarrow> oflag s \<noteq> 0 \<or> (\<exists>i < n. opc (ocpus s i) = O_set)) \<and>
     (\<forall>i < n. knows (oflag s) (calls s) i (opc (ocpus s i)) (oret (ocpus s i)))"

text \<open>A processor keeps what it knows while another one, which alone may hold the lock, goes on.\<close>

lemma knows_mono:
  "knows f cs i l r \<Longrightarrow> f' = f \<or> f' \<noteq> 0 \<and> \<not> holding l \<Longrightarrow> set cs \<subseteq> set cs' \<Longrightarrow> knows f' cs' i l r"
  by (cases l) (auto simp: holding_def split: if_splits)

lemma once_inv_step:
  assumes inv: "once_inv n s" and i: "i < n" and n: "n < 65536"
  shows "once_inv n (once_exec func ok i s)"
proof -
  let ?s = "once_exec func ok i s" and ?l = "opc (ocpus s i)"
  have lk: "locks_ok n s" and nz: "0 \<notin> set (butlast (map snd (calls s)))"
    and z: "0 \<in> set (map snd (calls s)) \<longleftrightarrow> oflag s \<noteq> 0 \<or> (\<exists>i < n. opc (ocpus s i) = O_set)"
    using inv by (simp_all add: once_inv_def)
  have kn: "knows (oflag s) (calls s) j (opc (ocpus s j)) (oret (ocpus s j))" if "j < n" for j
    using inv that by (simp add: once_inv_def)
  have alone: "j = i" if "j < n" "holding ?l" "holding (opc (ocpus s j))" for j
    using holding_unique [OF lk n that(1) i that(3,2)] .
  have fresh: "0 \<notin> set (map snd (calls s))" if "?l = O_func"
  proof -
    have "oflag s = 0" using kn [OF i] that by simp
    moreover have "opc (ocpus s j) \<noteq> O_set" if "j < n" for j
      using alone [OF that] \<open>?l = O_func\<close> by (auto simp: holding_def)
    ultimately show ?thesis using z by blast
  qed
  note defs = once_exec_def goto_def set_ret_def Let_def
  have other: "ocpus ?s j = ocpus s j" if "j \<noteq> i" for j
    using that by (cases ?l) (auto simp: defs split: option.split prod.split)
  have "0 \<notin> set (butlast (map snd (calls ?s)))"
    using nz fresh by (cases ?l) (auto simp: defs split: option.split prod.split)
  moreover have "knows (oflag ?s) (calls ?s) j (opc (ocpus ?s j)) (oret (ocpus ?s j))" if "j < n" for j
  proof (cases "j = i")
    case True
    then show ?thesis using kn [OF i] by (cases ?l) (auto simp: defs split: option.split prod.split)
  next
    case False
    have "oflag ?s = oflag s \<or> oflag ?s \<noteq> 0 \<and> ?l = O_set" "set (calls s) \<subseteq> set (calls ?s)"
      by (cases ?l; auto simp: defs split: option.split prod.split)+
    then show ?thesis
      using knows_mono [OF kn [OF that]] alone [OF that] False other by (metis holding_def insertCI)
  qed
  moreover have "0 \<in> set (map snd (calls ?s)) \<longleftrightarrow> oflag ?s \<noteq> 0 \<or> (\<exists>j < n. opc (ocpus ?s j) = O_set)"
  proof -
    have split: "(\<exists>j < n. opc (f j) = O_set) \<longleftrightarrow> opc (f i) = O_set \<or> (\<exists>j < n. j \<noteq> i \<and> opc (f j) = O_set)" for f :: "nat \<Rightarrow> once_cpu"
      using i by auto
    have "(\<exists>j < n. j \<noteq> i \<and> opc (ocpus ?s j) = O_set) \<longleftrightarrow> (\<exists>j < n. j \<noteq> i \<and> opc (ocpus s j) = O_set)"
      using other by auto
    moreover have "\<not> (\<exists>j < n. j \<noteq> i \<and> opc (ocpus s j) = O_set)" if "holding ?l"
      using alone [OF _ that] by (auto simp: holding_def)
    ultimately show ?thesis
      using z kn [OF i] unfolding split [of "ocpus s"] split [of "ocpus ?s"]
      by (cases ?l) (auto simp: defs holding_def split: option.split prod.split)
  qed
  ultimately show ?thesis using locks_ok_step [OF lk i] by (simp add: once_inv_def)
qed

lemma once_reach_inv:
  assumes "once_reach func n s" "n < 65536"
  shows "once_inv n s"
  using assms(1)
proof (induction rule: once_reach.induct)
  case (init x)
  show ?case by (simp add: once_inv_def locks_ok_def ONCE_INITIALIZER_def sl.start) (simp add: spin_lock_init_def)
next
  case (step s i ok)
  then show ?case using once_inv_step [OF _ _ assms(2)] by blast
qed (simp add: once_inv_def locks_ok_def)

section \<open>Properties\<close>

text \<open>
  C19. \<open>run_once\<close> runs its function once: whatever processors call it and however their steps interleave,
  two of them are never in \<open>func\<close> together, all calls of \<open>func\<close> before the last one failed, and none
  begins after one that succeeded. A \<open>run_once\<close> that returns 0 does so only when a call has succeeded and
  is complete, whoever made it; one that returns an error returns the result of its own failed call.
\<close>

theorem run_once_succeeds_once:
  assumes "once_reach func n s" "n < 65536"
  shows "(\<forall>i < n. \<forall>j < n. opc (ocpus s i) = O_func \<and> opc (ocpus s j) = O_func \<longrightarrow> i = j) \<and>
    0 \<notin> set (butlast (map snd (calls s))) \<and>
    (0 \<in> set (map snd (calls s)) \<longrightarrow> (\<forall>i < n. opc (ocpus s i) \<noteq> O_func)) \<and>
    (\<forall>i < n. opc (ocpus s i) = O_return \<longrightarrow>
      (if oret (ocpus s i) = 0 then 0 \<in> set (map snd (calls s)) else (i, oret (ocpus s i)) \<in> set (calls s)))"
proof -
  have inv: "once_inv n s" by (rule once_reach_inv [OF assms])
  then have lk: "locks_ok n s" and z: "0 \<in> set (map snd (calls s)) \<longleftrightarrow> oflag s \<noteq> 0 \<or> (\<exists>i < n. opc (ocpus s i) = O_set)"
    and nz: "0 \<notin> set (butlast (map snd (calls s)))" by (simp_all add: once_inv_def)
  have kn: "knows (oflag s) (calls s) j (opc (ocpus s j)) (oret (ocpus s j))" if "j < n" for j
    using inv that by (simp add: once_inv_def)
  have uniq: "i = j" if "i < n" "j < n" "opc (ocpus s i) = O_func" "opc (ocpus s j) \<in> {O_func, O_set}" for i j
    using holding_unique [OF lk assms(2) that(1,2)] that(3,4) by (auto simp: holding_def)
  have "opc (ocpus s i) \<noteq> O_func" if i: "i < n" and c: "0 \<in> set (map snd (calls s))" for i
  proof
    assume f: "opc (ocpus s i) = O_func"
    then obtain j where "j < n" "opc (ocpus s j) = O_set" using kn [OF i] c z by auto
    then show False using uniq [OF i _ f, of j] f by simp
  qed
  moreover have "if oret (ocpus s i) = 0 then 0 \<in> set (map snd (calls s)) else (i, oret (ocpus s i)) \<in> set (calls s)"
    if "i < n" "opc (ocpus s i) = O_return" for i
    using kn [OF that(1)] that(2) z by auto
  ultimately show ?thesis using uniq nz by (intro conjI allI impI) blast+
qed

text \<open>
  Three processors; \<open>func\<close> fails the first time and succeeds the second. The first two run it one after
  the other while the third waits for the lock.
\<close>

definition fails_first :: "nat \<Rightarrow> nat \<Rightarrow> int option \<times> nat" where
  "fails_first i x = (Some (if x = 0 then - 22 else 0), x + 1)"

definition once_run :: "nat list \<Rightarrow> nat once_flag" where
  "once_run is = foldl (\<lambda>s i. once_exec fails_first True i s) (ONCE_INITIALIZER 0) is"

lemma once_run_reach: "\<forall>i \<in> set is. i < n \<Longrightarrow> once_reach fails_first n (once_run is)"
  unfolding once_run_def by (induction "is" rule: rev_induct) (auto intro: once_reach.intros)

definition once_schedule :: "nat list" where
  "once_schedule = replicate 3 0 @ replicate 5 2 @ replicate 13 0 @ replicate 16 1 @ replicate 6 2"

theorem run_once_succeeds_once_witness:
  "calls (once_run once_schedule) = [(0, - 22), (1, 0)] \<and> 0 \<notin> set (butlast (map snd (calls (once_run once_schedule))))"
proof -
  have "\<forall>i \<in> set once_schedule. i < 3" by (simp add: once_schedule_def)
  note r = run_once_succeeds_once [OF once_run_reach [OF this]]
  have "calls (once_run once_schedule) = [(0, - 22), (1, 0)]" by code_simp
  then show ?thesis using r by simp
qed

end
