(* ===== verification/Atomic.thy ===== *)
theory Atomic
  imports Prelude
begin

text \<open>
  The atomic operations of \<^verbatim>\<open>src/platform/aarch64/include/atomic/atomic.h\<close>. Each is a loop of an exclusive
  load, a computation and an exclusive store that is repeated until the store succeeds; the width is
  a parameter, 32 bits for \<open>atomic_t\<close> and 64 for \<open>atomic64_t\<close>. Any number of processors run these
  loops on one counter, one instruction at a time; a reservation is lost with every store to the
  counter and an exclusive store may fail for no reason. The component \<open>history\<close> records, for the
  proofs only, the operations in the order in which they take effect, with the results they return.
\<close>

section \<open>The operations\<close>

datatype 'w aop =
    Op_add 'w
  | Op_sub 'w
  | Op_cmpxchg 'w 'w
  | Op_dec_if_positive
  | Op_read
  | Op_set 'w

text \<open>What an operation does with the value it loaded: the value to store, if any, and the result.\<close>

fun rmw :: "'a::len word aop \<Rightarrow> 'a word \<Rightarrow> 'a word option \<times> 'a word" where
  "rmw (Op_add i) v = (Some (v + i), v + i)"
| "rmw (Op_sub i) v = (Some (v - i), v - i)"
| "rmw (Op_cmpxchg old new) v = (if v = old then Some new else None, v)"
| "rmw Op_dec_if_positive v = (if sint (v - 1) < 0 then None else Some (v - 1), v - 1)"
| "rmw Op_read v = (None, v)"
| "rmw (Op_set i) v = (Some i, i)"

definition atomic_read :: "u32 aop" where "atomic_read = Op_read"
definition atomic_set :: "u32 \<Rightarrow> u32 aop" where "atomic_set i = Op_set i"
definition atomic_add :: "u32 \<Rightarrow> u32 aop" where "atomic_add i = Op_add i"
definition atomic_add_return :: "u32 \<Rightarrow> u32 aop" where "atomic_add_return i = Op_add i"
definition atomic_sub :: "u32 \<Rightarrow> u32 aop" where "atomic_sub i = Op_sub i"
definition atomic_sub_return :: "u32 \<Rightarrow> u32 aop" where "atomic_sub_return i = Op_sub i"
definition atomic_cmpxchg :: "u32 \<Rightarrow> u32 \<Rightarrow> u32 aop" where "atomic_cmpxchg old new = Op_cmpxchg old new"
definition atomic_inc :: "u32 aop" where "atomic_inc = atomic_add 1"
definition atomic_dec :: "u32 aop" where "atomic_dec = atomic_sub 1"
definition atomic_inc_return :: "u32 aop" where "atomic_inc_return = atomic_add_return 1"
definition atomic_dec_return :: "u32 aop" where "atomic_dec_return = atomic_sub_return 1"

definition atomic64_read :: "u64 aop" where "atomic64_read = Op_read"
definition atomic64_set :: "u64 \<Rightarrow> u64 aop" where "atomic64_set i = Op_set i"
definition atomic64_add :: "u64 \<Rightarrow> u64 aop" where "atomic64_add i = Op_add i"
definition atomic64_add_return :: "u64 \<Rightarrow> u64 aop" where "atomic64_add_return i = Op_add i"
definition atomic64_sub :: "u64 \<Rightarrow> u64 aop" where "atomic64_sub i = Op_sub i"
definition atomic64_sub_return :: "u64 \<Rightarrow> u64 aop" where "atomic64_sub_return i = Op_sub i"
definition atomic64_cmpxchg :: "u64 \<Rightarrow> u64 \<Rightarrow> u64 aop" where "atomic64_cmpxchg old new = Op_cmpxchg old new"
definition atomic64_dec_if_positive :: "u64 aop" where "atomic64_dec_if_positive = Op_dec_if_positive"
definition atomic64_inc :: "u64 aop" where "atomic64_inc = atomic64_add 1"
definition atomic64_dec :: "u64 aop" where "atomic64_dec = atomic64_sub 1"
definition atomic64_inc_return :: "u64 aop" where "atomic64_inc_return = atomic64_add_return 1"
definition atomic64_dec_return :: "u64 aop" where "atomic64_dec_return = atomic64_sub_return 1"

text \<open>
  The macros that test a result: the operation, and what is asked of the value it returns. The 32-bit
  operations return an \<open>int\<close>, the 64-bit ones an \<open>uint64_t\<close>, for which \<open>< 0\<close> is never true.
\<close>

type_synonym 'w atest = "'w aop \<times> ('w \<Rightarrow> bool)"

definition atomic_inc_and_test :: "u32 atest" where "atomic_inc_and_test = (atomic_add_return 1, \<lambda>r. r = 0)"
definition atomic_dec_and_test :: "u32 atest" where "atomic_dec_and_test = (atomic_sub_return 1, \<lambda>r. r = 0)"
definition atomic_sub_and_test :: "u32 \<Rightarrow> u32 atest" where "atomic_sub_and_test i = (atomic_sub_return i, \<lambda>r. r = 0)"
definition atomic_add_negative :: "u32 \<Rightarrow> u32 atest" where "atomic_add_negative i = (atomic_add_return i, \<lambda>r. sint r < 0)"

definition atomic64_inc_and_test :: "u64 atest" where "atomic64_inc_and_test = (atomic64_inc_return, \<lambda>r. r = 0)"
definition atomic64_dec_and_test :: "u64 atest" where "atomic64_dec_and_test = (atomic64_dec_return, \<lambda>r. r = 0)"
definition atomic64_sub_and_test :: "u64 \<Rightarrow> u64 atest" where "atomic64_sub_and_test a = (atomic64_sub_return a, \<lambda>r. r = 0)"
definition atomic64_add_negative :: "u64 \<Rightarrow> u64 atest" where "atomic64_add_negative a = (atomic64_add_return a, \<lambda>r. r < 0)"

section \<open>The instructions\<close>

datatype apc = A_idle | A_ldr | A_str | A_ldxr | A_op | A_stxr | A_cbnz | A_done

record 'w acpu =
  apc :: apc
  aop :: "'w aop"
  areg :: 'w
  atmp :: u32

record 'w atom =
  counter :: 'w
  aexcl :: "nat \<Rightarrow> bool"
  acpus :: "nat \<Rightarrow> 'w acpu"
  history :: "(nat \<times> 'w aop \<times> 'w) list"

definition aupd :: "nat \<Rightarrow> 'a::len word acpu \<Rightarrow> 'a word atom \<Rightarrow> 'a word atom" where
  "aupd i c s = s\<lparr>acpus := (acpus s)(i := c)\<rparr>"

definition record_op :: "nat \<Rightarrow> 'a::len word aop \<Rightarrow> 'a word \<Rightarrow> 'a word atom \<Rightarrow> 'a word atom" where
  "record_op i p r s = s\<lparr>history := history s @ [(i, p, r)]\<rparr>"

text \<open>
  \<open>areg\<close> holds the loaded value up to the exclusive store and the result from then on. An operation
  that stores nothing takes effect at its load.
\<close>

fun atom_instr :: "bool \<Rightarrow> 'a::len word aop \<Rightarrow> nat \<Rightarrow> 'a word acpu \<Rightarrow> apc \<Rightarrow> 'a word atom \<Rightarrow> 'a word atom" where
  "atom_instr ok p i c A_idle s =
     aupd i (c\<lparr>apc := (case p of Op_read \<Rightarrow> A_ldr | Op_set v \<Rightarrow> A_str | _ \<Rightarrow> A_ldxr), aop := p\<rparr>) s"
| "atom_instr ok p i c A_ldr s =
     record_op i (aop c) (counter s) (aupd i (c\<lparr>apc := A_done, areg := counter s\<rparr>) s)"
| "atom_instr ok p i c A_str s =
     (let v = snd (rmw (aop c) (areg c))
      in record_op i (aop c) v (aupd i (c\<lparr>apc := A_done, areg := v\<rparr>) (s\<lparr>counter := v, aexcl := (\<lambda>_. False)\<rparr>)))"
| "atom_instr ok p i c A_ldxr s =
     (let s' = aupd i (c\<lparr>apc := A_op, areg := counter s\<rparr>) (s\<lparr>aexcl := (aexcl s)(i := True)\<rparr>)
      in if fst (rmw (aop c) (counter s)) = None
         then record_op i (aop c) (snd (rmw (aop c) (counter s))) s' else s')"
| "atom_instr ok p i c A_op s =
     (case rmw (aop c) (areg c) of
        (None, r) \<Rightarrow> aupd i (c\<lparr>apc := A_done, areg := r\<rparr>) s
      | (Some v, r) \<Rightarrow> aupd i (c\<lparr>apc := A_stxr\<rparr>) s)"
| "atom_instr ok p i c A_stxr s =
     (case rmw (aop c) (areg c) of
        (None, r) \<Rightarrow> s
      | (Some v, r) \<Rightarrow>
          if ok \<and> aexcl s i
          then record_op i (aop c) r
            (aupd i (c\<lparr>apc := A_cbnz, areg := r, atmp := 0\<rparr>) (s\<lparr>counter := v, aexcl := (\<lambda>_. False)\<rparr>))
          else aupd i (c\<lparr>apc := A_cbnz, atmp := 1\<rparr>) (s\<lparr>aexcl := (aexcl s)(i := False)\<rparr>))"
| "atom_instr ok p i c A_cbnz s = aupd i (c\<lparr>apc := (if atmp c \<noteq> 0 then A_ldxr else A_done)\<rparr>) s"
| "atom_instr ok p i c A_done s = aupd i (c\<lparr>apc := A_idle\<rparr>) s"

definition atom_exec :: "bool \<Rightarrow> 'a::len word aop \<Rightarrow> nat \<Rightarrow> 'a word atom \<Rightarrow> 'a word atom" where
  "atom_exec ok p i s = atom_instr ok p i (acpus s i) (apc (acpus s i)) s"

definition atom_init :: "'a::len word \<Rightarrow> 'a word atom" where
  "atom_init v = \<lparr>counter = v, aexcl = (\<lambda>_. False),
     acpus = (\<lambda>_. \<lparr>apc = A_idle, aop = Op_add 0, areg = 0, atmp = 0\<rparr>), history = []\<rparr>"

inductive atom_reach :: "'a::len word \<Rightarrow> 'a word atom \<Rightarrow> bool" for v where
  init: "atom_reach v (atom_init v)"
| step: "atom_reach v s \<Longrightarrow> atom_reach v (atom_exec ok p i s)"

section \<open>Linearisation\<close>

text \<open>The value after a sequence of operations, and whether each returned what it should.\<close>

definition effect :: "'a::len word aop \<Rightarrow> 'a word \<Rightarrow> 'a word" where
  "effect p v = (case fst (rmw p v) of None \<Rightarrow> v | Some v' \<Rightarrow> v')"

fun replay :: "'a::len word \<Rightarrow> (nat \<times> 'a word aop \<times> 'a word) list \<Rightarrow> 'a word" where
  "replay v [] = v"
| "replay v ((i, p, r) # h) = replay (effect p v) h"

fun legal :: "'a::len word \<Rightarrow> (nat \<times> 'a word aop \<times> 'a word) list \<Rightarrow> bool" where
  "legal v [] = True"
| "legal v ((i, p, r) # h) \<longleftrightarrow> r = snd (rmw p v) \<and> legal (effect p v) h"

text \<open>
  \<open>__atomic_add_unless\<close> and \<open>atomic64_add_unless\<close> are loops of the operations above. Between two of them
  the other processors change the counter: \<open>env k\<close> is what they do to it before the operation
  number \<open>k\<close>. The value that is read is taken by itself or handed over from the failed exchange.
\<close>

partial_function (option) add_unless_loop ::
    "(nat \<Rightarrow> 'a::len word \<Rightarrow> 'a word) \<Rightarrow> 'a word \<Rightarrow> 'a word \<Rightarrow> nat \<Rightarrow> 'a word \<Rightarrow> 'a word \<Rightarrow> ('a word \<times> 'a word) option" where
  "add_unless_loop env a u k c v =
     (if c \<noteq> u
      then let v = env k v;
               old = snd (rmw (Op_cmpxchg c (c + a)) v);
               v = effect (Op_cmpxchg c (c + a)) v
           in if old \<noteq> c then add_unless_loop env a u (Suc k) old v else Some (c, v)
      else Some (c, v))"

definition add_unless_from :: "(nat \<Rightarrow> 'a::len word \<Rightarrow> 'a word) \<Rightarrow> 'a word \<Rightarrow> 'a word \<Rightarrow> 'a word \<Rightarrow> ('a word \<times> 'a word) option" where
  "add_unless_from env a u v =
     (let v = env 0 v; c = snd (rmw Op_read v) in add_unless_loop env a u 1 c v)"

definition atomic_add_unless :: "(nat \<Rightarrow> u32 \<Rightarrow> u32) \<Rightarrow> u32 \<Rightarrow> u32 \<Rightarrow> u32 \<Rightarrow> (u32 \<times> u32) option" where
  "atomic_add_unless env v a u = add_unless_from env a u v"

definition atomic64_add_unless :: "(nat \<Rightarrow> u64 \<Rightarrow> u64) \<Rightarrow> u64 \<Rightarrow> u64 \<Rightarrow> u64 \<Rightarrow> (bool \<times> u64) option" where
  "atomic64_add_unless env v a u = map_option (apfst (\<lambda>c. c \<noteq> u)) (add_unless_from env a u v)"

definition atomic64_inc_not_zero :: "(nat \<Rightarrow> u64 \<Rightarrow> u64) \<Rightarrow> u64 \<Rightarrow> (bool \<times> u64) option" where
  "atomic64_inc_not_zero env v = atomic64_add_unless env v 1 0"

lemma replay_snoc [simp]: "replay v (h @ [(i, p, r)]) = effect p (replay v h)"
  by (induction v h rule: replay.induct) auto

lemma legal_snoc [simp]: "legal v (h @ [(i, p, r)]) \<longleftrightarrow> legal v h \<and> r = snd (rmw p (replay v h))"
  by (induction v h rule: legal.induct) auto

text \<open>The last operation of a processor in a history.\<close>

definition last_op :: "nat \<Rightarrow> (nat \<times> 'a::len word aop \<times> 'a word) list \<Rightarrow> ('a word aop \<times> 'a word) option" where
  "last_op i h = map_of (rev h) i"

lemma last_op_snoc [simp]: "last_op j (h @ [(i, p, r)]) = (if j = i then Some (p, r) else last_op j h)"
  by (simp add: last_op_def)

fun atom_at :: "'a::len word atom \<Rightarrow> nat \<Rightarrow> 'a word acpu \<Rightarrow> apc \<Rightarrow> bool" where
  "atom_at s i c A_ldr \<longleftrightarrow> aop c = Op_read"
| "atom_at s i c A_str \<longleftrightarrow> (\<exists>v. aop c = Op_set v)"
| "atom_at s i c A_op \<longleftrightarrow>
     (case rmw (aop c) (areg c) of
        (None, r) \<Rightarrow> last_op i (history s) = Some (aop c, r)
      | (Some v, r) \<Rightarrow> aexcl s i \<longrightarrow> areg c = counter s)"
| "atom_at s i c A_stxr \<longleftrightarrow> fst (rmw (aop c) (areg c)) \<noteq> None \<and> (aexcl s i \<longrightarrow> areg c = counter s)"
| "atom_at s i c A_cbnz \<longleftrightarrow> (atmp c = 0 \<longrightarrow> last_op i (history s) = Some (aop c, areg c))"
| "atom_at s i c A_done \<longleftrightarrow> last_op i (history s) = Some (aop c, areg c)"
| "atom_at s i c _ \<longleftrightarrow> True"

definition atom_inv :: "'a::len word \<Rightarrow> 'a word atom \<Rightarrow> bool" where
  "atom_inv v s \<longleftrightarrow> counter s = replay v (history s) \<and> legal v (history s) \<and>
     (\<forall>i. atom_at s i (acpus s i) (apc (acpus s i)))"

lemma atom_at_frame:
  assumes "atom_at s j c k" "aexcl s' j \<Longrightarrow> aexcl s j \<and> counter s' = counter s" "last_op j (history s') = last_op j (history s)"
  shows "atom_at s' j c k"
  using assms by (cases k) (auto split: prod.splits option.splits)

lemma atom_exec_inv:
  assumes "atom_inv v s"
  shows "atom_inv v (atom_exec ok p i s)"
proof -
  let ?c = "acpus s i" and ?s = "atom_exec ok p i s"
  have at: "atom_at s j (acpus s j) (apc (acpus s j))" for j using assms by (simp add: atom_inv_def)
  have own: "counter ?s = replay v (history ?s) \<and> legal v (history ?s) \<and> atom_at ?s i (acpus ?s i) (apc (acpus ?s i))"
    using at [of i] assms
    by (cases "apc ?c")
      (auto simp: atom_exec_def atom_inv_def aupd_def record_op_def effect_def Let_def split: prod.splits option.splits if_splits aop.splits)
  have "atom_at ?s j (acpus ?s j) (apc (acpus ?s j))" if "j \<noteq> i" for j
  proof -
    have "acpus ?s j = acpus s j" "aexcl ?s j \<Longrightarrow> aexcl s j \<and> counter ?s = counter s"
      "last_op j (history ?s) = last_op j (history s)"
      using that at [of i]
      by (cases "apc ?c"; auto simp: atom_exec_def aupd_def record_op_def Let_def split: prod.splits option.splits if_splits)+
    then show ?thesis using atom_at_frame [OF at [of j]] by simp
  qed
  then have "atom_at ?s j (acpus ?s j) (apc (acpus ?s j))" for j using own by (cases "j = i") auto
  then show ?thesis using own by (simp add: atom_inv_def)
qed

lemma atom_reach_inv: "atom_reach v s \<Longrightarrow> atom_inv v s"
proof (induction rule: atom_reach.induct)
  case init
  show ?case by (simp add: atom_inv_def atom_init_def)
qed (rule atom_exec_inv)

section \<open>Addition unless a value is met\<close>

text \<open>What the others alone make of the counter in \<open>n\<close> turns.\<close>

fun others :: "(nat \<Rightarrow> 'a \<Rightarrow> 'a) \<Rightarrow> nat \<Rightarrow> 'a \<Rightarrow> 'a" where
  "others env 0 v = v"
| "others env (Suc n) v = env n (others env n v)"

definition settled :: "(nat \<Rightarrow> 'a \<Rightarrow> 'a) \<Rightarrow> bool" where
  "settled env \<longleftrightarrow> (\<exists>n. \<forall>k \<ge> n. \<forall>v. env k v = v)"

text \<open>A loop entered after \<open>k\<close> turns with the value it has seen last ends in one indivisible step.\<close>

lemma add_unless_loop_step:
  assumes "\<forall>j \<ge> n. \<forall>w. env j w = w" "c = others env k v"
  shows "\<exists>j w. w = others env j v \<and> add_unless_loop env a u k c c = Some (w, if w = u then w else w + a)"
  using assms(2)
proof (induction "n - k" arbitrary: k c rule: less_induct)
  case less
  show ?case
  proof (cases "c = u")
    case True
    then show ?thesis using less.prems by (subst add_unless_loop.simps) auto
  next
    case False
    define w where "w = env k c"
    have w: "w = others env (Suc k) v" using less.prems by (simp add: w_def)
    show ?thesis
    proof (cases "w = c")
      case True
      then have "add_unless_loop env a u k c c = Some (w, w + a)"
        using False by (subst add_unless_loop.simps) (simp add: w_def effect_def Let_def)
      then show ?thesis using True False less.prems by (intro exI [of _ k] exI [of _ c]) simp
    next
      case noteq: False
      then have "k < n" using assms(1) by (metis not_le_imp_less w_def)
      then obtain j x where "x = others env j v" "add_unless_loop env a u (Suc k) w w = Some (x, if x = u then x else x + a)"
        using less.hyps [OF _ w] by (metis diff_less_mono2 lessI)
      moreover have "add_unless_loop env a u k c c = add_unless_loop env a u (Suc k) w w"
        using False noteq by (subst add_unless_loop.simps) (simp add: w_def effect_def Let_def)
      ultimately show ?thesis by (intro exI [of _ j] exI [of _ x]) simp
    qed
  qed
qed

lemma add_unless_from_step:
  assumes "settled env"
  shows "\<exists>j w. w = others env j v \<and> add_unless_from env a u v = Some (w, if w = u then w else w + a)"
proof -
  obtain n where "\<forall>j \<ge> n. \<forall>w. env j w = w" using assms by (auto simp: settled_def)
  from add_unless_loop_step [OF this, of "env 0 v" 1 v a u] show ?thesis by (simp add: add_unless_from_def Let_def)
qed

section \<open>Properties\<close>

text \<open>
  C17. The atomic operations are atomic: in every interleaving of the exclusive load and store loops of
  any number of processors, the counter is the result of applying the completed operations one
  after the other in the order of their effects, no update is lost, and a processor that leaves
  its loop returns the result its operation has at its place in that order.
\<close>

theorem atomic_linearizable:
  assumes "atom_reach v s"
  shows "counter s = replay v (history s) \<and> legal v (history s) \<and>
    (apc (acpus s i) = A_done \<longrightarrow> last_op i (history s) = Some (aop (acpus s i), areg (acpus s i)))"
proof -
  have "atom_inv v s" using assms by (rule atom_reach_inv)
  then have "counter s = replay v (history s)" "legal v (history s)" "atom_at s i (acpus s i) (apc (acpus s i))"
    by (simp_all add: atom_inv_def)
  then show ?thesis by auto
qed

text \<open>
  \<open>__atomic_add_unless\<close> and \<open>atomic64_add_unless\<close> return as soon as the other processors leave the
  counter alone for one round, and whatever the others do before, they act in one indivisible step:
  at some moment the counter is \<open>w\<close>; unless \<open>w\<close> is the value excluded, it becomes \<open>w + a\<close> then; and the result tells \<open>w\<close>.
\<close>

theorem add_unless_atomic:
  assumes "settled env" "settled env'"
  shows "(\<exists>j w. w = others env j v \<and> atomic_add_unless env v a u = Some (w, if w = u then w else w + a)) \<and>
    (\<exists>j w. w = others env' j v' \<and> atomic64_add_unless env' v' a' u' = Some (w \<noteq> u', if w = u' then w else w + a'))"
  using add_unless_from_step [OF assms(1), of v a u] add_unless_from_step [OF assms(2), of v' a' u']
  by (auto simp: atomic_add_unless_def atomic64_add_unless_def)

text \<open>Another processor adds 10 before the first exchange, which fails; the second one succeeds.\<close>

definition adds_once :: "nat \<Rightarrow> 'a::len word \<Rightarrow> 'a word" where
  "adds_once k v = (if k = 1 then v + 10 else v)"

theorem add_unless_atomic_witness:
  "(\<exists>j w. w = others adds_once j 5 \<and> atomic_add_unless adds_once 5 1 0 = Some (w, if w = 0 then w else w + 1)) \<and>
   atomic_add_unless adds_once 5 1 0 = Some (15, 16)"
proof -
  have s: "settled (adds_once :: nat \<Rightarrow> u32 \<Rightarrow> u32)" "settled (adds_once :: nat \<Rightarrow> u64 \<Rightarrow> u64)"
    by (auto simp: settled_def adds_once_def intro: exI [of _ 2])
  have "atomic_add_unless adds_once 5 1 0 = Some (15, 16)"
    by (simp add: atomic_add_unless_def add_unless_from_def adds_once_def add_unless_loop.simps effect_def)
  then show ?thesis using add_unless_atomic [OF s, of 5 1 0] by blast
qed

text \<open>Two processors add to the same counter; the first one loses its reservation and tries again.\<close>

definition demo_atom :: "u32 atom" where
  "demo_atom = foldl (\<lambda>s i. atom_exec True (atomic_add (of_nat (Suc i))) i s) (atom_init 5)
     [0, 0, 0, 1, 1, 1, 1, 1, 0, 0, 0, 0, 0, 0]"

theorem atomic_linearizable_witness:
  "atom_reach 5 demo_atom \<and> counter demo_atom = 8 \<and> history demo_atom = [(1, Op_add 2, 7), (0, Op_add 1, 8)]"
proof -
  have "atom_reach 5 (foldl (\<lambda>s i. atom_exec True (atomic_add (of_nat (Suc i))) i s) (atom_init 5) is)" for "is"
    by (induction "is" rule: rev_induct) (auto intro: atom_reach.intros)
  then have r: "atom_reach 5 demo_atom" unfolding demo_atom_def .
  have "history demo_atom = [(1, Op_add 2, 7), (0, Op_add 1, 8)]" by code_simp
  then show ?thesis using r atomic_linearizable [OF r] by (simp add: effect_def)
qed

end
