(* ===== verification/Icc.thy ===== *)
theory Icc
  imports Mmio
begin

text \<open>
  The accessors of the CPU interface of the interrupt controller, \<^verbatim>\<open>src/platform/aarch64/include/driver/gic/icc.h\<close>:
  one function per register and direction. The program reaches these registers without them so
  far; the theory is here for the code that will.
\<close>

section \<open>The accessors\<close>

definition icc_read_sre_el2 :: "hardware \<Rightarrow> trace \<Rightarrow> u64 \<times> trace" where "icc_read_sre_el2 hw tr = read_sysreg hw tr ''ICC_SRE_EL2''"
definition icc_read_ctlr_el1 :: "hardware \<Rightarrow> trace \<Rightarrow> u64 \<times> trace" where "icc_read_ctlr_el1 hw tr = read_sysreg hw tr ''ICC_CTLR_EL1''"
definition icc_read_pmr_el1 :: "hardware \<Rightarrow> trace \<Rightarrow> u64 \<times> trace" where "icc_read_pmr_el1 hw tr = read_sysreg hw tr ''ICC_PMR_EL1''"
definition icc_read_bpr0_el1 :: "hardware \<Rightarrow> trace \<Rightarrow> u64 \<times> trace" where "icc_read_bpr0_el1 hw tr = read_sysreg hw tr ''ICC_BPR0_EL1''"
definition icc_read_bpr1_el1 :: "hardware \<Rightarrow> trace \<Rightarrow> u64 \<times> trace" where "icc_read_bpr1_el1 hw tr = read_sysreg hw tr ''ICC_BPR1_EL1''"
definition icc_read_igrpen0_el1 :: "hardware \<Rightarrow> trace \<Rightarrow> u64 \<times> trace" where "icc_read_igrpen0_el1 hw tr = read_sysreg hw tr ''ICC_IGRPEN0_EL1''"
definition icc_read_igrpen1_el1 :: "hardware \<Rightarrow> trace \<Rightarrow> u64 \<times> trace" where "icc_read_igrpen1_el1 hw tr = read_sysreg hw tr ''ICC_IGRPEN1_EL1''"
definition icc_read_iar0_el1 :: "hardware \<Rightarrow> trace \<Rightarrow> u64 \<times> trace" where "icc_read_iar0_el1 hw tr = read_sysreg hw tr ''ICC_IAR0_EL1''"
definition icc_read_iar1_el1 :: "hardware \<Rightarrow> trace \<Rightarrow> u64 \<times> trace" where "icc_read_iar1_el1 hw tr = read_sysreg hw tr ''ICC_IAR1_EL1''"
definition icc_read_rpr_el1 :: "hardware \<Rightarrow> trace \<Rightarrow> u64 \<times> trace" where "icc_read_rpr_el1 hw tr = read_sysreg hw tr ''ICC_RPR_EL1''"
definition icc_read_hppir0_el1 :: "hardware \<Rightarrow> trace \<Rightarrow> u64 \<times> trace" where "icc_read_hppir0_el1 hw tr = read_sysreg hw tr ''ICC_HPPIR0_EL1''"
definition icc_read_hppir1_el1 :: "hardware \<Rightarrow> trace \<Rightarrow> u64 \<times> trace" where "icc_read_hppir1_el1 hw tr = read_sysreg hw tr ''ICC_HPPIR1_EL1''"
definition icc_read_ap0r0_el1 :: "hardware \<Rightarrow> trace \<Rightarrow> u64 \<times> trace" where "icc_read_ap0r0_el1 hw tr = read_sysreg hw tr ''ICC_AP0R0_EL1''"
definition icc_read_ap0r1_el1 :: "hardware \<Rightarrow> trace \<Rightarrow> u64 \<times> trace" where "icc_read_ap0r1_el1 hw tr = read_sysreg hw tr ''ICC_AP0R1_EL1''"
definition icc_read_ap0r2_el1 :: "hardware \<Rightarrow> trace \<Rightarrow> u64 \<times> trace" where "icc_read_ap0r2_el1 hw tr = read_sysreg hw tr ''ICC_AP0R2_EL1''"
definition icc_read_ap0r3_el1 :: "hardware \<Rightarrow> trace \<Rightarrow> u64 \<times> trace" where "icc_read_ap0r3_el1 hw tr = read_sysreg hw tr ''ICC_AP0R3_EL1''"
definition icc_read_ap1r0_el1 :: "hardware \<Rightarrow> trace \<Rightarrow> u64 \<times> trace" where "icc_read_ap1r0_el1 hw tr = read_sysreg hw tr ''ICC_AP1R0_EL1''"
definition icc_read_ap1r1_el1 :: "hardware \<Rightarrow> trace \<Rightarrow> u64 \<times> trace" where "icc_read_ap1r1_el1 hw tr = read_sysreg hw tr ''ICC_AP1R1_EL1''"
definition icc_read_ap1r2_el1 :: "hardware \<Rightarrow> trace \<Rightarrow> u64 \<times> trace" where "icc_read_ap1r2_el1 hw tr = read_sysreg hw tr ''ICC_AP1R2_EL1''"
definition icc_read_ap1r3_el1 :: "hardware \<Rightarrow> trace \<Rightarrow> u64 \<times> trace" where "icc_read_ap1r3_el1 hw tr = read_sysreg hw tr ''ICC_AP1R3_EL1''"

definition icc_write_sre_el2 :: "trace \<Rightarrow> u64 \<Rightarrow> trace" where "icc_write_sre_el2 tr val = write_sysreg tr ''ICC_SRE_EL2'' val"
definition icc_write_ctlr_el1 :: "trace \<Rightarrow> u64 \<Rightarrow> trace" where "icc_write_ctlr_el1 tr val = write_sysreg tr ''ICC_CTLR_EL1'' val"
definition icc_write_pmr_el1 :: "trace \<Rightarrow> u64 \<Rightarrow> trace" where "icc_write_pmr_el1 tr val = write_sysreg tr ''ICC_PMR_EL1'' val"
definition icc_write_bpr0_el1 :: "trace \<Rightarrow> u64 \<Rightarrow> trace" where "icc_write_bpr0_el1 tr val = write_sysreg tr ''ICC_BPR0_EL1'' val"
definition icc_write_bpr1_el1 :: "trace \<Rightarrow> u64 \<Rightarrow> trace" where "icc_write_bpr1_el1 tr val = write_sysreg tr ''ICC_BPR1_EL1'' val"
definition icc_write_igrpen0_el1 :: "trace \<Rightarrow> u64 \<Rightarrow> trace" where "icc_write_igrpen0_el1 tr val = write_sysreg tr ''ICC_IGRPEN0_EL1'' val"
definition icc_write_igrpen1_el1 :: "trace \<Rightarrow> u64 \<Rightarrow> trace" where "icc_write_igrpen1_el1 tr val = write_sysreg tr ''ICC_IGRPEN1_EL1'' val"
definition icc_write_eoir0_el1 :: "trace \<Rightarrow> u64 \<Rightarrow> trace" where "icc_write_eoir0_el1 tr val = write_sysreg tr ''ICC_EOIR0_EL1'' val"
definition icc_write_eoir1_el1 :: "trace \<Rightarrow> u64 \<Rightarrow> trace" where "icc_write_eoir1_el1 tr val = write_sysreg tr ''ICC_EOIR1_EL1'' val"
definition icc_write_dir_el1 :: "trace \<Rightarrow> u64 \<Rightarrow> trace" where "icc_write_dir_el1 tr val = write_sysreg tr ''ICC_DIR_EL1'' val"
definition icc_write_sgi0r_el1 :: "trace \<Rightarrow> u64 \<Rightarrow> trace" where "icc_write_sgi0r_el1 tr val = write_sysreg tr ''ICC_SGI0R_EL1'' val"
definition icc_write_sgi1r_el1 :: "trace \<Rightarrow> u64 \<Rightarrow> trace" where "icc_write_sgi1r_el1 tr val = write_sysreg tr ''ICC_SGI1R_EL1'' val"
definition icc_write_asgi1r_el1 :: "trace \<Rightarrow> u64 \<Rightarrow> trace" where "icc_write_asgi1r_el1 tr val = write_sysreg tr ''ICC_ASGI1R_EL1'' val"

text \<open>The registers that have both accessors.\<close>

definition icc_rw :: "((hardware \<Rightarrow> trace \<Rightarrow> u64 \<times> trace) \<times> (trace \<Rightarrow> u64 \<Rightarrow> trace)) list" where
  "icc_rw = [(icc_read_sre_el2, icc_write_sre_el2),
     (icc_read_ctlr_el1, icc_write_ctlr_el1),
     (icc_read_pmr_el1, icc_write_pmr_el1),
     (icc_read_bpr0_el1, icc_write_bpr0_el1),
     (icc_read_bpr1_el1, icc_write_bpr1_el1),
     (icc_read_igrpen0_el1, icc_write_igrpen0_el1),
     (icc_read_igrpen1_el1, icc_write_igrpen1_el1)]"

lemmas icc_defs = icc_read_sre_el2_def icc_write_sre_el2_def icc_read_ctlr_el1_def icc_write_ctlr_el1_def icc_read_pmr_el1_def icc_write_pmr_el1_def icc_read_bpr0_el1_def icc_write_bpr0_el1_def icc_read_bpr1_el1_def icc_write_bpr1_el1_def icc_read_igrpen0_el1_def icc_write_igrpen0_el1_def icc_read_igrpen1_el1_def icc_write_igrpen1_el1_def

section \<open>Reading back\<close>

text \<open>The last value written to a system register, and registers that keep it.\<close>

fun last_msr :: "string \<Rightarrow> trace \<Rightarrow> u64 option" where
  "last_msr r [] = None"
| "last_msr r (e # tr) = (case last_msr r tr of Some v \<Rightarrow> Some v
     | None \<Rightarrow> (case e of Msr q v \<Rightarrow> if q = r then Some v else None | _ \<Rightarrow> None))"

definition keeps :: "hardware \<Rightarrow> bool" where
  "keeps hw \<longleftrightarrow> (\<forall>tr r. sysreg_rd hw tr r = (case last_msr r tr of Some v \<Rightarrow> v | None \<Rightarrow> sysreg_rd hw [] r))"

lemma last_msr_snoc: "last_msr r (tr @ [Msr q v]) = (if q = r then Some v else last_msr r tr)"
  by (induction tr) (auto split: option.splits event.splits)

lemma read_after_write:
  assumes "keeps hw"
  shows "fst (read_sysreg hw (write_sysreg tr q v) r) = (if q = r then v else fst (read_sysreg hw tr r))"
proof -
  have "sysreg_rd hw t r = (case last_msr r t of Some v \<Rightarrow> v | None \<Rightarrow> sysreg_rd hw [] r)" for t
    using assms unfolding keeps_def by blast
  from this [of "tr @ [Msr q v]"] this [of tr] show ?thesis
    by (simp add: read_sysreg_def write_sysreg_def last_msr_snoc)
qed

text \<open>
  Each pair of accessors of the CPU interface is for one register and each pair for another one: where a register
  keeps what is written to it, the reader returns what its writer wrote, and what every other
  reader returns is unchanged.
\<close>

theorem icc_write_read:
  assumes "keeps hw" "i < length icc_rw" "j < length icc_rw"
  shows "fst (fst (icc_rw ! j) hw (snd (icc_rw ! i) tr v)) = (if i = j then v else fst (fst (icc_rw ! j) hw tr))"
proof -
  have "i \<in> {0, 1, 2, 3, 4, 5, 6}" "j \<in> {0, 1, 2, 3, 4, 5, 6}" using assms(2,3) by (auto simp: icc_rw_def)
  then show ?thesis
    by (elim insertE emptyE; simp add: icc_rw_def icc_defs read_after_write [OF assms(1)])
qed

definition register_file :: hardware where
  "register_file = \<lparr>mmio_rd = (\<lambda>_ _. 0), mmio_rd64 = (\<lambda>_ _. 0),
     sysreg_rd = (\<lambda>tr r. case last_msr r tr of Some v \<Rightarrow> v | None \<Rightarrow> 0), NR_CPU = 1, HZ = 250\<rparr>"

theorem icc_write_read_witness:
  "fst (icc_read_pmr_el1 register_file (icc_write_pmr_el1 [] 0xF0)) = 0xF0"
proof -
  have "keeps register_file" by (auto simp: keeps_def register_file_def split: option.split)
  from icc_write_read [OF this, of 2 2 "[]" "0xF0"] show ?thesis by (simp add: icc_rw_def)
qed

end
