(* ===== verification/Vcpu.thy ===== *)
theory Vcpu
  imports CList CString Mmio
begin

text \<open>
  The virtual processors of \<^verbatim>\<open>src/platform/aarch64/vcpu/vcpu.c\<close> (structures in \<^verbatim>\<open>src/include/sched/vcpu.h\<close>): each is a
  structure in memory with a state and a node for one of the two queues of its physical processor.
  The state is the memory and the trace of accesses to system registers. The theory has the code;
  \<^verbatim>\<open>Vcpu_Sched\<close> has the scheduler it implements.
\<close>

record machine =
  vmem :: mem
  vtrace :: trace

section \<open>The structures\<close>

text \<open>
  \<open>struct vcpu\<close>: \<open>id\<close> at 0, \<open>state\<close> at 4, \<open>irq_list\<close> at 8, \<open>preempt_list\<close> at 24, \<open>lrs\<close> (sixteen times eight bytes,
  the bit fields of \<open>struct gic_lrs\<close> do not fit one word) at 40, \<open>gpregs\<close> (34 registers) at 168,
  \<open>sysregs_el1\<close> (11 registers) at 440, \<open>node\<close> at 528, \<open>pcpu\<close> at 544, 552 bytes in all.
  \<open>struct pcpu\<close>: \<open>id\<close> at 0, \<open>ready_vcpus\<close> at 8, \<open>suspend_vcpus\<close> at 24, \<open>current_vcpu\<close> at 40, 48 bytes.
\<close>

datatype vcpu_state =
    VCPU_STATE_OFFLINE | VCPU_STATE_RUNNING | VCPU_STATE_SUSPENDED | VCPU_STATE_READY | VCPU_STATE_HALTED

fun state_code :: "vcpu_state \<Rightarrow> u32" where
  "state_code VCPU_STATE_OFFLINE = 0"
| "state_code VCPU_STATE_RUNNING = 1"
| "state_code VCPU_STATE_SUSPENDED = 2"
| "state_code VCPU_STATE_READY = 3"
| "state_code VCPU_STATE_HALTED = 4"

definition vcpu_state_at :: "mem \<Rightarrow> addr \<Rightarrow> u32" where "vcpu_state_at m v = load32 m (v + 4)"
definition set_vcpu_state :: "mem \<Rightarrow> addr \<Rightarrow> vcpu_state \<Rightarrow> mem" where "set_vcpu_state m v x = store32 m (v + 4) (state_code x)"
definition vcpu_pcpu :: "mem \<Rightarrow> addr \<Rightarrow> addr" where "vcpu_pcpu m v = load64 m (v + 544)"
definition current_vcpu :: "mem \<Rightarrow> addr \<Rightarrow> addr" where "current_vcpu m p = load64 m (p + 40)"

abbreviation vcpu_node :: "addr \<Rightarrow> addr" where "vcpu_node v \<equiv> v + 528"
abbreviation ready_vcpus :: "addr \<Rightarrow> addr" where "ready_vcpus p \<equiv> p + 8"
abbreviation suspend_vcpus :: "addr \<Rightarrow> addr" where "suspend_vcpus p \<equiv> p + 24"

definition sizeof_vcpu :: u64 where "sizeof_vcpu = 552"
definition sizeof_gpregs :: u64 where "sizeof_gpregs = 272"

definition sysregs_el1 :: "string list" where
  "sysregs_el1 = [''elr_el1'', ''spsr_el1'', ''mpidr_el1'', ''midr_el1'', ''sp_el1'', ''sp_el0'', ''ttbr0_el1'',
     ''ttbr1_el1'', ''tcr_el1'', ''vbar_el1'', ''sctlr_el1'']"

section \<open>The operations\<close>

definition vcpu_init :: "addr \<Rightarrow> addr \<Rightarrow> u32 \<Rightarrow> mem \<Rightarrow> mem" where
  "vcpu_init pcpu vcpu i m =
     (let m = fst (memset m vcpu 0 sizeof_vcpu);
          m = store32 m vcpu i;
          m = set_vcpu_state m vcpu VCPU_STATE_OFFLINE;
          m = store64 m (vcpu + 544) pcpu;
          m = list_init m (vcpu + 8);
          m = list_init m (vcpu + 24)
      in list_init m (vcpu_node vcpu))"

text \<open>The eleven assignments from and to the system registers, the first at address \<open>a\<close>.\<close>

fun save_sysregs :: "hardware \<Rightarrow> addr \<Rightarrow> string list \<Rightarrow> machine \<Rightarrow> machine" where
  "save_sysregs hw a [] s = s"
| "save_sysregs hw a (r # rs) s =
     (let (x, tr) = read_sysreg hw (vtrace s) r
      in save_sysregs hw (a + 8) rs (s\<lparr>vtrace := tr, vmem := store64 (vmem s) a x\<rparr>))"

fun restore_sysregs :: "addr \<Rightarrow> string list \<Rightarrow> machine \<Rightarrow> machine" where
  "restore_sysregs a [] s = s"
| "restore_sysregs a (r # rs) s =
     restore_sysregs (a + 8) rs (s\<lparr>vtrace := write_sysreg (vtrace s) r (load64 (vmem s) a)\<rparr>)"

definition vcpu_save_context :: "hardware \<Rightarrow> addr \<Rightarrow> addr \<Rightarrow> machine \<Rightarrow> machine" where
  "vcpu_save_context hw vcpu gpregs s =
     (let s = s\<lparr>vmem := fst (memcpy (vmem s) (vcpu + 168) gpregs sizeof_gpregs)\<rparr>;
          s = save_sysregs hw (vcpu + 440) sysregs_el1 s
      in s\<lparr>vmem := set_vcpu_state (vmem s) vcpu VCPU_STATE_READY\<rparr>)"

definition vcpu_restore_context :: "addr \<Rightarrow> addr \<Rightarrow> machine \<Rightarrow> machine" where
  "vcpu_restore_context vcpu gpregs s =
     (let s = s\<lparr>vmem := set_vcpu_state (vmem s) vcpu VCPU_STATE_RUNNING\<rparr>;
          s = restore_sysregs (vcpu + 440) sysregs_el1 s
      in s\<lparr>vmem := fst (memcpy (vmem s) gpregs (vcpu + 168) sizeof_gpregs)\<rparr>)"

definition vcpu_start :: "addr \<Rightarrow> mem \<Rightarrow> mem" where
  "vcpu_start vcpu m =
     (if vcpu_state_at m vcpu \<noteq> state_code VCPU_STATE_OFFLINE then m
      else let m = set_vcpu_state m vcpu VCPU_STATE_READY
           in list_add_tail m (vcpu_node vcpu) (ready_vcpus (vcpu_pcpu m vcpu)))"

definition vcpu_suspend :: "addr \<Rightarrow> mem \<Rightarrow> mem" where
  "vcpu_suspend vcpu m =
     (if vcpu_state_at m vcpu \<noteq> state_code VCPU_STATE_RUNNING then m
      else let m = set_vcpu_state m vcpu VCPU_STATE_SUSPENDED;
               m = list_del m (vcpu_node vcpu)
           in list_add_tail m (vcpu_node vcpu) (suspend_vcpus (vcpu_pcpu m vcpu)))"

definition vcpu_resume :: "addr \<Rightarrow> mem \<Rightarrow> mem" where
  "vcpu_resume vcpu m =
     (if vcpu_state_at m vcpu \<noteq> state_code VCPU_STATE_SUSPENDED then m
      else let m = set_vcpu_state m vcpu VCPU_STATE_READY;
               m = list_del m (vcpu_node vcpu)
           in list_add_tail m (vcpu_node vcpu) (ready_vcpus (vcpu_pcpu m vcpu)))"

definition vcpu_halt :: "addr \<Rightarrow> mem \<Rightarrow> mem" where
  "vcpu_halt vcpu m =
     (if vcpu_state_at m vcpu \<noteq> state_code VCPU_STATE_RUNNING then m
      else list_del (set_vcpu_state m vcpu VCPU_STATE_HALTED) (vcpu_node vcpu))"

text \<open>The two halves of \<open>pcpu_switch\<close>: putting the current processor away, and taking the next one.\<close>

definition switch_out :: "hardware \<Rightarrow> addr \<Rightarrow> addr \<Rightarrow> machine \<Rightarrow> machine" where
  "switch_out hw pcpu gpregs s =
     (let current = current_vcpu (vmem s) pcpu
      in if current \<noteq> NULL
         then let s = vcpu_save_context hw current gpregs s
              in if vcpu_state_at (vmem s) current = state_code VCPU_STATE_RUNNING
                 then let m = set_vcpu_state (vmem s) current VCPU_STATE_READY
                      in s\<lparr>vmem := list_add_tail m (vcpu_node current) (ready_vcpus pcpu)\<rparr>
                 else s
         else s)"

definition switch_in :: "addr \<Rightarrow> addr \<Rightarrow> machine \<Rightarrow> machine" where
  "switch_in pcpu gpregs s =
     (if list_next (vmem s) (ready_vcpus pcpu) = NULL
      then s\<lparr>vmem := store64 (vmem s) (pcpu + 40) NULL\<rparr>
      else
        let nxt = list_entry (list_next (vmem s) (ready_vcpus pcpu)) 528;
            m = list_del (vmem s) (vcpu_node nxt);
            m = set_vcpu_state m nxt VCPU_STATE_RUNNING;
            m = store64 m (pcpu + 40) nxt
        in vcpu_restore_context nxt gpregs (s\<lparr>vmem := m\<rparr>))"

definition pcpu_switch :: "hardware \<Rightarrow> addr \<Rightarrow> addr \<Rightarrow> machine \<Rightarrow> machine" where
  "pcpu_switch hw pcpu gpregs s = switch_in pcpu gpregs (switch_out hw pcpu gpregs s)"

section \<open>Fields\<close>

lemma state_code_inj: "state_code x = state_code y \<longleftrightarrow> x = y"
  by (cases x; cases y) simp_all

lemma vcpu_fields:
  "span (v + 4) 4 \<subseteq> span v 552" "span (v + 168) 272 \<subseteq> span v 552" "span (v + 440) 88 \<subseteq> span v 552"
  "span (v + 528) 16 \<subseteq> span v 552" "span (v + 544) 8 \<subseteq> span v 552" "span (v + 168) 360 \<subseteq> span v 552"
  "span (v + 168) 272 \<subseteq> span (v + 168) 360" "span (v + 440) 88 \<subseteq> span (v + 168) 360"
  "span (v + 4) 4 \<inter> span (v + 168) 360 = {}" "span (v + 528) 16 \<inter> span (v + 168) 360 = {}"
  "span (v + 544) 8 \<inter> span (v + 168) 360 = {}" "span (v + 4) 4 \<inter> span (v + 528) 16 = {}"
  "span (v + 4) 4 \<inter> span (v + 544) 8 = {}" "span (v + 528) 16 \<inter> span (v + 544) 8 = {}"
  "span (v + 168) 272 \<inter> span (v + 440) 88 = {}"
  by (auto simp: span_simps span_iff [of _ v])

lemma pcpu_fields:
  "span (p + 8) 16 \<subseteq> span p 48" "span (p + 24) 16 \<subseteq> span p 48" "span (p + 40) 8 \<subseteq> span p 48"
  "span (p + 8) 16 \<inter> span (p + 24) 16 = {}" "span (p + 8) 16 \<inter> span (p + 40) 8 = {}" "span (p + 24) 16 \<inter> span (p + 40) 8 = {}"
  by (auto simp: span_simps span_iff [of _ p])

section \<open>Saving and restoring the context\<close>

fun reads_of :: "hardware \<Rightarrow> trace \<Rightarrow> string list \<Rightarrow> u64 list" where
  "reads_of hw tr [] = []"
| "reads_of hw tr (r # rs) = (let x = sysreg_rd hw tr r in x # reads_of hw (tr @ [Mrs r x]) rs)"

text \<open>\<open>xs\<close> is in memory as consecutive 64-bit words from \<open>a\<close>.\<close>

fun words_at :: "mem \<Rightarrow> addr \<Rightarrow> u64 list \<Rightarrow> bool" where
  "words_at m a [] \<longleftrightarrow> True"
| "words_at m a (x # xs) \<longleftrightarrow> load64 m a = x \<and> words_at m (a + 8) xs"

lemma word_span: "8 * Suc k \<le> 18446744073709551616 \<Longrightarrow>
  span a 8 \<subseteq> span a (8 * Suc k) \<and> span (a + 8) (8 * k) \<subseteq> span a (8 * Suc k) \<and> span a 8 \<inter> span (a + 8) (8 * k) = {}"
  using span_fields_disjoint [of 0 8 8 "8 * k" a] span_offset [of 8 "8 * k" "8 * Suc k" a] span_offset [of 0 8 "8 * Suc k" a] by auto

lemma words_at_frame:
  "words_at m a xs \<Longrightarrow> agree (span a (8 * length xs)) m' m \<Longrightarrow> 8 * length xs \<le> 18446744073709551616 \<Longrightarrow> words_at m' a xs"
proof (induction xs arbitrary: a)
  case (Cons x xs)
  note w = word_span [of "length xs" a]
  have "load64 m' a = load64 m a" using Cons.prems(2,3) w by (intro c64.rd_frame) auto
  then show ?case using Cons w by (auto intro: agree_mono)
qed simp

lemma save_sysregs_ok:
  assumes "8 * length rs \<le> 18446744073709551616"
  shows "vtrace (save_sysregs hw a rs s) = vtrace s @ map2 Mrs rs (reads_of hw (vtrace s) rs) \<and>
    words_at (vmem (save_sysregs hw a rs s)) a (reads_of hw (vtrace s) rs) \<and>
    agree (- span a (8 * length rs)) (vmem (save_sysregs hw a rs s)) (vmem s)"
  using assms
proof (induction rs arbitrary: a s)
  case (Cons r rs)
  let ?x = "sysreg_rd hw (vtrace s) r" let ?s = "s\<lparr>vtrace := vtrace s @ [Mrs r ?x], vmem := store64 (vmem s) a ?x\<rparr>"
  let ?f = "vmem (save_sysregs hw (a + 8) rs ?s)"
  note w = word_span [of "length rs" a]
  have ih: "words_at ?f (a + 8) (reads_of hw (vtrace ?s) rs)" "agree (- span (a + 8) (8 * length rs)) ?f (vmem ?s)"
    "vtrace (save_sysregs hw (a + 8) rs ?s) = vtrace ?s @ map2 Mrs rs (reads_of hw (vtrace ?s) rs)"
    using Cons.IH [of "a + 8" ?s] Cons.prems by auto
  have "load64 ?f a = load64 (vmem ?s) a" using w Cons.prems by (intro c64.rd_frame [OF ih(2)]) auto
  then have "load64 ?f a = ?x" by (simp add: c64.rd_wr_same)
  moreover have "agree (- span a (8 * length (r # rs))) ?f (vmem s)"
    using w Cons.prems by (intro agree_trans [OF agree_mono [OF ih(2)]]) (auto intro: c64.wr_agree)
  ultimately show ?case using ih(1,3) by (simp add: read_sysreg_def Let_def)
qed simp

lemma restore_sysregs_ok:
  "words_at (vmem s) a xs \<Longrightarrow> length xs = length rs \<Longrightarrow>
    restore_sysregs a rs s = s\<lparr>vtrace := vtrace s @ map2 Msr rs xs\<rparr>"
  by (induction rs arbitrary: a xs s) (simp, case_tac xs, auto simp: write_sysreg_def)

lemma restore_sysregs_mem [simp]: "vmem (restore_sysregs a rs s) = vmem s"
  by (induction rs arbitrary: a s) simp_all

lemma length_reads_of [simp]: "length (reads_of hw tr rs) = length rs"
  by (induction rs arbitrary: tr) (simp_all add: Let_def)

lemma sysregs_count [simp]: "length sysregs_el1 = 11" by (simp add: sysregs_el1_def)

lemma gpregs_size [simp]: "unat sizeof_gpregs = 272" by (simp add: sizeof_gpregs_def)

lemma gpregs_copy:
  assumes "span d 272 \<inter> span a 272 = {}"
  shows "i < 272 \<Longrightarrow> fst (memcpy m d a sizeof_gpregs) (d + of_nat i) = m (a + of_nat i)"
    "agree (- span d 272) (fst (memcpy m d a sizeof_gpregs)) m"
  using memcpy_blit [of d sizeof_gpregs a m] assms by (simp_all add: blit_at blit_agree)

lemma save_context_ok:
  assumes "span (v + 168) 272 \<inter> span g 272 = {}" and xs_def: "xs = reads_of hw (vtrace s) sysregs_el1"
    and s'_def: "s' = vcpu_save_context hw v g s"
  shows "vtrace s' = vtrace s @ map2 Mrs sysregs_el1 xs" "words_at (vmem s') (v + 440) xs"
    "i < 272 \<Longrightarrow> vmem s' (v + 168 + of_nat i) = vmem s (g + of_nat i)" "vcpu_state_at (vmem s') v = state_code VCPU_STATE_READY"
    "agree (- (span (v + 168) 360 \<union> span (v + 4) 4)) (vmem s') (vmem s)"
proof -
  let ?m1 = "fst (memcpy (vmem s) (v + 168) g sizeof_gpregs)" let ?s2 = "save_sysregs hw (v + 440) sysregs_el1 (s\<lparr>vmem := ?m1\<rparr>)"
  note f = vcpu_fields [of v] and cp = gpregs_copy [OF assms(1)]
  have sv: "vtrace ?s2 = vtrace s @ map2 Mrs sysregs_el1 xs" "words_at (vmem ?s2) (v + 440) xs" "agree (- span (v + 440) 88) (vmem ?s2) ?m1"
    using save_sysregs_ok [of sysregs_el1 hw "v + 440" "s\<lparr>vmem := ?m1\<rparr>"] by (simp_all add: xs_def)
  have s': "s' = ?s2\<lparr>vmem := set_vcpu_state (vmem ?s2) v VCPU_STATE_READY\<rparr>" by (simp add: s'_def vcpu_save_context_def Let_def)
  have st: "agree (- span (v + 4) 4) (vmem s') (vmem ?s2)" unfolding s' by (simp add: set_vcpu_state_def c32.wr_agree)
  show "vtrace s' = vtrace s @ map2 Mrs sysregs_el1 xs" by (simp add: s' sv(1))
  show "words_at (vmem s') (v + 440) xs"
    by (rule words_at_frame [OF sv(2) agree_mono [OF st]]) (use f in \<open>auto simp: xs_def\<close>)
  show "vcpu_state_at (vmem s') v = state_code VCPU_STATE_READY" by (simp add: s' vcpu_state_at_def set_vcpu_state_def c32.rd_wr_same)
  have ag: "agree (span (v + 168) 272) (vmem s') ?m1"
    by (rule agree_trans [OF agree_mono [OF st] agree_mono [OF sv(3)]]) (use f in auto)
  show "vmem s' (v + 168 + of_nat i) = vmem s (g + of_nat i)" if "i < 272"
  proof -
    have "v + 168 + of_nat i \<in> span (v + 168) 272" using that by (simp add: span_iff unat_of_nat64)
    then show ?thesis using ag cp(1) [OF that] by (simp add: agree_def)
  qed
  show "agree (- (span (v + 168) 360 \<union> span (v + 4) 4)) (vmem s') (vmem s)"
    by (intro agree_trans [OF agree_mono [OF st] agree_trans [OF agree_mono [OF sv(3)] agree_mono [OF cp(2)]]]) (use f in auto)
qed

lemma restore_context_ok:
  assumes "span g 272 \<inter> span v 552 = {}" and s'_def: "s' = vcpu_restore_context v g s"
  shows "words_at (vmem s) (v + 440) xs \<Longrightarrow> length xs = 11 \<Longrightarrow> vtrace s' = vtrace s @ map2 Msr sysregs_el1 xs"
    "i < 272 \<Longrightarrow> vmem s' (g + of_nat i) = vmem s (v + 168 + of_nat i)" "vcpu_state_at (vmem s') v = state_code VCPU_STATE_RUNNING"
    "agree (- (span g 272 \<union> span (v + 4) 4)) (vmem s') (vmem s)"
proof -
  let ?m1 = "set_vcpu_state (vmem s) v VCPU_STATE_RUNNING"
  note f = vcpu_fields [of v]
  have ov: "span g 272 \<inter> span (v + 168) 272 = {}" using assms(1) f(2) by blast
  have m: "vmem s' = fst (memcpy ?m1 g (v + 168) sizeof_gpregs)" by (simp add: s'_def vcpu_restore_context_def Let_def)
  have st: "agree (- span (v + 4) 4) ?m1 (vmem s)" by (simp add: set_vcpu_state_def c32.wr_agree)
  show "vtrace s' = vtrace s @ map2 Msr sysregs_el1 xs" if "words_at (vmem s) (v + 440) xs" "length xs = 11"
  proof -
    have "words_at ?m1 (v + 440) xs" by (rule words_at_frame [OF that(1) agree_mono [OF st]]) (use f that(2) in auto)
    then show ?thesis using restore_sysregs_ok [of "s\<lparr>vmem := ?m1\<rparr>" "v + 440" xs sysregs_el1] that(2)
      by (simp add: s'_def vcpu_restore_context_def Let_def)
  qed
  show "vmem s' (g + of_nat i) = vmem s (v + 168 + of_nat i)" if "i < 272"
  proof -
    have "v + 168 + of_nat i \<in> span (v + 168) 272" using that by (simp add: span_iff unat_of_nat64)
    then have "v + 168 + of_nat i \<in> - span (v + 4) 4" using f by blast
    then show ?thesis using gpregs_copy(1) [OF ov that, of ?m1] st by (simp add: m agree_def)
  qed
  show "agree (- (span g 272 \<union> span (v + 4) 4)) (vmem s') (vmem s)"
    unfolding m by (rule agree_trans [OF agree_mono [OF gpregs_copy(2) [OF ov]] agree_mono [OF st]]) auto
  have "vcpu_state_at (vmem s') v = vcpu_state_at ?m1 v"
    unfolding m vcpu_state_at_def by (rule c32.rd_frame [OF gpregs_copy(2) [OF ov]]) (use assms(1) f(1) in auto)
  then show "vcpu_state_at (vmem s') v = state_code VCPU_STATE_RUNNING"
    by (simp add: vcpu_state_at_def set_vcpu_state_def c32.rd_wr_same)
qed

section \<open>Property\<close>

text \<open>
  C23. A context that is saved and later restored comes back: if the memory of the saved context has
  not been written since, \<open>vcpu_restore_context\<close> copies the 272 bytes of general registers that were
  saved to the place it is given and writes to each of the eleven system registers, in order, the
  value that \<open>vcpu_save_context\<close> read from it; besides the copied registers it changes only the state,
  which becomes running.
\<close>

theorem vcpu_context_roundtrip:
  assumes "span g 272 \<inter> span v 552 = {}" "span g' 272 \<inter> span v 552 = {}"
    and "s1 = vcpu_save_context hw v g s" "agree (span (v + 168) 360) (vmem s2) (vmem s1)" "s3 = vcpu_restore_context v g' s2"
  shows "\<exists>xs. length xs = length sysregs_el1 \<and> vtrace s1 = vtrace s @ map2 Mrs sysregs_el1 xs \<and>
    vtrace s3 = vtrace s2 @ map2 Msr sysregs_el1 xs \<and>
    (\<forall>i < 272. vmem s3 (g' + of_nat i) = vmem s (g + of_nat i)) \<and>
    vcpu_state_at (vmem s1) v = state_code VCPU_STATE_READY \<and> vcpu_state_at (vmem s3) v = state_code VCPU_STATE_RUNNING \<and>
    agree (- (span g' 272 \<union> span (v + 4) 4)) (vmem s3) (vmem s2)"
proof -
  let ?xs = "reads_of hw (vtrace s) sysregs_el1"
  note f = vcpu_fields [of v]
  have "span (v + 168) 272 \<inter> span g 272 = {}" using assms(1) f(2) by blast
  note sv = save_context_ok [OF this refl assms(3)] and rs = restore_context_ok [OF assms(2,5)]
  have w: "words_at (vmem s2) (v + 440) ?xs"
    by (rule words_at_frame [OF sv(2) agree_mono [OF assms(4)]]) (use f(8) in auto)
  have "vmem s3 (g' + of_nat i) = vmem s (g + of_nat i)" if "i < 272" for i
  proof -
    have "v + 168 + of_nat i \<in> span (v + 168) 360" using that by (simp add: span_iff unat_of_nat64)
    then have "vmem s2 (v + 168 + of_nat i) = vmem s1 (v + 168 + of_nat i)" using assms(4) by (simp add: agree_def)
    then show ?thesis using rs(2) [OF that] sv(3) [OF that] by simp
  qed
  then show ?thesis using sv(1,4) rs(1) [OF w] rs(3,4) by (intro exI [of _ ?xs]) simp
qed


definition vcpu_demo_hw :: hardware where
  "vcpu_demo_hw = \<lparr>mmio_rd = (\<lambda>_ _. 0), mmio_rd64 = (\<lambda>_ _. 0), sysreg_rd = (\<lambda>tr _. of_nat (length tr)), NR_CPU = 1, HZ = 250\<rparr>"

theorem vcpu_context_roundtrip_witness:
  "\<exists>s1 s3 xs. s1 = vcpu_save_context vcpu_demo_hw 0x1000 0x4000 \<lparr>vmem = (\<lambda>x. ucast x), vtrace = []\<rparr> \<and>
     s3 = vcpu_restore_context 0x1000 0x6000 s1 \<and> vtrace s3 = map2 Mrs sysregs_el1 xs @ map2 Msr sysregs_el1 xs \<and>
     (\<forall>i < 272. vmem s3 (0x6000 + of_nat i) = ucast (0x4000 + of_nat i :: addr))"
proof -
  have "span 0x4000 272 \<inter> span 0x1000 552 = {}" "span 0x6000 272 \<inter> span 0x1000 552 = {}" by (auto simp: span_nowrap)
  from vcpu_context_roundtrip [OF this refl agree_refl refl, of vcpu_demo_hw "\<lparr>vmem = (\<lambda>x. ucast x), vtrace = []\<rparr>"]
  show ?thesis by (auto simp del: zip.simps)
qed

end
