(* ===== verification/Vcpu_Sched.thy ===== *)
theory Vcpu_Sched
  imports Vcpu
begin

text \<open>
  The scheduler that \<^verbatim>\<open>vcpu.c\<close> implements. The specification is a \<open>sched\<close>: two queues of virtual
  processors, the current one and a state for each, with one step per operation; \<open>sched_rep\<close> relates it
  to the structures in memory. Every operation implements its step, under the one condition that
  \<open>pcpu_switch\<close> is not called with an empty ready queue. The steps are what the code does, so they
  also show what it does not do: a processor that is switched out is not queued again.
\<close>

section \<open>The specification\<close>

record sched =
  rq :: "addr list"
  sq :: "addr list"
  cur :: addr
  st :: "addr \<Rightarrow> vcpu_state"

datatype sched_op = Start addr | Suspend addr | Resume addr | Halt addr | Switch addr

fun sched_step :: "sched_op \<Rightarrow> sched \<Rightarrow> sched" where
  "sched_step (Start v) A =
     (if st A v = VCPU_STATE_OFFLINE then A\<lparr>rq := rq A @ [v], st := (st A)(v := VCPU_STATE_READY)\<rparr> else A)"
| "sched_step (Suspend v) A =
     (if st A v = VCPU_STATE_RUNNING then A\<lparr>sq := sq A @ [v], st := (st A)(v := VCPU_STATE_SUSPENDED)\<rparr> else A)"
| "sched_step (Resume v) A =
     (if st A v = VCPU_STATE_SUSPENDED
      then A\<lparr>rq := rq A @ [v], sq := remove1 v (sq A), st := (st A)(v := VCPU_STATE_READY)\<rparr> else A)"
| "sched_step (Halt v) A =
     (if st A v = VCPU_STATE_RUNNING then A\<lparr>st := (st A)(v := VCPU_STATE_HALTED)\<rparr> else A)"
| "sched_step (Switch g) A =
     (let st' = (if cur A \<noteq> NULL then (st A)(cur A := VCPU_STATE_READY) else st A); n = hd (rq A)
      in A\<lparr>rq := tl (rq A), cur := n, st := st'(n := VCPU_STATE_RUNNING)\<rparr>)"

text \<open>The operations of the code.\<close>

fun vcpu_exec :: "hardware \<Rightarrow> addr \<Rightarrow> sched_op \<Rightarrow> machine \<Rightarrow> machine" where
  "vcpu_exec hw p (Start v) s = s\<lparr>vmem := vcpu_start v (vmem s)\<rparr>"
| "vcpu_exec hw p (Suspend v) s = s\<lparr>vmem := vcpu_suspend v (vmem s)\<rparr>"
| "vcpu_exec hw p (Resume v) s = s\<lparr>vmem := vcpu_resume v (vmem s)\<rparr>"
| "vcpu_exec hw p (Halt v) s = s\<lparr>vmem := vcpu_halt v (vmem s)\<rparr>"
| "vcpu_exec hw p (Switch g) s = pcpu_switch hw p g s"

section \<open>The relation\<close>

text \<open>
  The structures overlap neither each other nor the sixteen bytes at address 0, which \<open>list_del\<close> of a
  node that is in no list writes.
\<close>

definition apart_from :: "addr set \<Rightarrow> addr \<Rightarrow> addr set \<Rightarrow> bool" where
  "apart_from G p V \<longleftrightarrow> G \<inter> span p 48 = {} \<and> (\<forall>v \<in> V. G \<inter> span v 552 = {})"

definition laid_out :: "addr \<Rightarrow> addr set \<Rightarrow> bool" where
  "laid_out p V \<longleftrightarrow> apart_from (span NULL 16) p V \<and>
     (\<forall>v \<in> V. span v 552 \<inter> span p 48 = {} \<and> (\<forall>w \<in> V. w \<noteq> v \<longrightarrow> span v 552 \<inter> span w 552 = {}))"

definition sched_inv :: "addr set \<Rightarrow> addr list \<Rightarrow> addr list \<Rightarrow> addr \<Rightarrow> (addr \<Rightarrow> vcpu_state) \<Rightarrow> bool" where
  "sched_inv V r q c f \<longleftrightarrow> distinct (r @ q) \<and> set (r @ q) \<subseteq> V \<and> (c = NULL \<or> c \<in> V) \<and>
     (\<forall>v \<in> set r. f v = VCPU_STATE_READY) \<and>
     (\<forall>v \<in> V. (v \<noteq> c \<longrightarrow> f v \<noteq> VCPU_STATE_RUNNING) \<and> (f v = VCPU_STATE_RUNNING \<longrightarrow> v \<notin> set (r @ q)) \<and>
       (f v = VCPU_STATE_OFFLINE \<longrightarrow> v \<noteq> c \<and> v \<notin> set (r @ q)) \<and> (f v = VCPU_STATE_SUSPENDED \<longrightarrow> v \<in> set q))"

abbreviation sched_ok :: "addr set \<Rightarrow> sched \<Rightarrow> bool" where
  "sched_ok V A \<equiv> sched_inv V (rq A) (sq A) (cur A) (st A)"

definition detached :: "mem \<Rightarrow> addr \<Rightarrow> bool" where
  "detached m v \<longleftrightarrow> list_prev m (vcpu_node v) = NULL \<and> list_next m (vcpu_node v) = NULL \<or>
     list_prev m (vcpu_node v) = vcpu_node v \<and> list_next m (vcpu_node v) = vcpu_node v"

definition sched_rep :: "mem \<Rightarrow> addr \<Rightarrow> addr set \<Rightarrow> sched \<Rightarrow> bool" where
  "sched_rep m p V A \<longleftrightarrow> laid_out p V \<and> sched_ok V A \<and> current_vcpu m p = cur A \<and>
     dlist m (ready_vcpus p) (map vcpu_node (rq A)) \<and> dlist m (suspend_vcpus p) (map vcpu_node (sq A)) \<and>
     (\<forall>v \<in> V. vcpu_state_at m v = state_code (st A v) \<and> vcpu_pcpu m v = p \<and>
       (v \<notin> set (rq A @ sq A) \<longrightarrow> detached m v))"

text \<open>The specification alone keeps its invariant.\<close>

definition op_ok :: "addr \<Rightarrow> addr set \<Rightarrow> sched_op \<Rightarrow> sched \<Rightarrow> bool" where
  "op_ok p V op A \<longleftrightarrow> (case op of Switch g \<Rightarrow> rq A \<noteq> [] \<and> apart_from (span g 272) p V
     | Start v \<Rightarrow> v \<in> V | Suspend v \<Rightarrow> v \<in> V | Resume v \<Rightarrow> v \<in> V | Halt v \<Rightarrow> v \<in> V)"

lemma not_null: "laid_out p V \<Longrightarrow> NULL \<notin> V"
proof
  assume "laid_out p V" "NULL \<in> V"
  moreover have "NULL \<in> span NULL 16 \<inter> span NULL 552" by (simp add: span_iff)
  ultimately show False by (auto simp: laid_out_def apart_from_def)
qed

lemma sched_okD:
  assumes "sched_ok V A"
  shows "distinct (rq A @ sq A)" "set (rq A @ sq A) \<subseteq> V" "cur A = NULL \<or> cur A \<in> V" "v \<in> set (rq A) \<Longrightarrow> st A v = VCPU_STATE_READY"
    "v \<in> V \<Longrightarrow> v \<noteq> cur A \<Longrightarrow> st A v \<noteq> VCPU_STATE_RUNNING" "v \<in> V \<Longrightarrow> st A v = VCPU_STATE_RUNNING \<Longrightarrow> v \<notin> set (rq A @ sq A)"
    "v \<in> V \<Longrightarrow> st A v = VCPU_STATE_OFFLINE \<Longrightarrow> v \<noteq> cur A" "v \<in> V \<Longrightarrow> st A v = VCPU_STATE_OFFLINE \<Longrightarrow> v \<notin> set (rq A @ sq A)"
    "v \<in> V \<Longrightarrow> st A v = VCPU_STATE_SUSPENDED \<Longrightarrow> v \<in> set (sq A)"
  using assms unfolding sched_inv_def by blast+

lemma switch_ok:
  assumes ok: "sched_ok V A" and r: "rq A = n # r" and "NULL \<notin> V"
  shows "sched_ok V (sched_step (Switch g) A)"
proof -
  note D = sched_okD [OF ok, unfolded r]
  have n: "n \<in> V" "n \<notin> set (r @ sq A)" and q: "distinct (r @ sq A)" "set (r @ sq A) \<subseteq> V" using D(1,2) by simp_all
  define f where "f = (if cur A \<noteq> NULL then (st A)(cur A := VCPU_STATE_READY) else st A)"
  define g' where "g' = f(n := VCPU_STATE_RUNNING)"
  have eq: "g' v = (if v = n then VCPU_STATE_RUNNING else if v = cur A then VCPU_STATE_READY else st A v)" if "v \<in> V" for v
    using that assms(3) by (cases "cur A = NULL") (auto simp: f_def g'_def)
  have ready: "\<forall>v \<in> set r. g' v = VCPU_STATE_READY"
  proof
    fix v assume "v \<in> set r"
    then show "g' v = VCPU_STATE_READY" using n(2) q(2) D(4) [of v] eq [of v] by auto
  qed
  have rest: "\<forall>v \<in> V. (v \<noteq> n \<longrightarrow> g' v \<noteq> VCPU_STATE_RUNNING) \<and> (g' v = VCPU_STATE_RUNNING \<longrightarrow> v \<notin> set (r @ sq A)) \<and>
      (g' v = VCPU_STATE_OFFLINE \<longrightarrow> v \<noteq> n \<and> v \<notin> set (r @ sq A)) \<and> (g' v = VCPU_STATE_SUSPENDED \<longrightarrow> v \<in> set (sq A))"
  proof
    fix v assume v: "v \<in> V"
    show "(v \<noteq> n \<longrightarrow> g' v \<noteq> VCPU_STATE_RUNNING) \<and> (g' v = VCPU_STATE_RUNNING \<longrightarrow> v \<notin> set (r @ sq A)) \<and>
      (g' v = VCPU_STATE_OFFLINE \<longrightarrow> v \<noteq> n \<and> v \<notin> set (r @ sq A)) \<and> (g' v = VCPU_STATE_SUSPENDED \<longrightarrow> v \<in> set (sq A))"
      unfolding eq [OF v] using D(5-9) [OF v] n(2) by (cases "v = n"; cases "v = cur A") auto
  qed
  have "sched_step (Switch g) A = A\<lparr>rq := r, cur := n, st := g'\<rparr>" by (simp add: r f_def g'_def Let_def)
  moreover have "sched_inv V r (sq A) n g'"
    unfolding sched_inv_def by (intro conjI) (fact q disjI2 [OF n(1)] ready rest)+
  ultimately show ?thesis by simp
qed

text \<open>The other steps give one processor a new state and place.\<close>

lemma move_ok:
  assumes ok: "sched_ok V A" and q: "distinct (r @ q)" "set (r @ q) \<subseteq> V"
    and others: "\<And>w. w \<noteq> v \<Longrightarrow> (w \<in> set r \<longleftrightarrow> w \<in> set (rq A)) \<and> (w \<in> set q \<longleftrightarrow> w \<in> set (sq A))"
    and x: "x \<noteq> VCPU_STATE_RUNNING" "x \<noteq> VCPU_STATE_OFFLINE" "v \<in> set r \<Longrightarrow> x = VCPU_STATE_READY" "x = VCPU_STATE_SUSPENDED \<Longrightarrow> v \<in> set q"
  shows "sched_inv V r q (cur A) ((st A)(v := x))"
proof -
  note D = sched_okD [OF ok]
  let ?g = "(st A)(v := x)"
  have ready: "\<forall>w \<in> set r. ?g w = VCPU_STATE_READY"
  proof
    fix w assume "w \<in> set r"
    then show "?g w = VCPU_STATE_READY" using x(3) others [of w] D(4) [of w] by (cases "w = v") auto
  qed
  have rest: "\<forall>w \<in> V. (w \<noteq> cur A \<longrightarrow> ?g w \<noteq> VCPU_STATE_RUNNING) \<and> (?g w = VCPU_STATE_RUNNING \<longrightarrow> w \<notin> set (r @ q)) \<and>
      (?g w = VCPU_STATE_OFFLINE \<longrightarrow> w \<noteq> cur A \<and> w \<notin> set (r @ q)) \<and> (?g w = VCPU_STATE_SUSPENDED \<longrightarrow> w \<in> set q)"
  proof
    fix w assume w: "w \<in> V"
    show "(w \<noteq> cur A \<longrightarrow> ?g w \<noteq> VCPU_STATE_RUNNING) \<and> (?g w = VCPU_STATE_RUNNING \<longrightarrow> w \<notin> set (r @ q)) \<and>
      (?g w = VCPU_STATE_OFFLINE \<longrightarrow> w \<noteq> cur A \<and> w \<notin> set (r @ q)) \<and> (?g w = VCPU_STATE_SUSPENDED \<longrightarrow> w \<in> set q)"
    proof (cases "w = v")
      case False
      then show ?thesis using D(5-9) [OF w] others [OF False] by auto
    qed (use x in simp)
  qed
  show ?thesis unfolding sched_inv_def by (intro conjI) (fact q D(3) ready rest)+
qed

lemma sched_step_ok:
  assumes ok: "sched_ok V A" and op: "op_ok p V op A" and "NULL \<notin> V"
  shows "sched_ok V (sched_step op A)"
proof (cases op)
  case (Switch g)
  then obtain n r where "rq A = n # r" using op by (cases "rq A") (auto simp: op_ok_def)
  then show ?thesis unfolding Switch by (rule switch_ok [OF ok _ assms(3)])
next
  case (Start v)
  have "v \<in> V" using op Start by (simp add: op_ok_def)
  note D = sched_okD(1,2) [OF ok] sched_okD(8) [OF ok this]
  show ?thesis using move_ok [OF ok, of "rq A @ [v]" "sq A" v VCPU_STATE_READY] D \<open>v \<in> V\<close> ok by (auto simp: Start)
next
  case (Suspend v)
  have "v \<in> V" using op Suspend by (simp add: op_ok_def)
  note D = sched_okD(1,2) [OF ok] sched_okD(6) [OF ok this]
  show ?thesis using move_ok [OF ok, of "rq A" "sq A @ [v]" v VCPU_STATE_SUSPENDED] D \<open>v \<in> V\<close> ok by (auto simp: Suspend)
next
  case (Resume v)
  have "v \<in> V" using op Resume by (simp add: op_ok_def)
  note D = sched_okD(1,2) [OF ok] sched_okD(9) [OF ok this]
  show ?thesis using move_ok [OF ok, of "rq A @ [v]" "remove1 v (sq A)" v VCPU_STATE_READY] D \<open>v \<in> V\<close> ok by (auto simp: Resume)
next
  case (Halt v)
  have "v \<in> V" using op Halt by (simp add: op_ok_def)
  note D = sched_okD(1,2) [OF ok] sched_okD(6) [OF ok this]
  show ?thesis using move_ok [OF ok, of "rq A" "sq A" v VCPU_STATE_HALTED] D \<open>v \<in> V\<close> ok by (auto simp: Halt)
qed

section \<open>Disjointness\<close>

lemma nodeset_apart: "nodeset S \<Longrightarrow> set l \<subseteq> S \<Longrightarrow> distinct l \<Longrightarrow> apart l"
  by (induction l) (fastforce simp: nodeset_def)+

lemma vcpu_apart:
  assumes "laid_out p V" "v \<in> V" "w \<in> V" "X \<subseteq> span v 552" "Y \<subseteq> span w 552" "v = w \<Longrightarrow> X \<inter> Y = {}"
  shows "X \<inter> Y = {}"
proof (cases "v = w")
  case False
  then show ?thesis using assms unfolding laid_out_def by blast
qed (rule assms(6))

lemma outer_apart:
  assumes "laid_out p V" "v \<in> V" "X \<subseteq> span v 552"
  shows "X \<inter> span p 48 = {}" "X \<inter> span NULL 16 = {}" "span p 48 \<inter> span NULL 16 = {}"
  using assms unfolding laid_out_def apart_from_def by blast+

lemma queue_nodes:
  assumes "laid_out p V"
  shows "nodeset ({ready_vcpus p, suspend_vcpus p} \<union> vcpu_node ` V)"
    "v \<in> V \<Longrightarrow> vcpu_node v \<noteq> ready_vcpus p \<and> vcpu_node v \<noteq> suspend_vcpus p \<and> vcpu_node v \<noteq> NULL"
proof -
  have heads: "apart2 (vcpu_node v) (ready_vcpus p) \<and> apart2 (vcpu_node v) (suspend_vcpus p) \<and> apart2 (vcpu_node v) NULL" if "v \<in> V" for v
    using outer_apart [OF assms that vcpu_fields(4)] pcpu_fields [of p] unfolding apart2_def by blast
  then show "v \<in> V \<Longrightarrow> vcpu_node v \<noteq> ready_vcpus p \<and> vcpu_node v \<noteq> suspend_vcpus p \<and> vcpu_node v \<noteq> NULL"
    by (metis apart2_irrefl)
  have "apart2 (vcpu_node v) (vcpu_node w)" if "v \<in> V" "w \<in> V" "v \<noteq> w" for v w
    unfolding apart2_def by (rule vcpu_apart [OF assms that(1,2)]) (use vcpu_fields that(3) in auto)
  moreover have "apart2 (ready_vcpus p) (suspend_vcpus p)" using pcpu_fields(4) by (simp add: apart2_def)
  ultimately show "nodeset ({ready_vcpus p, suspend_vcpus p} \<union> vcpu_node ` V)"
    using heads unfolding nodeset_def by (auto intro: apart2_sym)
qed

lemma queue_apart:
  assumes "laid_out p V" "set vs \<subseteq> V" "distinct vs" "set hs \<subseteq> {ready_vcpus p, suspend_vcpus p}" "distinct hs"
    and "set l = set hs \<union> vcpu_node ` set vs" "length l = length hs + length vs"
  shows "apart l"
proof (rule nodeset_apart [OF queue_nodes(1) [OF assms(1)]])
  show "set l \<subseteq> {ready_vcpus p, suspend_vcpus p} \<union> vcpu_node ` V" using assms(2,4,6) by auto
  have "set hs \<inter> vcpu_node ` set vs = {}" using queue_nodes(2) [OF assms(1)] assms(2,4) by force
  moreover have "card (vcpu_node ` set vs) = length vs" using assms(3) by (simp add: card_image inj_on_def distinct_card)
  moreover have "card (set hs) = length hs" using assms(5) by (simp add: distinct_card)
  ultimately have "card (set l) = length l" using assms(6,7) by (simp add: card_Un_disjoint)
  then show "distinct l" by (rule card_distinct)
qed

text \<open>The bytes that the operations write besides \<open>current_vcpu\<close>.\<close>

definition touched :: "addr \<Rightarrow> addr \<Rightarrow> addr list \<Rightarrow> addr set" where
  "touched p v vs = span (v + 4) 4 \<union> span (v + 168) 360 \<union> span NULL 16 \<union> span (p + 8) 16 \<union> span (p + 24) 16 \<union>
     nodes (map vcpu_node vs)"

lemma nodes_of: "nodes (map vcpu_node vs) = (\<Union>u \<in> set vs. span (u + 528) 16)"
  by (simp add: nodes_def)

lemma touched_off:
  assumes "laid_out p V" "v \<in> V" "set vs \<subseteq> V" "w \<in> V"
  shows "span (w + 544) 8 \<inter> touched p v vs = {}" "w \<noteq> v \<Longrightarrow> span (w + 4) 4 \<inter> touched p v vs = {}"
    "w \<notin> set vs \<Longrightarrow> span (w + 528) 16 \<inter> touched p v vs = {}" "span (p + 40) 8 \<inter> touched p v vs = {}"
proof -
  note o = outer_apart [OF assms(1,4)] and pf = pcpu_fields [of p] and f = vcpu_fields
  have n: "X \<inter> nodes (map vcpu_node vs) = {}" if "X \<subseteq> span w 552" "w \<in> set vs \<Longrightarrow> X \<inter> span (w + 528) 16 = {}" for X
    unfolding nodes_of using vcpu_apart [OF assms(1,4) _ that(1) f(4)] that(2) assms(3) by blast
  have x: "X \<inter> (span (v + 4) 4 \<union> span (v + 168) 360) = {}"
    if "X \<subseteq> span w 552" "w = v \<Longrightarrow> X \<inter> (span (v + 4) 4 \<union> span (v + 168) 360) = {}" for X
    by (rule vcpu_apart [OF assms(1,4,2) that(1)]) (use f(1,6) that(2) in auto)
  have h: "X \<inter> (span NULL 16 \<union> span (p + 8) 16 \<union> span (p + 24) 16) = {}" if "X \<subseteq> span w 552" for X
    using o [OF that] pf by blast
  have t: "X \<inter> touched p v vs = {}" if "X \<subseteq> span w 552" "w \<in> set vs \<Longrightarrow> X \<inter> span (w + 528) 16 = {}"
    "w = v \<Longrightarrow> X \<inter> (span (v + 4) 4 \<union> span (v + 168) 360) = {}" for X
    using n [OF that(1,2)] x [OF that(1,3)] h [OF that(1)] unfolding touched_def by blast
  show "span (w + 544) 8 \<inter> touched p v vs = {}" by (rule t) (use f [of w] in auto)
  show "span (w + 4) 4 \<inter> touched p v vs = {}" if "w \<noteq> v" by (rule t) (use f [of w] that in auto)
  show "span (w + 528) 16 \<inter> touched p v vs = {}" if "w \<notin> set vs" by (rule t) (use f [of w] that in auto)
  have in_p: "X \<inter> span (p + 40) 8 = {}" if "u \<in> V" "X \<subseteq> span u 552" for u X
    using outer_apart(1) [OF assms(1) that] pf(3) by blast
  have "span (p + 40) 8 \<inter> nodes (map vcpu_node vs) = {}" unfolding nodes_of using in_p [OF _ f(4)] assms(3) by blast
  moreover have "span (p + 40) 8 \<inter> span (v + 4) 4 = {}" "span (p + 40) 8 \<inter> span (v + 168) 360 = {}"
    using in_p [OF assms(2) f(1)] in_p [OF assms(2) f(6)] by (simp_all add: Int_commute)
  moreover have "span (p + 40) 8 \<inter> span NULL 16 = {}" using pf(3) outer_apart(3) [OF assms(1,2) subset_refl] by blast
  ultimately show "span (p + 40) 8 \<inter> touched p v vs = {}" using pf(5,6) by (simp add: touched_def Int_Un_distrib Int_commute)
qed

section \<open>The relation under a change\<close>

lemma detached_frame: "agree (span (w + 528) 16) m' m \<Longrightarrow> detached m' w \<longleftrightarrow> detached m w"
  using link_frame [of "span (w + 528) 16" m' m "w + 528"] by (simp add: detached_def)

lemma rep_change:
  assumes rep: "sched_rep m p V A" and v: "v \<in> V" "set vs \<subseteq> V"
    and ag: "agree (- (touched p v vs \<union> G \<union> span (p + 40) 8)) m' m" and G: "apart_from G p V"
    and A': "sched_ok V A'" "current_vcpu m' p = cur A'" "st A' = (st A)(v := x)" "vcpu_state_at m' v = state_code x"
    and q: "dlist m' (ready_vcpus p) (map vcpu_node (rq A'))" "dlist m' (suspend_vcpus p) (map vcpu_node (sq A'))"
    and d: "\<And>w. w \<in> V \<Longrightarrow> w \<notin> set (rq A' @ sq A') \<Longrightarrow> detached m' w \<or> w \<notin> set vs \<and> w \<notin> set (rq A @ sq A)"
  shows "sched_rep m' p V A'"
proof -
  have lay: "laid_out p V" using rep by (simp add: sched_rep_def)
  have keep: "agree X m' m" if "w \<in> V" "X \<subseteq> span w 552" "X \<inter> touched p v vs = {}" for w X
  proof (rule agree_mono [OF ag])
    have "X \<inter> G = {}" "X \<inter> span (p + 40) 8 = {}"
      using G that outer_apart(1) [OF lay that(1,2)] pcpu_fields(3) [of p] unfolding apart_from_def by blast+
    then show "X \<subseteq> - (touched p v vs \<union> G \<union> span (p + 40) 8)" using that(3) by blast
  qed
  have "vcpu_state_at m' w = state_code (st A' w) \<and> vcpu_pcpu m' w = p \<and> (w \<notin> set (rq A' @ sq A') \<longrightarrow> detached m' w)"
    if w: "w \<in> V" for w
  proof -
    note t = touched_off [OF lay v w]
    have old: "vcpu_state_at m w = state_code (st A w)" "vcpu_pcpu m w = p" "w \<notin> set (rq A @ sq A) \<longrightarrow> detached m w"
      using rep w by (auto simp: sched_rep_def)
    have "vcpu_pcpu m' w = p"
      using c64.rd_local [OF keep [OF w vcpu_fields(5) t(1)]] old(2) by (simp add: vcpu_pcpu_def)
    moreover have "vcpu_state_at m' w = state_code (st A' w)"
    proof (cases "w = v")
      case False
      then show ?thesis using c32.rd_local [OF keep [OF w vcpu_fields(1) t(2)]] old(1) A'(3) by (simp add: vcpu_state_at_def)
    qed (simp add: A'(3,4))
    moreover have "detached m' w" if "w \<notin> set (rq A' @ sq A')"
      using d [OF w that] detached_frame [OF keep [OF w vcpu_fields(4) t(3)]] old(3) by blast
    ultimately show ?thesis by blast
  qed
  then show ?thesis using lay A'(1,2) q by (simp add: sched_rep_def)
qed

text \<open>Setting a state leaves the queues alone; so does \<open>list_del\<close> of a node that is in none.\<close>

lemma queues_frame:
  assumes "sched_rep m p V A" "agree (span (p + 8) 16 \<union> span (p + 24) 16 \<union> nodes (map vcpu_node (rq A @ sq A))) m' m"
  shows "dlist m' (ready_vcpus p) (map vcpu_node (rq A))" "dlist m' (suspend_vcpus p) (map vcpu_node (sq A))"
  using assms unfolding sched_rep_def by (auto intro!: cl.holds_frame [of m] intro: agree_mono)

lemma set_state_agree: "agree (- span (v + 4) 4) (set_vcpu_state m v x) m"
  by (simp add: set_vcpu_state_def c32.wr_agree)

lemma set_state_same: "vcpu_state_at (set_vcpu_state m v x) v = state_code x"
  by (simp add: set_vcpu_state_def vcpu_state_at_def c32.rd_wr_same)

lemma detached_del:
  assumes "detached m v"
  shows "agree (- (span NULL 16 \<union> span (v + 528) 16)) (list_del m (vcpu_node v)) m" "detached (list_del m (vcpu_node v)) v"
proof -
  show "agree (- (span NULL 16 \<union> span (v + 528) 16)) (list_del m (vcpu_node v)) m"
    by (rule agree_mono [OF list_del_agree]) (use assms in \<open>auto simp: detached_def\<close>)
  show "detached (list_del m (vcpu_node v)) v" by (simp add: detached_def list_del_def Let_def)
qed

lemma queue_off:
  assumes "laid_out p V" "v \<in> V" "set vs \<subseteq> V"
  shows "span (v + 4) 4 \<inter> (span (p + 8) 16 \<union> span (p + 24) 16 \<union> nodes (map vcpu_node vs)) = {}"
    "span (v + 168) 360 \<inter> (span (p + 8) 16 \<union> span (p + 24) 16 \<union> nodes (map vcpu_node vs)) = {}"
    "span NULL 16 \<inter> (span (p + 8) 16 \<union> span (p + 24) 16 \<union> nodes (map vcpu_node vs)) = {}"
    "v \<notin> set vs \<Longrightarrow> span (v + 528) 16 \<inter> (span (p + 8) 16 \<union> span (p + 24) 16 \<union> nodes (map vcpu_node vs)) = {}"
proof -
  note pf = pcpu_fields [of p] and f = vcpu_fields
  have hd: "X \<inter> (span (p + 8) 16 \<union> span (p + 24) 16) = {}" if "X \<subseteq> span v 552" for X
    using outer_apart(1) [OF assms(1,2) that] pf(1,2) by blast
  have nd: "X \<inter> nodes (map vcpu_node vs) = {}" if "X \<subseteq> span v 552" "v \<in> set vs \<Longrightarrow> X \<inter> span (v + 528) 16 = {}" for X
    unfolding nodes_of using vcpu_apart [OF assms(1,2) _ that(1) f(4)] that(2) assms(3) by blast
  have both: "X \<inter> (span (p + 8) 16 \<union> span (p + 24) 16 \<union> nodes (map vcpu_node vs)) = {}"
    if "X \<subseteq> span v 552" "v \<in> set vs \<Longrightarrow> X \<inter> span (v + 528) 16 = {}" for X
    using hd [OF that(1)] nd [OF that] by blast
  show "span (v + 4) 4 \<inter> (span (p + 8) 16 \<union> span (p + 24) 16 \<union> nodes (map vcpu_node vs)) = {}"
    "span (v + 168) 360 \<inter> (span (p + 8) 16 \<union> span (p + 24) 16 \<union> nodes (map vcpu_node vs)) = {}"
    "v \<notin> set vs \<Longrightarrow> span (v + 528) 16 \<inter> (span (p + 8) 16 \<union> span (p + 24) 16 \<union> nodes (map vcpu_node vs)) = {}"
    using f(1,4,6,10,12) [of v] by (auto intro!: both simp: Int_commute)
  have "span NULL 16 \<inter> nodes (map vcpu_node vs) = {}"
    unfolding nodes_of using outer_apart(2) [OF assms(1) _ f(4)] assms(3) by blast
  then show "span NULL 16 \<inter> (span (p + 8) 16 \<union> span (p + 24) 16 \<union> nodes (map vcpu_node vs)) = {}"
    using outer_apart(3) [OF assms(1,2) subset_refl] pf(1,2) by blast
qed

text \<open>The state is set first; then nodes are relinked.\<close>

lemma state_set:
  assumes rep: "sched_rep m p V A" and v: "v \<in> V" and m1: "m1 = set_vcpu_state m v x"
  shows "dlist m1 (ready_vcpus p) (map vcpu_node (rq A))" "dlist m1 (suspend_vcpus p) (map vcpu_node (sq A))"
    "vcpu_pcpu m1 v = p" "v \<notin> set (rq A @ sq A) \<Longrightarrow> detached m1 v"
proof -
  have lay: "laid_out p V" and V: "set (rq A @ sq A) \<subseteq> V" using rep sched_okD(2) by (auto simp: sched_rep_def)
  have ag: "agree (- span (v + 4) 4) m1 m" unfolding m1 by (rule set_state_agree)
  have "agree (span (p + 8) 16 \<union> span (p + 24) 16 \<union> nodes (map vcpu_node (rq A @ sq A))) m1 m"
    by (rule agree_mono [OF ag]) (use queue_off(1) [OF lay v V] in blast)
  note q = queues_frame [OF rep this]
  show "dlist m1 (ready_vcpus p) (map vcpu_node (rq A))" "dlist m1 (suspend_vcpus p) (map vcpu_node (sq A))" by (fact q)+
  have "vcpu_pcpu m1 v = vcpu_pcpu m v" unfolding vcpu_pcpu_def by (rule c64.rd_frame [OF ag]) (use vcpu_fields [of v] in auto)
  then show "vcpu_pcpu m1 v = p" using rep v by (simp add: sched_rep_def)
  have "detached m1 v = detached m v" by (rule detached_frame [OF agree_mono [OF ag]]) (use vcpu_fields [of v] in auto)
  then show "v \<notin> set (rq A @ sq A) \<Longrightarrow> detached m1 v" using rep v by (simp add: sched_rep_def)
qed

definition links :: "addr \<Rightarrow> addr list \<Rightarrow> addr set" where
  "links p vs = span NULL 16 \<union> span (p + 8) 16 \<union> span (p + 24) 16 \<union> nodes (map vcpu_node vs)"

lemma rep_move:
  assumes rep: "sched_rep m p V A" and v: "v \<in> V" and ag: "agree (- links p (v # rq A @ sq A)) m2 (set_vcpu_state m v x)"
    and ok: "sched_inv V r q (cur A) ((st A)(v := x))" and rq: "insert v (set (r @ q)) = insert v (set (rq A @ sq A))"
    and d: "dlist m2 (ready_vcpus p) (map vcpu_node r)" "dlist m2 (suspend_vcpus p) (map vcpu_node q)"
    "v \<notin> set (r @ q) \<Longrightarrow> detached m2 v"
  shows "sched_rep m2 p V (A\<lparr>rq := r, sq := q, st := (st A)(v := x)\<rparr>)"
proof -
  let ?vs = "v # rq A @ sq A"
  have lay: "laid_out p V" and V: "set ?vs \<subseteq> V" using rep v sched_okD(2) by (auto simp: sched_rep_def)
  have off: "span (v + 4) 4 \<inter> links p ?vs = {}"
    using queue_off(1) [OF lay v V] outer_apart(2) [OF lay v vcpu_fields(1)] unfolding links_def by blast
  have "agree (- touched p v ?vs) m2 m"
    by (rule agree_trans [OF agree_mono [OF ag] agree_mono [OF set_state_agree]]) (auto simp: touched_def links_def)
  moreover from this have "current_vcpu m2 p = current_vcpu m p"
    unfolding current_vcpu_def by (rule c64.rd_frame) (use touched_off(4) [OF lay v V v] in blast)
  moreover have "vcpu_state_at m2 v = vcpu_state_at (set_vcpu_state m v x) v"
    unfolding vcpu_state_at_def by (rule c32.rd_frame [OF ag]) (use off in blast)
  moreover have "detached m2 w \<or> w \<notin> set ?vs \<and> w \<notin> set (rq A @ sq A)" if "w \<notin> set (r @ q)" for w
  proof (cases "w = v")
    case False
    then show ?thesis using that rq by (metis insert_iff list.simps(15))
  qed (use d(3) that in blast)
  ultimately show ?thesis
    using rep v V ok d(1,2) set_state_same [of m v x]
    by (intro rep_change [OF rep v V, where G = "{}" and x = x]) (auto intro: agree_mono simp: apart_from_def sched_rep_def)
qed

lemma links_nodes: "set l \<subseteq> {ready_vcpus p, suspend_vcpus p} \<union> vcpu_node ` set vs \<Longrightarrow> nodes l \<subseteq> links p vs"
  by (auto simp: links_def nodes_def)

lemma links_cong: "set vs = set ws \<Longrightarrow> links p vs = links p ws"
  by (simp add: links_def nodes_def)

lemma join_queue:
  assumes lay: "laid_out p V" and vs: "set (v # xs @ ys) \<subseteq> V" "distinct (v # xs @ ys)"
    and hg: "(h, g) \<in> {(ready_vcpus p, suspend_vcpus p), (suspend_vcpus p, ready_vcpus p)}"
    and d: "dlist m h (map vcpu_node xs)" "dlist m g (map vcpu_node ys)" and m': "m' = list_add_tail m (vcpu_node v) h"
  shows "dlist m' h (map vcpu_node (xs @ [v]))" "dlist m' g (map vcpu_node ys)" "agree (- links p (v # xs @ ys)) m' m"
proof -
  have ap: "apart (vcpu_node v # h # map vcpu_node xs)"
    by (rule queue_apart [OF lay, of "v # xs" "[h]"]) (use vs hg in auto)
  have ap2: "apart (g # map vcpu_node ys @ vcpu_node v # h # map vcpu_node xs)"
    by (rule queue_apart [OF lay, of "v # xs @ ys" "[g, h]"]) (use vs hg in auto)
  have fr: "agree (- nodes (vcpu_node v # h # map vcpu_node xs)) m' m" unfolding m' by (rule cl.enqueue_frame [OF d(1) ap])
  show "dlist m' h (map vcpu_node (xs @ [v]))" using cl.enqueue_holds [OF d(1) ap] by (simp add: m')
  show "dlist m' g (map vcpu_node ys)" by (rule cl.holds_outside [OF d(2) fr ap2])
  have "nodes (vcpu_node v # h # map vcpu_node xs) \<subseteq> links p (v # xs @ ys)" by (rule links_nodes) (use hg in auto)
  then show "agree (- links p (v # xs @ ys)) m' m" by (intro agree_mono [OF fr]) blast
qed

section \<open>The operations implement their steps\<close>

lemma start_refines:
  assumes rep: "sched_rep m p V A" and v: "v \<in> V"
  shows "sched_rep (vcpu_start v m) p V (sched_step (Start v) A)"
proof (cases "st A v = VCPU_STATE_OFFLINE")
  case True
  define m1 where "m1 = set_vcpu_state m v VCPU_STATE_READY"
  have lay: "laid_out p V" and ok: "sched_ok V A" and stv: "vcpu_state_at m v = state_code (st A v)" using rep v by (simp_all add: sched_rep_def)
  note s1 = state_set [OF rep v m1_def] and D = sched_okD(1,2) [OF ok] sched_okD(8) [OF ok v True]
  define m2 where "m2 = list_add_tail m1 (vcpu_node v) (ready_vcpus p)"
  have "set (v # rq A @ sq A) \<subseteq> V" "distinct (v # rq A @ sq A)" using D v by simp_all
  note j = join_queue [OF lay this _ s1(1,2) m2_def]
  have "sched_rep m2 p V (A\<lparr>rq := rq A @ [v], sq := sq A, st := (st A)(v := VCPU_STATE_READY)\<rparr>)"
    by (rule rep_move [OF rep v]) (use j move_ok [OF ok, of "rq A @ [v]" "sq A" v] D v in \<open>auto simp: m1_def\<close>)
  moreover have "vcpu_start v m = m2" using True stv s1(3) by (simp add: vcpu_start_def m1_def m2_def)
  ultimately show ?thesis using True by simp
next
  case False
  then have "vcpu_start v m = m" using rep v by (simp add: vcpu_start_def sched_rep_def state_code_inj del: state_code.simps)
  then show ?thesis using rep False by simp
qed

text \<open>\<open>vcpu_suspend\<close> and \<open>vcpu_halt\<close> first remove the node of a running processor, which is in no queue.\<close>

lemma running_removed:
  assumes rep: "sched_rep m p V A" and v: "v \<in> V" "st A v = VCPU_STATE_RUNNING"
    and m1: "m1 = set_vcpu_state m v x" and m2: "m2 = list_del m1 (vcpu_node v)"
  shows "dlist m2 (ready_vcpus p) (map vcpu_node (rq A))" "dlist m2 (suspend_vcpus p) (map vcpu_node (sq A))"
    "vcpu_pcpu m2 v = p" "detached m2 v" "agree (- links p (v # rq A @ sq A)) m2 m1"
proof -
  have lay: "laid_out p V" and ok: "sched_ok V A" using rep by (simp_all add: sched_rep_def)
  note s1 = state_set [OF rep v(1) m1] and D = sched_okD(1,2) [OF ok] sched_okD(6) [OF ok v]
  note dd = detached_del [OF s1(4) [OF D(3)], folded m2]
  have ag: "agree (nodes (ready_vcpus p # map vcpu_node (rq A)) \<union> nodes (suspend_vcpus p # map vcpu_node (sq A))) m2 m1"
    by (rule agree_mono [OF dd(1)]) (use queue_off(3) [OF lay v(1) D(2)] queue_off(4) [OF lay v(1) D(2,3)] in auto)
  show "dlist m2 (ready_vcpus p) (map vcpu_node (rq A))" by (rule cl.holds_frame [OF s1(1) agree_mono [OF ag]]) blast
  show "dlist m2 (suspend_vcpus p) (map vcpu_node (sq A))" by (rule cl.holds_frame [OF s1(2) agree_mono [OF ag]]) blast
  have "vcpu_pcpu m2 v = vcpu_pcpu m1 v"
    unfolding vcpu_pcpu_def by (rule c64.rd_frame [OF dd(1)]) (use vcpu_fields(14) [of v] outer_apart(2) [OF lay v(1) vcpu_fields(5)] in blast)
  then show "vcpu_pcpu m2 v = p" using s1(3) by simp
  show "detached m2 v" by (rule dd(2))
  show "agree (- links p (v # rq A @ sq A)) m2 m1" by (rule agree_mono [OF dd(1)]) (auto simp: links_def)
qed

lemma suspend_refines:
  assumes rep: "sched_rep m p V A" and v: "v \<in> V"
  shows "sched_rep (vcpu_suspend v m) p V (sched_step (Suspend v) A)"
proof (cases "st A v = VCPU_STATE_RUNNING")
  case True
  define m1 where "m1 = set_vcpu_state m v VCPU_STATE_SUSPENDED"
  define m2 where "m2 = list_del m1 (vcpu_node v)"
  define m3 where "m3 = list_add_tail m2 (vcpu_node v) (suspend_vcpus p)"
  have lay: "laid_out p V" and ok: "sched_ok V A" and stv: "vcpu_state_at m v = state_code (st A v)" using rep v by (simp_all add: sched_rep_def)
  note s2 = running_removed [OF rep v True m1_def m2_def] and D = sched_okD(1,2) [OF ok] sched_okD(6) [OF ok v True]
  have "set (v # sq A @ rq A) \<subseteq> V" "distinct (v # sq A @ rq A)" using D v by auto
  note j = join_queue [OF lay this _ s2(2,1) m3_def]
  have "links p (v # sq A @ rq A) = links p (v # rq A @ sq A)" by (rule links_cong) auto
  then have "agree (- links p (v # rq A @ sq A)) m3 m1" using j(3) s2(5) agree_trans by auto
  then have "sched_rep m3 p V (A\<lparr>rq := rq A, sq := sq A @ [v], st := (st A)(v := VCPU_STATE_SUSPENDED)\<rparr>)"
    by (intro rep_move [OF rep v]) (use j move_ok [OF ok, of "rq A" "sq A @ [v]" v] D v in \<open>auto simp: m1_def\<close>)
  moreover have "vcpu_suspend v m = m3" using True stv s2(3) by (simp add: vcpu_suspend_def m1_def m2_def m3_def)
  ultimately show ?thesis using True by simp
next
  case False
  then have "vcpu_suspend v m = m" using rep v by (simp add: vcpu_suspend_def sched_rep_def state_code_inj del: state_code.simps)
  then show ?thesis using rep False by simp
qed

lemma halt_refines:
  assumes rep: "sched_rep m p V A" and v: "v \<in> V"
  shows "sched_rep (vcpu_halt v m) p V (sched_step (Halt v) A)"
proof (cases "st A v = VCPU_STATE_RUNNING")
  case True
  define m1 where "m1 = set_vcpu_state m v VCPU_STATE_HALTED"
  define m2 where "m2 = list_del m1 (vcpu_node v)"
  have ok: "sched_ok V A" and stv: "vcpu_state_at m v = state_code (st A v)" using rep v by (simp_all add: sched_rep_def)
  note s2 = running_removed [OF rep v True m1_def m2_def] and D = sched_okD(1,2) [OF ok] sched_okD(6) [OF ok v True]
  have "sched_rep m2 p V (A\<lparr>rq := rq A, sq := sq A, st := (st A)(v := VCPU_STATE_HALTED)\<rparr>)"
    by (rule rep_move [OF rep v]) (use s2 move_ok [OF ok, of "rq A" "sq A" v] D v in \<open>auto simp: m1_def\<close>)
  moreover have "vcpu_halt v m = m2" using True stv by (simp add: vcpu_halt_def m1_def m2_def)
  ultimately show ?thesis using True by simp
next
  case False
  then have "vcpu_halt v m = m" using rep v by (simp add: vcpu_halt_def sched_rep_def state_code_inj del: state_code.simps)
  then show ?thesis using rep False by simp
qed

lemma resume_refines:
  assumes rep: "sched_rep m p V A" and v: "v \<in> V"
  shows "sched_rep (vcpu_resume v m) p V (sched_step (Resume v) A)"
proof (cases "st A v = VCPU_STATE_SUSPENDED")
  case True
  define m1 where "m1 = set_vcpu_state m v VCPU_STATE_READY"
  define m2 where "m2 = list_add_tail (list_del m1 (vcpu_node v)) (vcpu_node v) (ready_vcpus p)"
  have lay: "laid_out p V" and ok: "sched_ok V A" and stv: "vcpu_state_at m v = state_code (st A v)" using rep v by (simp_all add: sched_rep_def)
  note s1 = state_set [OF rep v m1_def] and D = sched_okD(1,2) [OF ok] sched_okD(9) [OF ok v True]
  obtain xs ys where q: "sq A = xs @ v # ys" using split_list [OF D(3)] by blast
  have ap: "apart (ready_vcpus p # map vcpu_node (rq A) @ suspend_vcpus p # map vcpu_node xs @ vcpu_node v # map vcpu_node ys)"
    by (rule queue_apart [OF lay, of "rq A @ sq A" "[ready_vcpus p, suspend_vcpus p]"]) (use D q in auto)
  have d: "dlist m1 (suspend_vcpus p) (map vcpu_node xs @ vcpu_node v # map vcpu_node ys)" using s1(2) by (simp add: q)
  note mv = cl.remove_enqueue [OF d s1(1) ap, folded m2_def] and fr = cl.remove_frame [OF d]
  have r: "remove1 v (sq A) = xs @ ys" using D(1) q by (simp add: remove1_append)
  have "vcpu_pcpu (list_del m1 (vcpu_node v)) v = vcpu_pcpu m1 v"
  proof -
    have "span (v + 544) 8 \<inter> touched p v (sq A) = {}" by (rule touched_off(1) [OF lay v _ v]) (use D(2) in auto)
    then show ?thesis unfolding vcpu_pcpu_def by (intro c64.rd_frame [OF fr]) (auto simp: touched_def q)
  qed
  then have run: "vcpu_resume v m = m2" using True stv s1(3) by (simp add: vcpu_resume_def m1_def m2_def)
  have "sched_rep m2 p V (A\<lparr>rq := rq A @ [v], sq := xs @ ys, st := (st A)(v := VCPU_STATE_READY)\<rparr>)"
  proof (rule rep_move [OF rep v])
    have "nodes (ready_vcpus p # map vcpu_node (rq A) @ suspend_vcpus p # map vcpu_node xs @ vcpu_node v # map vcpu_node ys)
        \<subseteq> links p (v # rq A @ sq A)" by (rule links_nodes) (auto simp: q)
    then show "agree (- links p (v # rq A @ sq A)) m2 (set_vcpu_state m v VCPU_STATE_READY)"
      unfolding m1_def [symmetric] by (intro agree_mono [OF mv(3)]) blast
    show "sched_inv V (rq A @ [v]) (xs @ ys) (cur A) ((st A)(v := VCPU_STATE_READY))"
      by (rule move_ok [OF ok]) (use D q v in auto)
  qed (use mv(1,2) q in auto)
  then show ?thesis using True r by (simp add: run)
next
  case False
  then have "vcpu_resume v m = m" using rep v by (simp add: vcpu_resume_def sched_rep_def state_code_inj del: state_code.simps)
  then show ?thesis using rep False by simp
qed

text \<open>Putting the current processor away: its context is saved and its state becomes ready; it joins no queue.\<close>

lemma switch_out_refines:
  assumes rep: "sched_rep (vmem s) p V A" and g: "apart_from (span g 272) p V"
  shows "sched_rep (vmem (switch_out hw p g s)) p V (A\<lparr>st := (if cur A \<noteq> NULL then (st A)(cur A := VCPU_STATE_READY) else st A)\<rparr>)"
proof (cases "cur A = NULL")
  case True
  then show ?thesis using rep by (simp add: switch_out_def sched_rep_def)
next
  case False
  let ?c = "cur A" define s1 where "s1 = vcpu_save_context hw ?c g s"
  have lay: "laid_out p V" and ok: "sched_ok V A" and cu: "current_vcpu (vmem s) p = ?c" using rep by (simp_all add: sched_rep_def)
  note D = sched_okD [OF ok]
  have c: "?c \<in> V" using D(3) False by simp
  have "span (?c + 168) 272 \<inter> span g 272 = {}" using g c vcpu_fields(2) [of ?c] unfolding apart_from_def by blast
  note sv = save_context_ok [OF this refl s1_def]
  have out: "switch_out hw p g s = s1"
    using False sv(4) by (simp add: switch_out_def cu s1_def [symmetric] Let_def)
  let ?W = "span (?c + 168) 360 \<union> span (?c + 4) 4"
  have ag: "agree (span (p + 8) 16 \<union> span (p + 24) 16 \<union> nodes (map vcpu_node (rq A @ sq A))) (vmem s1) (vmem s)"
    by (rule agree_mono [OF sv(5)]) (use queue_off(1,2) [OF lay c D(2)] in blast)
  have tag: "agree (- touched p ?c []) (vmem s1) (vmem s)" by (rule agree_mono [OF sv(5)]) (auto simp: touched_def)
  have "current_vcpu (vmem s1) p = ?c"
    unfolding cu [symmetric] current_vcpu_def by (rule c64.rd_frame [OF tag]) (use touched_off(4) [OF lay c _ c, of "[]"] in auto)
  moreover have "sched_inv V (rq A) (sq A) ?c ((st A)(?c := VCPU_STATE_READY))" by (rule move_ok [OF ok]) (use D(1,2) in auto)
  ultimately have "sched_rep (vmem s1) p V (A\<lparr>st := (st A)(?c := VCPU_STATE_READY)\<rparr>)"
    using queues_frame [OF rep ag] sv(4)
    by (intro rep_change [OF rep c, where vs = "[]" and G = "{}" and x = VCPU_STATE_READY])
      (auto intro: agree_mono [OF tag] simp: apart_from_def)
  then show ?thesis using False by (simp add: out)
qed

lemma apart_from_queue:
  assumes "apart_from G p V" "set vs \<subseteq> V"
  shows "G \<inter> (span (p + 8) 16 \<union> span (p + 24) 16 \<union> nodes (map vcpu_node vs)) = {}"
proof -
  have "G \<inter> span (u + 528) 16 = {}" if "u \<in> set vs" for u
    using assms that vcpu_fields(4) [of u] unfolding apart_from_def by blast
  then have "G \<inter> nodes (map vcpu_node vs) = {}" unfolding nodes_of by blast
  moreover have "G \<inter> span (p + 8) 16 = {}" "G \<inter> span (p + 24) 16 = {}"
    using assms(1) pcpu_fields(1,2) [of p] unfolding apart_from_def by blast+
  ultimately show ?thesis by blast
qed

text \<open>Taking the next processor: the head of the ready queue leaves it and becomes the current one.\<close>

lemma switch_in_refines:
  assumes rep: "sched_rep (vmem s) p V B" and r: "rq B = n # r" and g: "apart_from (span g 272) p V"
    and inv: "sched_inv V r (sq B) n ((st B)(n := VCPU_STATE_RUNNING))"
  shows "sched_rep (vmem (switch_in p g s)) p V (B\<lparr>rq := r, cur := n, st := (st B)(n := VCPU_STATE_RUNNING)\<rparr>)"
proof -
  let ?m = "vmem s"
  define m1 where "m1 = list_del ?m (vcpu_node n)"
  define m3 where "m3 = store64 (set_vcpu_state m1 n VCPU_STATE_RUNNING) (p + 40) n"
  define s4 where "s4 = vcpu_restore_context n g (s\<lparr>vmem := m3\<rparr>)"
  have lay: "laid_out p V" and ok: "sched_ok V B" using rep by (simp_all add: sched_rep_def)
  have q: "dlist ?m (ready_vcpus p) ([] @ vcpu_node n # map vcpu_node r)" "dlist ?m (suspend_vcpus p) (map vcpu_node (sq B))"
    using rep by (simp_all add: sched_rep_def r)
  note D = sched_okD(1,2) [OF ok, unfolded r]
  have n: "n \<in> V" and V: "set (n # r) \<subseteq> V" "set (r @ sq B) \<subseteq> V" using D(2) by auto
  have run: "switch_in p g s = s4"
    using dlist_ends(1) [OF q(1)] queue_nodes(2) [OF lay n]
    by (simp add: switch_in_def list_entry_def s4_def m3_def m1_def Let_def)
  note del = list_del_dlist [OF q(1), folded m1_def]
  have "apart (suspend_vcpus p # map vcpu_node (sq B) @ ready_vcpus p # [] @ vcpu_node n # map vcpu_node r)"
    by (rule queue_apart [OF lay, of "n # r @ sq B" "[ready_vcpus p, suspend_vcpus p]"]) (use D in auto)
  then have q1: "dlist m1 (suspend_vcpus p) (map vcpu_node (sq B))" by (rule cl.holds_outside [OF q(2) del(4)])
  have gn: "span g 272 \<inter> span n 552 = {}" using g n by (auto simp: apart_from_def)
  note rs = restore_context_ok [OF gn s4_def, simplified]
  let ?W = "span g 272 \<union> span (n + 4) 4 \<union> span (p + 40) 8"
  have "agree (- ?W) m3 m1"
    unfolding m3_def by (rule agree_trans [OF c64.wr_agree agree_mono [OF set_state_agree]]) auto
  then have ag: "agree (- ?W) (vmem s4) m1" by (intro agree_trans [OF agree_mono [OF rs(4)]]) auto
  let ?Q = "span (p + 8) 16 \<union> span (p + 24) 16 \<union> nodes (map vcpu_node (r @ sq B))"
  have off: "?W \<inter> ?Q = {}"
    using apart_from_queue [OF g V(2)] queue_off(1) [OF lay n V(2)] touched_off(4) [OF lay n V(2) n] unfolding touched_def by blast
  have agQ: "agree ?Q (vmem s4) m1" by (rule agree_mono [OF ag]) (use off in blast)
  have "dlist m1 (ready_vcpus p) (map vcpu_node r)" using del(1) by simp
  then have q4: "dlist (vmem s4) (ready_vcpus p) (map vcpu_node r)" by (rule cl.holds_frame [OF _ agree_mono [OF agQ]]) auto
  have q5: "dlist (vmem s4) (suspend_vcpus p) (map vcpu_node (sq B))" by (rule cl.holds_frame [OF q1 agree_mono [OF agQ]]) auto
  have "span (n + 528) 16 \<inter> ?W = {}"
    using gn vcpu_fields(4,12) [of n] outer_apart(1) [OF lay n vcpu_fields(4)] pcpu_fields(3) [of p] by blast
  then have "detached (vmem s4) n = detached m1 n" by (intro detached_frame agree_mono [OF ag]) blast
  then have dn: "detached (vmem s4) n" using del(2,3) by (simp add: detached_def)
  have cu: "current_vcpu (vmem s4) p = n"
  proof -
    have "span (p + 40) 8 \<inter> (span g 272 \<union> span (n + 4) 4) = {}"
      using g outer_apart(1) [OF lay n vcpu_fields(1)] pcpu_fields(3) [of p] unfolding apart_from_def by blast
    then have "current_vcpu (vmem s4) p = current_vcpu m3 p" unfolding current_vcpu_def by (intro c64.rd_frame [OF rs(4)]) blast
    then show ?thesis by (simp add: m3_def current_vcpu_def c64.rd_wr_same)
  qed
  have "agree (- (touched p n (n # r) \<union> span g 272 \<union> span (p + 40) 8)) (vmem s4) ?m"
    by (rule agree_trans [OF agree_mono [OF ag] agree_mono [OF del(4)]]) (auto simp: touched_def)
  then have "sched_rep (vmem s4) p V (B\<lparr>rq := r, cur := n, st := (st B)(n := VCPU_STATE_RUNNING)\<rparr>)"
    by (rule rep_change [OF rep n V(1) _ g]) (use inv cu rs(3) q4 q5 dn r in auto)
  then show ?thesis by (simp add: run)
qed

lemma switch_refines:
  assumes rep: "sched_rep (vmem s) p V A" and op: "op_ok p V (Switch g) A"
  shows "sched_rep (vmem (pcpu_switch hw p g s)) p V (sched_step (Switch g) A)"
proof -
  obtain n r where r: "rq A = n # r" and g: "apart_from (span g 272) p V"
    using op by (cases "rq A") (auto simp: op_ok_def)
  let ?f = "if cur A \<noteq> NULL then (st A)(cur A := VCPU_STATE_READY) else st A"
  have "sched_ok V A" "NULL \<notin> V" using rep not_null by (auto simp: sched_rep_def)
  then have inv: "sched_inv V r (sq A) n (?f(n := VCPU_STATE_RUNNING))" using switch_ok [OF _ r] by (simp add: r Let_def)
  have "sched_rep (vmem (pcpu_switch hw p g s)) p V (A\<lparr>st := ?f, rq := r, cur := n, st := ?f(n := VCPU_STATE_RUNNING)\<rparr>)"
    using switch_in_refines [OF switch_out_refines [OF rep g], of n r g hw] r g inv by (simp add: pcpu_switch_def)
  then show ?thesis using r by (simp add: Let_def)
qed

lemma exec_refines:
  assumes "sched_rep (vmem s) p V A" "op_ok p V op A"
  shows "sched_rep (vmem (vcpu_exec hw p op s)) p V (sched_step op A)"
proof (cases op)
  case (Switch g)
  then show ?thesis using switch_refines assms by simp
qed (use assms start_refines suspend_refines resume_refines halt_refines in \<open>auto simp: op_ok_def simp del: sched_step.simps\<close>)

section \<open>Initialisation\<close>

lemma vcpu_init_ok:
  assumes m': "m' = vcpu_init p v i m"
  shows "agree (- span v 552) m' m" "vcpu_state_at m' v = state_code VCPU_STATE_OFFLINE" "vcpu_pcpu m' v = p" "detached m' v"
proof -
  define m1 where "m1 = store32 (fst (memset m v 0 sizeof_vcpu)) v i"
  define m3 where "m3 = store64 (set_vcpu_state m1 v VCPU_STATE_OFFLINE) (v + 544) p"
  define m5 where "m5 = list_init (list_init m3 (v + 8)) (v + 24)"
  have m: "m' = list_init m5 (vcpu_node v)" by (simp add: m' vcpu_init_def m1_def m3_def m5_def Let_def)
  have sz: "unat sizeof_vcpu = 552" by (simp add: sizeof_vcpu_def)
  note f = vcpu_fields [of v]
  have f2: "span v 4 \<subseteq> span v 552" "span (v + 8) 16 \<subseteq> span v 552" "span (v + 24) 16 \<subseteq> span v 552"
    "span (v + 4) 4 \<inter> span (v + 8) 16 = {}" "span (v + 4) 4 \<inter> span (v + 24) 16 = {}"
    "span (v + 544) 8 \<inter> span (v + 8) 16 = {}" "span (v + 544) 8 \<inter> span (v + 24) 16 = {}"
    by (auto simp: span_simps span_iff [of _ v])
  have a5: "agree (- (span (v + 8) 16 \<union> span (v + 24) 16)) m5 m3"
    unfolding m5_def by (rule agree_trans [OF agree_mono [OF list_init_dlist(2)] agree_mono [OF list_init_dlist(2)]]) auto
  have a6: "agree (- span (v + 528) 16) m' m5" unfolding m by (rule list_init_dlist(2))
  have a3: "agree (- span v 552) m3 m"
    unfolding m3_def m1_def set_vcpu_state_def memset_blit fst_conv sz
    by (intro agree_trans [OF c64.wr_agree agree_trans [OF c32.wr_agree agree_trans [OF c32.wr_agree blit_agree]]]) (use f f2 in auto)
  show "agree (- span v 552) m' m"
    by (rule agree_trans [OF agree_mono [OF a6] agree_trans [OF agree_mono [OF a5] a3]]) (use f f2 in auto)
  have ld: "agree (span (v + 4) 4 \<union> span (v + 544) 8) m' m3"
    by (rule agree_trans [OF agree_mono [OF a6] agree_mono [OF a5]]) (use f f2 in auto)
  have "vcpu_state_at m' v = vcpu_state_at m3 v" "vcpu_pcpu m' v = vcpu_pcpu m3 v"
    unfolding vcpu_state_at_def vcpu_pcpu_def by (rule c32.rd_frame [OF ld], simp) (rule c64.rd_frame [OF ld], simp)
  moreover have "vcpu_state_at m3 v = vcpu_state_at (set_vcpu_state m1 v VCPU_STATE_OFFLINE) v"
    unfolding m3_def vcpu_state_at_def by (rule c32.rd_frame [OF c64.wr_agree subset_refl]) (use f in auto)
  ultimately show "vcpu_state_at m' v = state_code VCPU_STATE_OFFLINE" "vcpu_pcpu m' v = p"
    by (simp_all add: set_state_same m3_def vcpu_pcpu_def c64.rd_wr_same del: state_code.simps)
  show "detached m' v" by (simp add: m detached_def list_init_def)
qed

lemma init_adds:
  assumes rep: "sched_rep m p V A" and lay: "laid_out p (insert v V)" and v: "v \<notin> V" "v \<noteq> NULL"
  shows "sched_rep (vcpu_init p v i m) p (insert v V) (A\<lparr>st := (st A)(v := VCPU_STATE_OFFLINE)\<rparr>)"
proof -
  let ?m = "vcpu_init p v i m"
  note i = vcpu_init_ok [of ?m p v i m, OF refl]
  have ok: "sched_ok V A" using rep by (simp add: sched_rep_def)
  note D = sched_okD [OF ok]
  have inv: "sched_inv (insert v V) (rq A) (sq A) (cur A) ((st A)(v := VCPU_STATE_OFFLINE))"
  proof -
    have nv: "v \<notin> set (rq A @ sq A)" "v \<noteq> cur A" using D(2,3) v by auto
    let ?g = "(st A)(v := VCPU_STATE_OFFLINE)"
    have sub: "set (rq A @ sq A) \<subseteq> insert v V" "cur A = NULL \<or> cur A \<in> insert v V" using D(2,3) by auto
    have ready: "\<forall>w \<in> set (rq A). ?g w = VCPU_STATE_READY" using D(4) nv(1) by auto
    have rest: "\<forall>w \<in> insert v V. (w \<noteq> cur A \<longrightarrow> ?g w \<noteq> VCPU_STATE_RUNNING) \<and> (?g w = VCPU_STATE_RUNNING \<longrightarrow> w \<notin> set (rq A @ sq A)) \<and>
      (?g w = VCPU_STATE_OFFLINE \<longrightarrow> w \<noteq> cur A \<and> w \<notin> set (rq A @ sq A)) \<and> (?g w = VCPU_STATE_SUSPENDED \<longrightarrow> w \<in> set (sq A))"
    proof
      fix w assume "w \<in> insert v V"
      then show "(w \<noteq> cur A \<longrightarrow> ?g w \<noteq> VCPU_STATE_RUNNING) \<and> (?g w = VCPU_STATE_RUNNING \<longrightarrow> w \<notin> set (rq A @ sq A)) \<and>
        (?g w = VCPU_STATE_OFFLINE \<longrightarrow> w \<noteq> cur A \<and> w \<notin> set (rq A @ sq A)) \<and> (?g w = VCPU_STATE_SUSPENDED \<longrightarrow> w \<in> set (sq A))"
        using nv D(5-9) [of w] by (cases "w = v") auto
    qed
    show ?thesis unfolding sched_inv_def by (intro conjI) (fact D(1) sub ready rest)+
  qed
  have keep: "agree X ?m m" if "X \<inter> span v 552 = {}" for X by (rule agree_mono [OF i(1)]) (use that in blast)
  have p: "span p 48 \<inter> span v 552 = {}" using lay by (auto simp: laid_out_def)
  have V: "span w 552 \<inter> span v 552 = {}" if "w \<in> V" for w using lay that v(1) by (auto simp: laid_out_def)
  have "nodes (map vcpu_node (rq A @ sq A)) \<inter> span v 552 = {}"
    unfolding nodes_of using V D(2) vcpu_fields(4) by blast
  then have q: "agree (span (p + 8) 16 \<union> span (p + 24) 16 \<union> nodes (map vcpu_node (rq A @ sq A))) ?m m"
    using p pcpu_fields(1,2) [of p] by (intro keep) blast
  have cu: "current_vcpu ?m p = cur A"
    using c64.rd_frame [OF keep [OF p] pcpu_fields(3)] rep by (simp add: current_vcpu_def sched_rep_def)
  have "vcpu_state_at ?m w = state_code (st A w) \<and> vcpu_pcpu ?m w = p \<and> (w \<notin> set (rq A @ sq A) \<longrightarrow> detached ?m w)" if w: "w \<in> V" for w
  proof -
    note k = keep [OF V [OF w]]
    have "vcpu_state_at ?m w = vcpu_state_at m w" "vcpu_pcpu ?m w = vcpu_pcpu m w" "detached ?m w = detached m w"
      unfolding vcpu_state_at_def vcpu_pcpu_def
      by (rule c32.rd_frame [OF k vcpu_fields(1)], rule c64.rd_frame [OF k vcpu_fields(5)], rule detached_frame [OF agree_mono [OF k vcpu_fields(4)]])
    then show ?thesis using rep w by (simp add: sched_rep_def)
  qed
  then show ?thesis using lay inv cu queues_frame [OF rep q] i(2-4) v(1) by (auto simp: sched_rep_def simp del: state_code.simps)
qed

end
