(* ===== verification/List_Entry.thy ===== *)
theory List_Entry
  imports CList
begin

text \<open>
  The macros of \<^verbatim>\<open>src/include/list/list.h\<close> that walk objects instead of nodes. An object has its node at the
  offset \<open>off\<close>; the walks are the walks over the nodes of \<^verbatim>\<open>CList\<close>, with every node replaced by its object.
\<close>

definition list_next_entry :: "mem \<Rightarrow> addr \<Rightarrow> addr \<Rightarrow> addr" where
  "list_next_entry m pos off = list_entry (list_next m (pos + off)) off"

definition list_prev_entry :: "mem \<Rightarrow> addr \<Rightarrow> addr \<Rightarrow> addr" where
  "list_prev_entry m pos off = list_entry (list_prev m (pos + off)) off"

partial_function (option) list_for_each_entry :: "mem \<Rightarrow> addr \<Rightarrow> addr \<Rightarrow> addr \<Rightarrow> addr list option" where
  "list_for_each_entry m off head pos =
     (if pos + off \<noteq> head
      then Option.bind (list_for_each_entry m off head (list_next_entry m pos off)) (\<lambda>r. Some (pos # r))
      else Some [])"

partial_function (option) list_for_each_entry_safe ::
  "('s \<Rightarrow> mem) \<Rightarrow> (addr \<Rightarrow> 's \<Rightarrow> 's outcome option) \<Rightarrow> addr \<Rightarrow> addr \<Rightarrow> addr \<Rightarrow> addr \<Rightarrow> 's \<Rightarrow> 's outcome option" where
  "list_for_each_entry_safe mem_of body off head pos n s =
     (if pos + off \<noteq> head
      then case body pos s of
             None \<Rightarrow> None
           | Some (Inl e) \<Rightarrow> Some (Inl e)
           | Some (Inr s) \<Rightarrow> list_for_each_entry_safe mem_of body off head n (list_next_entry (mem_of s) n off) s
      else Some (Inr s))"

lemma entry_node [simp]: "list_entry p off + off = p" "list_entry (p + off) off = p"
  by (simp_all add: list_entry_def)

section \<open>The walks over objects and over nodes\<close>

lemma entry_walk:
  "linked m (pairs (a # xs @ [h])) \<Longrightarrow> h \<notin> set xs \<Longrightarrow>
    list_for_each_entry m off h (list_entry (list_next m a) off) = Some (map (\<lambda>n. list_entry n off) xs)"
proof (induction xs arbitrary: a)
  case (Cons x xs)
  then have "list_next m a = x" "list_for_each_entry m off h (list_entry (list_next m x) off) = Some (map (\<lambda>n. list_entry n off) xs)" "x \<noteq> h"
    by auto
  then show ?case by (subst list_for_each_entry.simps) (simp add: list_next_entry_def)
qed (simp add: list_for_each_entry.simps)

lemma list_for_each_entry_dlist:
  assumes "dlist m h xs"
  shows "list_for_each_entry m off h (list_entry (list_next m h) off) = Some (map (\<lambda>n. list_entry n off) xs)"
  using assms apart_distinct [of "h # xs"] by (intro entry_walk) (auto simp: dlist_def)

lemma safe_entry_node:
  assumes "list_for_each_entry_safe mem_of body off head pos n s = Some r"
  shows "list_for_each_safe mem_of (\<lambda>p. body (list_entry p off)) head (pos + off) (n + off) s = Some r"
proof (rule list_for_each_entry_safe.raw_induct [where P =
      "\<lambda>mem_of body off head pos n s r. list_for_each_safe mem_of (\<lambda>p. body (list_entry p off)) head (pos + off) (n + off) s = Some r",
      OF _ assms], goal_cases)
  case (1 walk mem_of body off head pos n s r)
  show ?case
    using 1(2) by (subst list_for_each_safe.simps)
      (auto simp: list_next_entry_def split: if_splits option.splits sum.splits dest!: 1(1))
qed

lemma safe_node_entry:
  assumes "list_for_each_safe mem_of f head p q s = Some r" "\<And>p. f p = body (list_entry p off)"
  shows "list_for_each_entry_safe mem_of body off head (list_entry p off) (list_entry q off) s = Some r"
proof -
  have "(\<forall>p. f p = body (list_entry p off)) \<longrightarrow>
      list_for_each_entry_safe mem_of body off head (list_entry p off) (list_entry q off) s = Some r"
  proof (rule list_for_each_safe.raw_induct [where P =
        "\<lambda>mem_of f head p q s r. (\<forall>p. f p = body (list_entry p off)) \<longrightarrow>
          list_for_each_entry_safe mem_of body off head (list_entry p off) (list_entry q off) s = Some r",
        OF _ assms(1)], goal_cases)
    case (1 walk mem_of f head p q s r)
    show ?case
    proof
      assume f: "\<forall>p. f p = body (list_entry p off)"
      then show "list_for_each_entry_safe mem_of body off head (list_entry p off) (list_entry q off) s = Some r"
        using 1(2) by (subst list_for_each_entry_safe.simps)
          (auto simp: list_next_entry_def split: if_splits option.splits sum.splits dest!: 1(1))
    qed
  qed
  then show ?thesis using assms(2) by simp
qed

text \<open>The two safe walks are the same, also when they do not end.\<close>

lemma safe_walks:
  "list_for_each_entry_safe mem_of body off head (list_entry p off) (list_entry q off) s =
   list_for_each_safe mem_of (\<lambda>p. body (list_entry p off)) head p q s"
  using safe_entry_node [of mem_of body off head "list_entry p off" "list_entry q off" s]
    safe_node_entry [of mem_of "\<lambda>p. body (list_entry p off)" head p q s _ body off]
  by (metis entry_node(1) option.exhaust)

end
