(* ===== verification/Vcpu_Props.thy ===== *)
theory Vcpu_Props
  imports Vcpu_Sched List_Entry
begin

text \<open>
  The properties of the virtual processors: the operations implement the scheduler of \<^verbatim>\<open>Vcpu_Sched\<close>, what
  becomes of a processor that is switched out, and what \<open>pcpu_switch\<close> does when nothing is ready. The
  runs of the scheduler are the step relation \<open>sched_steps\<close>.
\<close>

inductive sched_steps :: "hardware \<Rightarrow> addr \<Rightarrow> addr set \<Rightarrow> machine \<Rightarrow> sched \<Rightarrow> machine \<Rightarrow> sched \<Rightarrow> bool" for hw p V s A where
  stop: "sched_steps hw p V s A s A"
| step: "sched_steps hw p V s A s' A' \<Longrightarrow> op_ok p V op A' \<Longrightarrow> sched_steps hw p V s A (vcpu_exec hw p op s') (sched_step op A')"

lemma steps_rep: "sched_steps hw p V s A s' A' \<Longrightarrow> sched_rep (vmem s) p V A \<Longrightarrow> sched_rep (vmem s') p V A'"
  by (induction rule: sched_steps.induct) (auto simp: exec_refines simp del: sched_step.simps vcpu_exec.simps)

text \<open>A processor that is ready but in no queue and not current stays so.\<close>

definition lost :: "addr \<Rightarrow> sched \<Rightarrow> bool" where
  "lost c A \<longleftrightarrow> st A c = VCPU_STATE_READY \<and> c \<notin> set (rq A) \<and> c \<notin> set (sq A) \<and> c \<noteq> cur A"

lemma lost_step: "lost c A \<Longrightarrow> op_ok p V op A \<Longrightarrow> lost c (sched_step op A)"
proof (cases op)
  case (Switch g)
  assume l: "lost c A" and "op_ok p V op A"
  then obtain n r where "rq A = n # r" by (cases "rq A") (auto simp: op_ok_def Switch)
  with l show ?thesis by (auto simp: lost_def Switch Let_def)
qed (auto simp: lost_def)

lemma lost_steps: "sched_steps hw p V s A s' A' \<Longrightarrow> lost c A \<Longrightarrow> lost c A'"
  by (induction rule: sched_steps.induct) (auto intro: lost_step)

section \<open>Initialisation\<close>

text \<open>A physical processor with empty queues and no current processor, and virtual ones initialised by the code.\<close>

definition all_offline :: sched where
  "all_offline = \<lparr>rq = [], sq = [], cur = NULL, st = (\<lambda>_. VCPU_STATE_OFFLINE)\<rparr>"

definition pcpu_with :: "addr \<Rightarrow> (addr \<times> u32) list \<Rightarrow> mem \<Rightarrow> mem" where
  "pcpu_with p vs m =
     fold (\<lambda>(v, i). vcpu_init p v i) vs (list_init (list_init (store64 m (p + 40) NULL) (ready_vcpus p)) (suspend_vcpus p))"

lemma laid_out_mono: "laid_out p V \<Longrightarrow> W \<subseteq> V \<Longrightarrow> laid_out p W"
  unfolding laid_out_def apart_from_def by (meson subsetD)

lemma empty_rep:
  assumes "laid_out p {}"
  shows "sched_rep (list_init (list_init (store64 m (p + 40) NULL) (ready_vcpus p)) (suspend_vcpus p)) p {} all_offline"
proof -
  let ?z = "store64 m (p + 40) NULL" let ?y = "list_init ?z (ready_vcpus p)" let ?m = "list_init ?y (suspend_vcpus p)"
  note f = pcpu_fields [of p]
  have "dlist ?m (ready_vcpus p) []"
    by (rule cl.holds_frame [OF list_init_dlist(1) agree_mono [OF list_init_dlist(2)]]) (use f in auto)
  moreover have "current_vcpu ?m p = current_vcpu ?z p"
    unfolding current_vcpu_def
    by (rule c64.rd_local, rule agree_trans [OF agree_mono [OF list_init_dlist(2)] agree_mono [OF list_init_dlist(2)]]) (use f in auto)
  then have "current_vcpu ?m p = NULL" by (simp add: current_vcpu_def c64.rd_wr_same)
  ultimately show ?thesis
    using assms list_init_dlist(1) [of ?y "suspend_vcpus p"] by (simp add: sched_rep_def sched_inv_def all_offline_def)
qed

lemma init_all:
  "sched_rep m p V all_offline \<Longrightarrow> laid_out p (V \<union> fst ` set vs) \<Longrightarrow> distinct (map fst vs) \<Longrightarrow> V \<inter> fst ` set vs = {} \<Longrightarrow>
    sched_rep (fold (\<lambda>(v, i). vcpu_init p v i) vs m) p (V \<union> fst ` set vs) all_offline"
proof (induction vs arbitrary: m V)
  case (Cons x vs)
  obtain v i where x: "x = (v, i)" by (cases x)
  have "laid_out p (insert v V)" using laid_out_mono [OF Cons.prems(2)] x by auto
  moreover have "v \<noteq> NULL" using not_null [OF Cons.prems(2)] x by auto
  ultimately have "sched_rep (vcpu_init p v i m) p (insert v V) all_offline"
    using init_adds [OF Cons.prems(1), of v i] Cons.prems(4) x by (simp add: all_offline_def fun_upd_idem)
  then show ?case using Cons.IH [of "vcpu_init p v i m" "insert v V"] Cons.prems(2-4) x by auto
qed simp

lemma pcpu_with_rep:
  assumes "laid_out p (fst ` set vs)" "distinct (map fst vs)"
  shows "sched_rep (pcpu_with p vs m) p (fst ` set vs) all_offline"
  using init_all [OF empty_rep [OF laid_out_mono [OF assms(1) empty_subsetI]], of vs] assms by (simp add: pcpu_with_def)

section \<open>Properties\<close>

text \<open>
  C20. Every operation of \<^verbatim>\<open>vcpu.c\<close> implements its step of the scheduler: \<open>vcpu_start\<close>, \<open>vcpu_suspend\<close>,
  \<open>vcpu_resume\<close> and \<open>vcpu_halt\<close> for every processor in every state, and \<open>pcpu_switch\<close> when a processor is
  ready. The queues stay well-formed lists in first-in first-out order, at most the current
  processor is running, a running or offline processor is in no queue, and no processor's state
  changes but the one operated on and, at a switch, the old and the new current one.
\<close>

theorem vcpu_sched_refines:
  assumes "sched_rep (vmem s) p V A" "op_ok p V op A"
  shows "sched_rep (vmem (vcpu_exec hw p op s)) p V (sched_step op A)"
  by (rule exec_refines [OF assms])


text \<open>
  C24. With an empty ready queue \<open>pcpu_switch\<close> does not stop: an empty circular list has its head as
  successor, not \<open>NULL\<close>. The head of the queue itself is unlinked, so that both its links are \<open>NULL\<close>,
  and the current processor becomes a structure at 520 bytes before the \<open>pcpu\<close>, which no one
  allocated. The next call finds \<open>NULL\<close> and leaves no current processor.
\<close>

theorem switch_empty_queue:
  assumes "sched_rep (vmem s) p V A" "rq A = []" "apart_from (span g 272) p V" "span g 272 \<inter> span (p - 520) 552 = {}"
    and "s' = pcpu_switch hw p g s"
  shows "current_vcpu (vmem s') p = p - 520 \<and> list_next (vmem s') (ready_vcpus p) = NULL \<and> list_prev (vmem s') (ready_vcpus p) = NULL \<and>
    current_vcpu (vmem (switch_in p g' s')) p = NULL"
proof -
  let ?n = "p - 520"
  define s1 where "s1 = switch_out hw p g s"
  define m1 where "m1 = list_del (vmem s1) (ready_vcpus p)"
  define m3 where "m3 = store64 (set_vcpu_state m1 ?n VCPU_STATE_RUNNING) (p + 40) ?n"
  have rep1: "sched_rep (vmem s1) p V (A\<lparr>st := (if cur A \<noteq> NULL then (st A)(cur A := VCPU_STATE_READY) else st A)\<rparr>)"
    unfolding s1_def by (rule switch_out_refines [OF assms(1,3)])
  then have d: "dlist (vmem s1) (ready_vcpus p) []" using assms(2) by (simp add: sched_rep_def)
  note e = dlist_ends [OF d]
  have nn: "ready_vcpus p \<noteq> NULL"
  proof
    assume "ready_vcpus p = NULL"
    moreover have "p + 8 \<in> span p 48" "(0 :: addr) \<in> span NULL 16" by (simp_all add: span_iff)
    ultimately show False using assms(1) by (auto simp: sched_rep_def laid_out_def apart_from_def)
  qed
  have s': "s' = vcpu_restore_context ?n g (s1\<lparr>vmem := m3\<rparr>)"
    using e nn unfolding assms(5) pcpu_switch_def s1_def [symmetric]
    by (simp add: switch_in_def list_entry_def m3_def m1_def add.commute [of 8 p] Let_def)
  note rs = restore_context_ok [OF assms(4) s', simplified]
  have off: "span (p + 8) 16 \<inter> span (?n + 4) 4 = {}" "span (p + 40) 8 \<inter> span (?n + 4) 4 = {}"
  proof -
    have eq: "?n + 4 = p + 18446744073709551100" by simp
    show "span (p + 8) 16 \<inter> span (?n + 4) 4 = {}" "span (p + 40) 8 \<inter> span (?n + 4) 4 = {}"
      unfolding eq by (auto simp: span_simps span_iff [of _ p])
  qed
  have g: "span (p + 8) 16 \<inter> span g 272 = {}" "span (p + 40) 8 \<inter> span g 272 = {}"
    using assms(3) pcpu_fields(1,3) [of p] unfolding apart_from_def by blast+
  have a1: "agree (span (p + 8) 16) (vmem s') m1"
  proof (rule agree_trans [OF agree_mono [OF rs(4)]])
    show "agree (span (p + 8) 16) m3 m1"
      unfolding m3_def by (rule agree_trans [OF c64.wr_agree agree_mono [OF set_state_agree]]) (use off pcpu_fields(5) [of p] in auto)
  qed (use off g in auto)
  have "list_next m1 (ready_vcpus p) = NULL" "list_prev m1 (ready_vcpus p) = NULL" by (simp_all add: m1_def list_del_def Let_def)
  then have l: "list_next (vmem s') (ready_vcpus p) = NULL" "list_prev (vmem s') (ready_vcpus p) = NULL"
    using link_frame [OF a1 subset_refl] by simp_all
  have "current_vcpu (vmem s') p = current_vcpu m3 p"
    unfolding current_vcpu_def by (rule c64.rd_frame [OF rs(4)]) (use off(2) g(2) in auto)
  then have "current_vcpu (vmem s') p = ?n" by (simp add: m3_def current_vcpu_def c64.rd_wr_same)
  then show ?thesis using l by (simp add: switch_in_def current_vcpu_def c64.rd_wr_same)
qed


section \<open>Witnesses\<close>

text \<open>Two of them.\<close>

definition two_vcpus :: mem where
  "two_vcpus = pcpu_with 0x1000 [(0x2000, 0), (0x3000, 1)] (\<lambda>_. 0)"

lemma demo_layout: "laid_out 0x1000 {0x3000, 0x2000}" "apart_from (span 0x5000 272) 0x1000 {0x3000, 0x2000}"
  by (auto simp: laid_out_def apart_from_def span_nowrap)

lemma two_vcpus_rep: "sched_rep two_vcpus 0x1000 {0x3000, 0x2000} all_offline"
  using pcpu_with_rep [of "0x1000" "[(0x2000, 0), (0x3000, 1)]"] demo_layout(1) by (simp add: two_vcpus_def insert_commute)

theorem vcpu_sched_refines_witness:
  "sched_rep (vmem (vcpu_exec vcpu_demo_hw 0x1000 (Start 0x2000) \<lparr>vmem = two_vcpus, vtrace = []\<rparr>)) 0x1000 {0x3000, 0x2000}
     (all_offline\<lparr>rq := [0x2000], st := (\<lambda>_. VCPU_STATE_OFFLINE)(0x2000 := VCPU_STATE_READY)\<rparr>)"
  using vcpu_sched_refines [of "\<lparr>vmem = two_vcpus, vtrace = []\<rparr>" "0x1000" "{0x3000, 0x2000}" all_offline "Start 0x2000" vcpu_demo_hw] two_vcpus_rep
  by (simp add: op_ok_def all_offline_def)

text \<open>Both are started, the first one runs, and then it is switched out.\<close>

definition demo_ops :: "sched_op list" where "demo_ops = [Start 0x2000, Start 0x3000, Switch 0x5000]"

definition first_runs :: machine where
  "first_runs = fold (vcpu_exec vcpu_demo_hw 0x1000) demo_ops \<lparr>vmem = two_vcpus, vtrace = []\<rparr>"

lemma first_runs_rep:
  "sched_rep (vmem first_runs) 0x1000 {0x3000, 0x2000} (fold sched_step demo_ops all_offline)"
proof -
  let ?V = "{0x3000, 0x2000} :: addr set" and ?s = "\<lparr>vmem = two_vcpus, vtrace = []\<rparr>"
  have "sched_rep (vmem ?s) 0x1000 ?V all_offline" using two_vcpus_rep by simp
  from exec_refines [OF this, of "Start 0x2000" vcpu_demo_hw]
  have "sched_rep (vmem (vcpu_exec vcpu_demo_hw 0x1000 (Start 0x2000) ?s)) 0x1000 ?V (sched_step (Start 0x2000) all_offline)"
    by (simp add: op_ok_def del: vcpu_exec.simps sched_step.simps)
  from exec_refines [OF this, of "Start 0x3000" vcpu_demo_hw]
  have "sched_rep (vmem (fold (vcpu_exec vcpu_demo_hw 0x1000) [Start 0x2000, Start 0x3000] ?s)) 0x1000 ?V
      (fold sched_step [Start 0x2000, Start 0x3000] all_offline)"
    by (simp add: op_ok_def del: vcpu_exec.simps sched_step.simps)
  moreover have "op_ok 0x1000 ?V (Switch 0x5000) (fold sched_step [Start 0x2000, Start 0x3000] all_offline)"
    using demo_layout(2) by (simp add: op_ok_def all_offline_def)
  ultimately show ?thesis
    using exec_refines by (simp add: first_runs_def demo_ops_def del: vcpu_exec.simps sched_step.simps)
qed


theorem switch_empty_queue_witness:
  "current_vcpu (vmem (pcpu_switch vcpu_demo_hw 0x1000 0x5000 \<lparr>vmem = two_vcpus, vtrace = []\<rparr>)) 0x1000 = 0xdf8"
proof -
  have "span 0x5000 272 \<inter> span (0x1000 - 520) 552 = {}" by (auto simp: span_nowrap)
  then show ?thesis
    using switch_empty_queue [of "\<lparr>vmem = two_vcpus, vtrace = []\<rparr>" "0x1000" "{0x3000, 0x2000}" all_offline "0x5000" _ vcpu_demo_hw]
      two_vcpus_rep demo_layout(2) by (simp add: all_offline_def)
qed


end
