(* ===== verification/Cpu_Context.thy ===== *)
theory Cpu_Context
  imports Vcpu
begin

text \<open>
  The macro \<open>SAVE_CPU_CONTEXT\<close> of \<^verbatim>\<open>src/include/sched/vcpu.h\<close>, which stores the registers of the running
  code into an \<open>aarch64_gpregs_t\<close>: \<open>x[31]\<close> at 0, \<open>sp\<close> at 248, \<open>pc\<close> at 256, \<open>pstate\<close> at 264, 272 bytes.
\<close>

text \<open>The fifteen \<open>stp\<close> instructions, for the registers in their order.\<close>

fun stp_seq :: "addr \<Rightarrow> u64 list \<Rightarrow> mem \<Rightarrow> mem" where
  "stp_seq a (v # w # xs) m = stp_seq (a + 16) xs (store64 (store64 m a v) (a + 8) w)"
| "stp_seq a _ m = m"

text \<open>\<open>x\<close> are the registers \<open>x0\<close> to \<open>x29\<close>, \<open>sp\<close> is the stack pointer and \<open>here\<close> the address of the label 1.\<close>

definition SAVE_CPU_CONTEXT :: "hardware \<Rightarrow> u64 list \<Rightarrow> u64 \<Rightarrow> u64 \<Rightarrow> addr \<Rightarrow> machine \<Rightarrow> machine" where
  "SAVE_CPU_CONTEXT hw x sp here gpregs s =
     (let m = stp_seq gpregs x (vmem s);
          m = store64 m (gpregs + 496) sp;
          (x1, tr) = read_sysreg hw (vtrace s) ''SPSR_EL2'';
          m = store64 m (gpregs + 512) x1;
          m = store64 m (gpregs + 504) here
      in s\<lparr>vmem := m, vtrace := tr\<rparr>)"

lemma stp_seq_ok:
  assumes "even (length xs)" "8 * length xs \<le> 18446744073709551616"
  shows "words_at (stp_seq a xs m) a xs \<and> agree (- span a (8 * length xs)) (stp_seq a xs m) m"
  using assms
proof (induction a xs m rule: stp_seq.induct)
  case (1 a v w xs m)
  let ?m = "store64 (store64 m a v) (a + 8) w" and ?f = "stp_seq (a + 16) xs (store64 (store64 m a v) (a + 8) w)"
  have ih: "words_at ?f (a + 16) xs" "agree (- span (a + 16) (8 * length xs)) ?f ?m" using 1 by auto
  have a8: "a + 8 + 8 = a + 16" by simp
  note f = word_span [of "Suc (length xs)" a] word_span [of "length xs" "a + 8", unfolded a8]
  have d: "span a 8 \<inter> span (a + 8) 8 = {}" "span (a + 8) 8 \<inter> span (a + 16) (8 * length xs) = {}" "span a 8 \<inter> span (a + 16) (8 * length xs) = {}"
    "span (a + 8) 8 \<subseteq> span a (8 * length (v # w # xs))" "span (a + 16) (8 * length xs) \<subseteq> span a (8 * length (v # w # xs))"
    "span a 8 \<subseteq> span a (8 * length (v # w # xs))"
    using f 1(3) by auto
  have "load64 ?f a = load64 ?m a" "load64 ?f (a + 8) = load64 ?m (a + 8)"
    using d by (auto intro!: c64.rd_frame [OF ih(2)])
  moreover have "load64 ?m a = v" "load64 ?m (a + 8) = w" by (simp_all add: c64.rd_wr_other c64.rd_wr_same d(1))
  moreover have "agree (- span a (8 * length (v # w # xs))) ?f m"
    by (rule agree_trans [OF agree_mono [OF ih(2)] agree_trans [OF c64.wr_agree c64.wr_agree]]) (use d in auto)
  ultimately show ?case using ih(1) by (simp add: a8)
qed auto

lemma words_at_nth:
  "words_at m a xs \<Longrightarrow> i < length xs \<Longrightarrow> load64 m (a + 8 * of_nat i) = xs ! i"
proof (induction xs arbitrary: a i)
  case (Cons x xs)
  then show ?case by (cases i) (use Cons.IH [of "a + 8" "i - 1"] in \<open>auto simp: algebra_simps\<close>)
qed simp

text \<open>
  C25. \<open>SAVE_CPU_CONTEXT\<close> writes behind the structure it is given. It stores \<open>x0\<close> to \<open>x29\<close> in their
  fields, but the stack pointer, the program counter and the status register go to the offsets 496,
  504 and 512, past the end of the 272 bytes of an \<open>aarch64_gpregs_t\<close>; the fields \<open>x[30]\<close>, \<open>sp\<close>,
  \<open>pc\<close> and \<open>pstate\<close> keep what they had, and nothing else is written.
\<close>

theorem save_cpu_context_overruns:
  assumes "length x = 30" "s' = SAVE_CPU_CONTEXT hw x sp here g s"
  shows "map (\<lambda>i. load64 (vmem s') (g + 8 * of_nat i)) [0..<30] = x \<and>
    agree (span (g + 240) 32) (vmem s') (vmem s) \<and>
    load64 (vmem s') (g + 496) = sp \<and> load64 (vmem s') (g + 504) = here \<and>
    load64 (vmem s') (g + 512) = sysreg_rd hw (vtrace s) ''SPSR_EL2'' \<and>
    span (g + 496) 24 \<inter> span g (unat sizeof_gpregs) = {} \<and>
    agree (- (span g 240 \<union> span (g + 496) 24)) (vmem s') (vmem s)"
proof -
  define m1 where "m1 = stp_seq g x (vmem s)"
  let ?r = "sysreg_rd hw (vtrace s) ''SPSR_EL2''"
  have v: "vmem s' = store64 (store64 (store64 m1 (g + 496) sp) (g + 512) ?r) (g + 504) here"
    by (simp add: assms(2) SAVE_CPU_CONTEXT_def m1_def read_sysreg_def Let_def)
  have d: "span (g + 496) 8 \<inter> span (g + 512) 8 = {}" "span (g + 496) 8 \<inter> span (g + 504) 8 = {}" "span (g + 512) 8 \<inter> span (g + 504) 8 = {}"
    "span (g + 496) 8 \<subseteq> span (g + 496) 24" "span (g + 504) 8 \<subseteq> span (g + 496) 24" "span (g + 512) 8 \<subseteq> span (g + 496) 24"
    "span (g + 496) 24 \<inter> span g 272 = {}" "span g 240 \<subseteq> span g 272" "span (g + 240) 32 \<subseteq> span g 272" "span (g + 240) 32 \<inter> span g 240 = {}"
    by (auto simp: span_simps span_iff [of _ g])
  have m1: "words_at m1 g x" "agree (- span g 240) m1 (vmem s)" using stp_seq_ok [of x g "vmem s"] assms(1) by (simp_all add: m1_def)
  have high: "agree (- span (g + 496) 24) (vmem s') m1"
    unfolding v by (rule agree_trans [OF c64.wr_agree agree_trans [OF c64.wr_agree c64.wr_agree]]) (use d in auto)
  have "words_at (vmem s') g x"
    by (rule words_at_frame [OF m1(1) agree_mono [OF high]]) (use d(7,8) assms(1) in auto)
  then have "map (\<lambda>i. load64 (vmem s') (g + 8 * of_nat i)) [0..<30] = x"
    using words_at_nth assms(1) by (intro nth_equalityI) auto
  moreover have "agree (- (span g 240 \<union> span (g + 496) 24)) (vmem s') (vmem s)"
    by (rule agree_trans [OF agree_mono [OF high] agree_mono [OF m1(2)]]) auto
  moreover have "agree (span (g + 240) 32) (vmem s') (vmem s)"
    by (rule agree_mono [OF \<open>agree (- (span g 240 \<union> span (g + 496) 24)) (vmem s') (vmem s)\<close>]) (use d in auto)
  moreover have "load64 (vmem s') (g + 496) = sp" "load64 (vmem s') (g + 512) = ?r" "load64 (vmem s') (g + 504) = here"
    using d(1-3) by (simp_all add: v c64.rd_wr_other c64.rd_wr_same)
  ultimately show ?thesis using d(7) by simp
qed

theorem save_cpu_context_overruns_witness:
  "load64 (vmem (SAVE_CPU_CONTEXT vcpu_demo_hw (replicate 30 7) 0x8000 0x4000 0x1000 \<lparr>vmem = (\<lambda>_. 0), vtrace = []\<rparr>)) 0x11F0 = 0x8000"
  using save_cpu_context_overruns [of "replicate 30 7" _ vcpu_demo_hw "0x8000" "0x4000" "0x1000" "\<lparr>vmem = (\<lambda>_. 0), vtrace = []\<rparr>", OF _ refl]
  by simp

end
