(* ===== verification/Spec2Isabelle.thy ===== *)
theory Spec2Isabelle
  imports Stress App_Test Messages Rwlock Run_Once Atomic Icc Vcpu_Props Cpu_Context
begin

text \<open>
  \<^bold>\<open>z-hyper.\<close> A verification library for z-hyper, a small AArch64 hypervisor that runs at exception level 2
  on the QEMU virt board. The sources are under \<^verbatim>\<open>src/\<close>; names of definitions are the names of the C
  functions, structures and constants they translate (leading underscores dropped).

  \<^bold>\<open>The program.\<close> \<open>platform_init\<close> (\<^verbatim>\<open>platform/aarch64/main/main.c\<close>) installs the exception vectors, finds and
  initialises the UART console, hands 1 MB after the image to the miniheap allocator, initialises
  the GICv3 interrupt controller, sets up a timer manager per processor and its private interrupt 26,
  creates and starts one periodic timer, and waits for interrupts. An interrupt reaches \<open>el2_irq\<close>,
  which acknowledges it, looks up its context, calls the handler stored there and signals its end;
  the timer handler walks the list of timers, calls their callbacks, and frees one-shot timers. All
  of this stands on a freestanding C library (\<^verbatim>\<open>src/libc\<close>) and on lock and atomic primitives.

  \<^bold>\<open>Conventions.\<close> Machine integers are words of their width, so arithmetic wraps as it does in C.
  Memory is a function from 64-bit addresses to bytes (\<^verbatim>\<open>Memory\<close>) wherever the code walks structures through
  pointers; structures there are read and written at the offsets the ABI gives them. A function that can stop in \<open>panic\<close>
  returns \<open>Inl (Panic msg)\<close>; one that may loop forever is a \<open>partial_function (option)\<close>, with \<open>None\<close>
  for not returning, and every theorem about it states that it returns. There is no fuel. Devices
  and system registers are a parameter \<open>hardware\<close> that answers a read from the whole history of
  accesses (\<^verbatim>\<open>Mmio\<close>), so waiting for a flag is a loop that ends exactly when the device lets it
  end. Each driver keeps the trace of its own accesses: \<open>pl_trace\<close> for the UART, \<open>gic_trace\<close> for the
  interrupt controller and all system registers. \<open>NR_CPU\<close> and \<open>HZ\<close>, which the build defines, are
  members of \<open>hardware\<close>; addresses the linker chooses are the record \<open>symbols\<close>.

  \<^bold>\<open>Theories, in the order of the code.\<close>

  \<^item> \<^verbatim>\<open>Prelude\<close>, \<^verbatim>\<open>Memory\<close>: machine types, outcomes, error numbers; byte ranges \<open>span\<close>, equality of
    memories on a range \<open>agree\<close>, and the locale \<open>cell\<close> of load and store pairs, interpreted for 8, 32
    and 64 bits.
  \<^item> \<^verbatim>\<open>Miniheap\<close> (\<^verbatim>\<open>src/libc/miniheap.c\<close>), \<^verbatim>\<open>Heap_Segments\<close>, \<^verbatim>\<open>Miniheap_Refine\<close>, \<^verbatim>\<open>Miniheap_Release\<close>,
    \<^verbatim>\<open>Allocator\<close>, \<^verbatim>\<open>Miniheap_Props\<close>, \<^verbatim>\<open>Heap_Frame\<close>: the allocator over byte memory; an abstract heap as a tiling
    of segments with first fit and coalescing; the refinement between the two; the locale
    \<open>allocator\<close> (which blocks are owned, what a client may write) and its extension
    \<open>confined_allocator\<close> (nothing outside the region changes), both interpreted on the code's functions.
    \<^verbatim>\<open>Report\<close>: what \<open>dump_miniheap\<close> prints.
  \<^item> \<^verbatim>\<open>Rand\<close>, \<^verbatim>\<open>Stress\<close> (\<^verbatim>\<open>rand.c\<close>, \<^verbatim>\<open>unittest/miniheap_stress_test.c\<close>): the generator and the 20000-step
    stress test as a client of \<open>allocator\<close>, shown never to fail.
  \<^item> \<^verbatim>\<open>CList\<close> (\<^verbatim>\<open>include/list/list.h\<close>): the circular list; \<open>dlist\<close> says which nodes a list has; the locale
    \<open>intrusive_list\<close> is its interface. \<^verbatim>\<open>List_Entry\<close>: the macros that walk objects instead of nodes.
  \<^item> \<^verbatim>\<open>CString\<close>, \<^verbatim>\<open>Printf\<close> (\<^verbatim>\<open>string.c\<close>, \<^verbatim>\<open>printf.c\<close>): string functions against \<open>cstr\<close>, and formatted
    output as the sequence of characters given to \<open>putchar\<close>, against a rendering of a parsed format.
    \<^verbatim>\<open>Text\<close>: calls with a string literal as format, whose address is a parameter \<open>lit\<close>; a parser of formats that gives what each
    prints, and the conversions it takes. \<^verbatim>\<open>App_Test\<close> (\<^verbatim>\<open>src/app/test.c\<close>): the test programs that use them together.
  \<^item> \<^verbatim>\<open>Mmio\<close> (\<^verbatim>\<open>aarch64_utils.h\<close>), \<^verbatim>\<open>Pl011\<close> (\<^verbatim>\<open>pl011.c\<close>), \<^verbatim>\<open>Console\<close> (\<^verbatim>\<open>console.c\<close>): accessors, UART driver and
    the table of consoles.
  \<^item> \<^verbatim>\<open>Mutex\<close>: the contract of a lock as the locale \<open>mutex\<close> over its step function, and \<open>shared_mutex\<close> for one with readers, interpreted
    in \<^verbatim>\<open>Spinlock\<close> and \<^verbatim>\<open>Rwlock\<close>.
  \<^item> \<^verbatim>\<open>Spinlock\<close>, \<^verbatim>\<open>Rwlock\<close> (\<^verbatim>\<open>arch_spinlock.h\<close>), \<^verbatim>\<open>Atomic\<close> (\<^verbatim>\<open>atomic.h\<close>): the inline assembly instruction by
    instruction, for any number of processors interleaved in any order, with exclusive monitors.
    \<^verbatim>\<open>Run_Once\<close> (\<^verbatim>\<open>include/utils/utils.h\<close>): \<open>run_once\<close> under contention, as a client of the spinlock's contract;
    the start code of one processor uses the sequential \<open>run_once\<close> of \<^verbatim>\<open>Gic\<close>.
  \<^item> \<^verbatim>\<open>Gic_Regs\<close>, \<^verbatim>\<open>Gic\<close>, \<^verbatim>\<open>Gic_Config\<close>, \<^verbatim>\<open>Gic_Spi\<close>, \<^verbatim>\<open>Gic_Private\<close>, \<^verbatim>\<open>Gic_Init\<close> (\<^verbatim>\<open>driver/gic\<close>): the register frames as declared;
    the drivers of distributor, redistributors and the three kinds of interrupts; the specification
    as a table of interrupt configurations read off the trace; the locale \<open>irq_operations\<close>, interpreted for
    shared, private and software generated interrupts; initialisation. \<^verbatim>\<open>Icc\<close> (\<^verbatim>\<open>icc.h\<close>): the accessors of the
    CPU interface.
  \<^item> \<^verbatim>\<open>Timer\<close>, \<^verbatim>\<open>Timer_Props\<close>, \<^verbatim>\<open>Timer_Init\<close> (\<^verbatim>\<open>timer/timer.c\<close>): timers in heap blocks on a list whose head is a
    static manager, invariant \<open>timers_ok\<close>; the functions callbacks point to are a parameter.
  \<^item> \<^verbatim>\<open>Exception\<close> (\<^verbatim>\<open>main/el2_sync.c\<close>): decoding of the syndrome, backtrace, the handlers.
    \<^verbatim>\<open>Exc_Report\<close>: what they and \<open>panic\<close> print, up to the data register of the UART; \<open>gicv3_show_distributor\<close>.
  \<^item> \<^verbatim>\<open>Boot\<close> (\<^verbatim>\<open>main/main.c\<close>): \<open>platform_init\<close> and the interrupts it then serves. \<^verbatim>\<open>Messages\<close>: the
    progress messages of the start, the timer callback, the drivers and the stress test, each with as many arguments as its format takes.
  \<^item> \<^verbatim>\<open>Vcpu\<close>, \<^verbatim>\<open>Vcpu_Sched\<close>, \<^verbatim>\<open>Vcpu_Props\<close>, \<^verbatim>\<open>Cpu_Context\<close> (\<^verbatim>\<open>vcpu/vcpu.c\<close>, \<^verbatim>\<open>include/sched/vcpu.h\<close>): virtual
    processors as structures in memory, linked into the queues of a physical one; the scheduler they
    implement as two queues, a current processor and a state each, and the runs of its operations as the step
    relation \<open>sched_steps\<close>. Nothing calls this code yet.

  \<^bold>\<open>What is shown.\<close> Allocation and release refine first fit with coalescing, keep every
  owned block's contents, and detect a double free; the exact requests for which the 32-bit size
  wraps are given. The list, string, print and console functions do what their names say, on every branch. The
  spinlock excludes, is fair to the order of tickets and lets the next waiter in; the reader-writer lock excludes;
  \<open>run_once\<close> runs its function to success once, under any contention; the atomic operations are
  linearizable, and the loops built on them return and act in one step. Enabling an interrupt changes exactly its entry of the configuration table; the
  initialisations return and leave all interrupts disabled. The timer handler fires every active
  timer once; an interrupt is served from its acknowledgement to its end, and an exception or a panic is reported on the serial line in full; the whole start
  succeeds, and after it any number of timer interrupts calls the callback exactly that often. The operations on
  virtual processors refine the scheduler and keep its structures well typed, contexts come back as
  they were saved; a processor that is switched out is lost, an empty ready queue is not
  noticed, and \<open>SAVE_CPU_CONTEXT\<close> writes past its structure.
  Where the code departs from its evident intention the theorem states what it does.

  \<^bold>\<open>Assumed of the environment.\<close> Named hypotheses only: \<open>settles\<close> (a flag a driver polls goes away),
  \<open>plain\<close> (configuration registers read back what was written), \<open>boots\<close> (the processor number and its
  bound), \<open>boot_layout\<close> (the heap does not wrap around the address space and does not overlap the
  managers), \<open>uart_drains\<close> and \<open>uart_empties\<close> (the UART sends what it has),
  \<open>literals\<close> (string literals are in memory), \<open>polite\<close> (a callback returns and leaves heap and managers alone), \<open>laid_out\<close> (the structures of the
  virtual processors do not overlap), \<open>settled\<close> (other processors stop changing a counter at last). Each
  theorem with hypotheses has a witness at concrete values.

  \<^bold>\<open>Not modelled.\<close> The unaligned load with which \<open>panic\<close> ends (a panic is a value that
  stops the caller); the save and restore code of
  \<^verbatim>\<open>exception.S\<close>, \<^verbatim>\<open>start.S\<close> and \<^verbatim>\<open>mmu.S\<close> (assembly); the order in which other processors see plain memory accesses (memory is sequentially
  consistent, so barriers order nothing); constants that no code uses; and what is declared or
  called but defined nowhere (\<open>create_timer_manager\<close>, \<open>restore_cpu_context\<close>, \<open>xchg\<close>).
\<close>

end
